(* ===== verification/Haze_Prelude.thy ===== *)
theory Haze_Prelude
  imports Main "HOL-Library.Word" "HOL-Library.Monad_Syntax"
begin

text \<open>
  Shared ground of the development: the machine types of the C sources, C strings, the allocator
  with its explicit failure oracle and its count of live heap blocks, and the generic lemmas and
  fact collections the component theories share.

  Conventions used by every theory.
  \<^item> A pointer that may be \<^verbatim>\<open>NULL\<close> is an \<open>option\<close>; \<^verbatim>\<open>NULL\<close> is \<open>None\<close>.
  \<^item> A C function that allocates or frees takes the allocator state \<open>mem\<close> last and returns it
    last. A function that can run into undefined behaviour (a read through \<^verbatim>\<open>NULL\<close>, a write
    outside its block) returns \<open>('a \<times> mem) option\<close>, and \<open>None\<close> stands for that behaviour.
  \<^item> Bytes are \<open>8 word\<close>; \<^verbatim>\<open>uint32_t\<close>, \<^verbatim>\<open>uint64_t\<close> and \<^verbatim>\<open>int64_t\<close> are words of their
    width (\<open>sint\<close> reads the signed one); \<^verbatim>\<open>float\<close> and \<^verbatim>\<open>double\<close> are kept as their IEEE
    bit patterns; a \<^verbatim>\<open>size_t\<close> that counts bytes or slots in memory is a \<open>nat\<close>, and the
    narrowing casts of the source are written out.
\<close>

unbundle bit_operations_syntax

type_synonym byte = "8 word"
type_synonym u16 = "16 word"
type_synonym u32 = "32 word"
type_synonym u64 = "64 word"

named_theorems alloc_simps \<open>evaluation of allocating code when no allocation fails\<close>
named_theorems mem_simps \<open>arithmetic of the allocator state\<close>

subsection \<open>The allocator\<close>

text \<open>
  \<open>outcomes\<close> lists what the next allocation requests return: \<open>True\<close> for a block, \<open>False\<close> for
  \<^verbatim>\<open>NULL\<close>; once it is used up every request succeeds. A terminating run makes finitely many
  requests, so the finite lists cover every behaviour of the allocator. \<open>live\<close> counts the blocks
  handed out and not yet freed.
\<close>

record mem =
  outcomes :: "bool list"
  live :: int

definition mem_add :: "int \<Rightarrow> mem \<Rightarrow> mem" where
  "mem_add k m = m\<lparr>live := live m + k\<rparr>"

definition nofail :: "mem \<Rightarrow> bool" where
  "nofail m \<longleftrightarrow> outcomes m = []"

definition malloc :: "mem \<Rightarrow> bool \<times> mem" where
  "malloc m =
     (case outcomes m of
        [] \<Rightarrow> (True, mem_add 1 m)
      | b # bs \<Rightarrow> (if b then (True, mem_add 1 (m\<lparr>outcomes := bs\<rparr>))
                  else (False, m\<lparr>outcomes := bs\<rparr>)))"

text \<open>Releasing one block (\<^verbatim>\<open>free\<close> of a pointer that is not \<^verbatim>\<open>NULL\<close>).\<close>

definition free1 :: "mem \<Rightarrow> mem" where
  "free1 m = mem_add (- 1) m"

text \<open>\<^verbatim>\<open>free\<close> of a pointer that may be \<^verbatim>\<open>NULL\<close>.\<close>

definition free_opt :: "'a option \<Rightarrow> mem \<Rightarrow> mem" where
  "free_opt p m = (case p of None \<Rightarrow> m | Some _ \<Rightarrow> free1 m)"

text \<open>
  \<^verbatim>\<open>realloc\<close> with a positive size. On a block it either keeps it (moved or not) or fails and
  leaves it alone; on \<^verbatim>\<open>NULL\<close> it is \<^verbatim>\<open>malloc\<close>.
\<close>

definition realloc :: "'a option \<Rightarrow> mem \<Rightarrow> bool \<times> mem" where
  "realloc p m =
     (case p of
        None \<Rightarrow> malloc m
      | Some _ \<Rightarrow> (let (ok, m') = malloc m in (ok, if ok then free1 m' else m')))"

text \<open>\<^verbatim>\<open>strdup\<close> of a C string: a fresh block with the same characters, or \<^verbatim>\<open>NULL\<close>.\<close>

definition strdup :: "byte list \<Rightarrow> mem \<Rightarrow> byte list option \<times> mem" where
  "strdup s m = (let (ok, m) = malloc m in (if ok then Some s else None, m))"

lemma nofail_mem_add [simp]: "nofail (mem_add k m) = nofail m"
  by (simp add: nofail_def mem_add_def)

lemma nofail_free1 [simp]: "nofail (free1 m) = nofail m"
  by (simp add: free1_def)

lemma nofail_free_opt [simp]: "nofail (free_opt p m) = nofail m"
  by (simp add: free_opt_def split: option.split)

lemma live_mem_add [simp]: "live (mem_add k m) = live m + k"
  by (simp add: mem_add_def)

lemma live_free1 [simp]: "live (free1 m) = live m - 1"
  by (simp add: free1_def)

lemma mem_add_0 [simp]: "mem_add 0 m = m"
  by (simp add: mem_add_def)

lemma mem_add_add [simp]: "mem_add a (mem_add b m) = mem_add (a + b) m"
  by (simp add: mem_add_def algebra_simps)

lemma free1_mem_add [mem_simps]: "free1 (mem_add k m) = mem_add (k - 1) m"
  by (simp add: free1_def algebra_simps)

lemma mem_add_free1 [mem_simps]: "mem_add k (free1 m) = mem_add (k - 1) m"
  by (simp add: free1_def algebra_simps)

lemma malloc_nofail [alloc_simps]: "nofail m \<Longrightarrow> malloc m = (True, mem_add 1 m)"
  by (simp add: malloc_def nofail_def)

lemma realloc_nofail [alloc_simps]:
  "nofail m \<Longrightarrow> realloc p m = (True, case p of None \<Rightarrow> mem_add 1 m | Some _ \<Rightarrow> m)"
  by (simp add: realloc_def malloc_nofail free1_def split: option.split)

lemma strdup_nofail [alloc_simps]: "nofail m \<Longrightarrow> strdup s m = (Some s, mem_add 1 m)"
  by (simp add: strdup_def malloc_nofail)

lemma malloc_live: "malloc m = (ok, m') \<Longrightarrow> live m' = live m + (if ok then 1 else 0)"
  by (auto simp: malloc_def split: list.splits if_splits)

lemma malloc_nofailD: "malloc m = (ok, m') \<Longrightarrow> nofail m \<Longrightarrow> ok \<and> nofail m'"
  by (auto simp: malloc_nofail)

lemma realloc_live:
  "realloc p m = (ok, m') \<Longrightarrow> live m' = live m + (if ok \<and> p = None then 1 else 0)"
  by (auto simp: realloc_def Let_def dest: malloc_live split: option.splits prod.splits if_splits)

lemma strdup_live:
  "strdup s m = (r, m') \<Longrightarrow> live m' = live m + (if r = None then 0 else 1)"
  by (auto simp: strdup_def dest: malloc_live split: prod.splits if_splits)

lemma strdup_result: "strdup s m = (r, m') \<Longrightarrow> r = None \<or> r = Some s"
  by (auto simp: strdup_def split: prod.splits)

lemma free_opt_live: "live (free_opt p m) = live m - (if p = None then 0 else 1)"
  by (simp add: free_opt_def split: option.split)

subsection \<open>C strings\<close>

text \<open>The bytes of a string literal.\<close>

definition cstr :: "string \<Rightarrow> byte list" where
  "cstr s = map of_char s"

text \<open>What a \<^verbatim>\<open>char *\<close> reader sees of a buffer: everything before the first NUL.\<close>

definition until_nul :: "byte list \<Rightarrow> byte list" where
  "until_nul bs = takeWhile (\<lambda>b. b \<noteq> 0) bs"

definition no_nul :: "byte list \<Rightarrow> bool" where
  "no_nul bs \<longleftrightarrow> 0 \<notin> set bs"

lemma no_nul_Nil [simp]: "no_nul []"
  by (simp add: no_nul_def)

lemma until_nul_no_nul [simp]: "no_nul bs \<Longrightarrow> until_nul bs = bs"
  unfolding until_nul_def no_nul_def by (rule takeWhile_eq_all_conv [THEN iffD2]) auto

lemma no_nul_until_nul [simp]: "no_nul (until_nul bs)"
  by (auto simp: no_nul_def until_nul_def dest: set_takeWhileD)

lemma until_nul_append_0 [simp]: "no_nul bs \<Longrightarrow> until_nul (bs @ 0 # xs) = bs"
  unfolding until_nul_def no_nul_def by (subst takeWhile_append2) auto

lemma length_until_nul: "length (until_nul bs) \<le> length bs"
  by (simp add: until_nul_def length_takeWhile_le)

text \<open>
  Reading \<open>n\<close> bytes from a C string: its characters, then the terminator; reading past the
  terminator leaves the block.
\<close>

definition read_cstr :: "byte list \<Rightarrow> nat \<Rightarrow> byte list option" where
  "read_cstr s n = (if n \<le> length s + 1 then Some (take n (s @ [0])) else None)"

lemma read_cstr_exact [simp]: "read_cstr s (length s) = Some s"
  by (simp add: read_cstr_def)

text \<open>Reading \<open>n\<close> bytes from a block.\<close>

definition read_block :: "byte list \<Rightarrow> nat \<Rightarrow> byte list option" where
  "read_block bs n = (if n \<le> length bs then Some (take n bs) else None)"

lemma read_block_exact [simp]: "read_block bs (length bs) = Some bs"
  by (simp add: read_block_def)

subsection \<open>Narrowing casts\<close>

definition to_u32 :: "nat \<Rightarrow> u32" where
  "to_u32 n = of_nat n"

lemma unat_to_u32 [simp]: "n < 2 ^ 32 \<Longrightarrow> unat (to_u32 n) = n"
  by (simp add: to_u32_def unat_of_nat)

lemma unat_u32_lt [simp]: "unat (w :: u32) < 4294967296"
  using unsigned_less [of w, where 'a = nat] by simp

lemma unat_u64_lt [simp]: "unat (w :: u64) < 18446744073709551616"
  using unsigned_less [of w, where 'a = nat] by simp

subsection \<open>Deleting a slot of a C array\<close>

text \<open>
  The loop \<^verbatim>\<open>for (i = index; i < len - 1; i++) a[i] = a[i + 1]\<close>; the caller then drops the last
  slot.
\<close>

function shift_left :: "nat \<Rightarrow> 'a list \<Rightarrow> 'a list" where
  "shift_left i xs =
     (if i < length xs - 1 then shift_left (i + 1) (xs[i := xs ! (i + 1)]) else xs)"
  by pat_completeness auto
termination
  by (relation "measure (\<lambda>(i, xs). length xs - i)") auto

declare shift_left.simps [simp del]

lemma length_shift_left [simp]: "length (shift_left i xs) = length xs"
  by (induction i xs rule: shift_left.induct) (subst shift_left.simps, simp)

lemma list_all_cut [simp]: "list_all P xs \<Longrightarrow> list_all P (take i xs) \<and> list_all P (drop j xs)"
  by (auto simp: list_all_iff dest: in_set_takeD in_set_dropD)

lemma take_shift_left:
  "i < length xs \<Longrightarrow> take (length xs - 1) (shift_left i xs) = take i xs @ drop (i + 1) xs"
proof (induction i xs rule: shift_left.induct)
  case (1 i xs)
  show ?case
  proof (cases "i < length xs - 1")
    case True
    define ys where "ys = xs[i := xs ! (i + 1)]"
    have ys: "length ys = length xs" "take (i + 1) ys = take i xs @ [xs ! (i + 1)]"
        "drop (i + 1 + 1) ys = drop (i + 2) xs"
      using True by (simp_all add: ys_def take_Suc_conv_app_nth)
    have "drop (i + 1) xs = xs ! (i + 1) # drop (i + 2) xs"
      using True by (simp add: Cons_nth_drop_Suc)
    moreover have "take (length ys - 1) (shift_left (i + 1) ys)
        = take (i + 1) ys @ drop (i + 1 + 1) ys"
      using 1(1) [OF True] True unfolding ys_def by simp
    ultimately show ?thesis
      using True ys by (subst shift_left.simps) (simp, simp add: ys_def)
  next
    case False
    with 1(2) have "i = length xs - 1" by simp
    with 1(2) show ?thesis by (subst shift_left.simps) simp
  qed
qed

end
