(* ===== verification/Haze_RawBuffer.thy ===== *)
theory Haze_RawBuffer
  imports Haze_Prelude
begin

text \<open>
  \<^verbatim>\<open>source/RawBuffer.c\<close>: the owned byte buffer every marshalling function returns. \<open>rb_data\<close> is
  the block behind \<^verbatim>\<open>data\<close> (its length is the size of the block), \<open>rb_len\<close> is the field
  \<^verbatim>\<open>len\<close>. \<open>rb_ok\<close> says that \<^verbatim>\<open>len\<close> stays inside the block; a copy that read past its source
  would leave a buffer that is not \<open>rb_ok\<close>.
\<close>

record RawBuffer =
  rb_data :: "byte list option"
  rb_len :: nat

definition rb_ok :: "RawBuffer \<Rightarrow> bool" where
  "rb_ok b \<longleftrightarrow> (case rb_data b of None \<Rightarrow> rb_len b = 0 | Some d \<Rightarrow> rb_len b \<le> length d)"

text \<open>The bytes the buffer presents to a reader.\<close>

definition rb_bytes :: "RawBuffer \<Rightarrow> byte list" where
  "rb_bytes b = (case rb_data b of None \<Rightarrow> [] | Some d \<Rightarrow> take (rb_len b) d)"

definition RawBufferNew :: "byte list option \<Rightarrow> nat \<Rightarrow> mem \<Rightarrow> RawBuffer option \<times> mem" where
  "RawBufferNew data len m =
     (let (ok, m) = malloc m in
      if \<not> ok then (None, m)
      else (case data of
          Some d \<Rightarrow>
            if 0 < len then
              (let (ok, m) = malloc m in
               if \<not> ok then (None, free1 m)
               else (Some \<lparr>rb_data = Some (take len d), rb_len = len\<rparr>, m))
            else (Some \<lparr>rb_data = None, rb_len = 0\<rparr>, m)
        | None \<Rightarrow> (Some \<lparr>rb_data = None, rb_len = 0\<rparr>, m)))"

definition RawBufferInit :: "byte list option \<Rightarrow> nat \<Rightarrow> RawBuffer" where
  "RawBufferInit data len = \<lparr>rb_data = data, rb_len = len\<rparr>"

definition RawBufferFree :: "RawBuffer option \<Rightarrow> mem \<Rightarrow> mem" where
  "RawBufferFree b m = (case b of None \<Rightarrow> m | Some rb \<Rightarrow> free1 (free_opt (rb_data rb) m))"

text \<open>\<^verbatim>\<open>memcpy\<close> of \<open>src\<close> to offset \<open>off\<close> of a block; \<open>None\<close> when it would leave the block.\<close>

definition write_block :: "byte list \<Rightarrow> nat \<Rightarrow> byte list \<Rightarrow> byte list option" where
  "write_block blk off src =
     (if off + length src \<le> length blk
      then Some (take off blk @ src @ drop (off + length src) blk) else None)"

text \<open>What \<^verbatim>\<open>realloc\<close> leaves in a block of the new size: the old bytes that fit, then
  indeterminate ones (\<open>junk\<close>).\<close>

definition regrow :: "(nat \<Rightarrow> byte) \<Rightarrow> byte list \<Rightarrow> nat \<Rightarrow> byte list" where
  "regrow junk d n = map (\<lambda>i. if i < length d then d ! i else junk i) [0..<n]"

text \<open>
  \<^verbatim>\<open>RawBufferAppend\<close> as written: the length is advanced before the copy, so the copy starts at the
  end of the new block; a failed \<^verbatim>\<open>realloc\<close> is not checked. Result \<open>None\<close>: undefined behaviour.
\<close>

definition RawBufferAppend ::
  "(nat \<Rightarrow> byte) \<Rightarrow> RawBuffer option \<Rightarrow> byte list \<Rightarrow> nat \<Rightarrow> mem \<Rightarrow>
   (bool \<times> RawBuffer option \<times> mem) option" where
  "RawBufferAppend junk bf data len m =
     (case bf of
        None \<Rightarrow> Some (False, None, m)
      | Some b \<Rightarrow>
          (case rb_data b of
             None \<Rightarrow> Some (False, Some b, m)
           | Some d \<Rightarrow>
               if len = 0 then Some (False, Some b, m)
               else
                 let (ok, m) = realloc (Some d) m
                 in if \<not> ok then None
                    else
                      let blk = regrow junk d (rb_len b + len);
                          len' = rb_len b + len
                      in do {
                        src \<leftarrow> read_block data len;
                        blk' \<leftarrow> write_block blk len' src;
                        Some (True, Some \<lparr>rb_data = Some blk', rb_len = len'\<rparr>, m)
                      }))"

definition RawBufferData :: "RawBuffer option \<Rightarrow> byte list option" where
  "RawBufferData b = (case b of None \<Rightarrow> None | Some rb \<Rightarrow> rb_data rb)"

definition RawBufferLen :: "RawBuffer option \<Rightarrow> nat" where
  "RawBufferLen b = (case b of None \<Rightarrow> 0 | Some rb \<Rightarrow> rb_len rb)"

text \<open>\<^verbatim>\<open>realloc(p, 0)\<close> frees the block and gives \<^verbatim>\<open>NULL\<close>; on \<^verbatim>\<open>NULL\<close> it is \<^verbatim>\<open>malloc(0)\<close>.\<close>

definition RawBufferSetData ::
  "(nat \<Rightarrow> byte) \<Rightarrow> RawBuffer option \<Rightarrow> byte list option \<Rightarrow> nat \<Rightarrow> mem \<Rightarrow>
   bool \<times> RawBuffer option \<times> mem" where
  "RawBufferSetData junk b data len m =
     (case b of
        None \<Rightarrow> (False, None, m)
      | Some rb \<Rightarrow>
          let (new_data, m) =
                (case rb_data rb of
                   Some d \<Rightarrow>
                     if len = 0 then (None, free1 m)
                     else (let (ok, m) = realloc (Some d) m
                           in (if ok then Some (regrow junk d len) else None, m))
                 | None \<Rightarrow>
                     (let (ok, m) = malloc m
                      in (if ok then Some (regrow junk [] len) else None, m)))
          in if new_data = None \<and> 0 < len then (False, Some rb, m)
             else
               let new_data =
                     (case (data, new_data) of
                        (Some d, Some blk) \<Rightarrow>
                          if 0 < len then Some (take len d @ drop len blk) else Some blk
                      | _ \<Rightarrow> new_data)
               in (True, Some \<lparr>rb_data = new_data, rb_len = len\<rparr>, m))"

definition RawBufferClear :: "RawBuffer option \<Rightarrow> bool \<times> RawBuffer option" where
  "RawBufferClear b =
     (case b of
        None \<Rightarrow> (False, None)
      | Some rb \<Rightarrow>
          (case rb_data rb of
             None \<Rightarrow> (False, Some rb)
           | Some d \<Rightarrow>
               if rb_len rb = 0 then (False, Some rb)
               else (True, Some (rb\<lparr>rb_data :=
                       Some (replicate (rb_len rb) 0 @ drop (rb_len rb) d)\<rparr>))))"

definition RawBufferDup :: "RawBuffer \<Rightarrow> mem \<Rightarrow> RawBuffer option \<times> mem" where
  "RawBufferDup bf m =
     (let (newBuff, m) = RawBufferNew (rb_data bf) (rb_len bf) m
      in case newBuff of None \<Rightarrow> (None, m) | Some nb \<Rightarrow> (Some nb, m))"

subsection \<open>Lemmas\<close>

lemma RawBufferNew_cases:
  assumes "RawBufferNew data len m = (r, m')"
  obtains (fail) "r = None" "live m' = live m"
  | (empty) "r = Some \<lparr>rb_data = None, rb_len = 0\<rparr>" "data = None \<or> len = 0" "live m' = live m + 1"
  | (copy) d where "data = Some d" "0 < len" "r = Some \<lparr>rb_data = Some (take len d), rb_len = len\<rparr>"
      "live m' = live m + 2"
proof -
  obtain ok1 m1 where 1: "malloc m = (ok1, m1)" by fastforce
  obtain ok2 m2 where 2: "malloc m1 = (ok2, m2)" by fastforce
  show thesis
    using assms malloc_live [OF 1] malloc_live [OF 2] fail empty copy
    by (auto simp: RawBufferNew_def 1 2 split: if_splits option.splits)
qed

lemma RawBufferNew_nofail:
  assumes "nofail m"
  shows "RawBufferNew data len m =
     (if data = None \<or> len = 0 then (Some \<lparr>rb_data = None, rb_len = 0\<rparr>, mem_add 1 m)
      else (Some \<lparr>rb_data = Some (take len (the data)), rb_len = len\<rparr>, mem_add 2 m))"
  using assms by (auto simp: RawBufferNew_def malloc_nofail split: option.split)

lemma RawBufferDup_eq: "RawBufferDup bf m = RawBufferNew (rb_data bf) (rb_len bf) m"
  by (auto simp: RawBufferDup_def split: prod.splits option.splits)

text \<open>The buffer a successful copy holds: the presented bytes, and no block when there are none.\<close>

definition rb_compact :: "RawBuffer \<Rightarrow> RawBuffer" where
  "rb_compact b =
     (if rb_data b = None \<or> rb_len b = 0 then \<lparr>rb_data = None, rb_len = 0\<rparr>
      else \<lparr>rb_data = Some (take (rb_len b) (the (rb_data b))), rb_len = rb_len b\<rparr>)"

definition rb_blocks :: "RawBuffer \<Rightarrow> int" where
  "rb_blocks b = (if rb_data b = None then 1 else 2)"

lemma rb_compact_bytes [simp]: "rb_bytes (rb_compact b) = rb_bytes b"
  by (auto simp: rb_compact_def rb_bytes_def split: option.split)

lemma rb_compact_ok [simp]: "rb_ok b \<Longrightarrow> rb_ok (rb_compact b)"
  by (auto simp: rb_compact_def rb_ok_def split: option.splits)

lemma RawBufferDup_nofail [alloc_simps]:
  "nofail m \<Longrightarrow> RawBufferDup b m = (Some (rb_compact b), mem_add (rb_blocks (rb_compact b)) m)"
  by (auto simp: RawBufferDup_eq RawBufferNew_nofail rb_compact_def rb_blocks_def)

lemma RawBufferDup_cases:
  assumes "RawBufferDup b m = (r, m')"
  shows "r = None \<and> live m' = live m
       \<or> r = Some (rb_compact b) \<and> live m' = live m + rb_blocks (rb_compact b)"
  using assms unfolding RawBufferDup_eq
  by (cases rule: RawBufferNew_cases) (auto simp: rb_compact_def rb_blocks_def)

lemma RawBufferFree_live:
  "live (RawBufferFree (Some b) m) = live m - rb_blocks b"
  by (auto simp: RawBufferFree_def rb_blocks_def free_opt_live)

end
