(* ===== verification/Mpack_Common.thy ===== *)
theory Mpack_Common
  imports Haze_Prelude
begin

text \<open>
  The part of MPack (\<^verbatim>\<open>third_party/mpack/mpack-common.h\<close>) that reader and writer share: error
  codes, tags, and the big-endian stores and loads. The build uses MPack's default configuration:
  no extension types, no v4 compatibility, no tracking, and the speed-optimised code paths.
\<close>

unbundle bit_operations_syntax

subsection \<open>Errors and tags\<close>

datatype mpack_error =
    mpack_ok
  | mpack_error_io
  | mpack_error_invalid
  | mpack_error_unsupported
  | mpack_error_type
  | mpack_error_too_big
  | mpack_error_memory
  | mpack_error_bug
  | mpack_error_data
  | mpack_error_eof

datatype mpack_type =
    mpack_type_missing
  | mpack_type_nil
  | mpack_type_bool
  | mpack_type_int
  | mpack_type_uint
  | mpack_type_float
  | mpack_type_double
  | mpack_type_str
  | mpack_type_bin
  | mpack_type_array
  | mpack_type_map

text \<open>
  \<^verbatim>\<open>mpack_tag_t\<close> is a tagged union: the type and the member that goes with it are one
  constructor here, as the \<^verbatim>\<open>mpack_tag_make_\<close> functions build it and the
  \<^verbatim>\<open>mpack_tag_*_value\<close> accessors require.
\<close>

datatype mpack_tag =
    Tag_missing
  | Tag_nil
  | Tag_bool bool
  | Tag_int u64
  | Tag_uint u64
  | Tag_float u32
  | Tag_double u64
  | Tag_str u32
  | Tag_bin u32
  | Tag_array u32
  | Tag_map u32

fun mpack_tag_type :: "mpack_tag \<Rightarrow> mpack_type" where
  "mpack_tag_type Tag_missing = mpack_type_missing"
| "mpack_tag_type Tag_nil = mpack_type_nil"
| "mpack_tag_type (Tag_bool _) = mpack_type_bool"
| "mpack_tag_type (Tag_int _) = mpack_type_int"
| "mpack_tag_type (Tag_uint _) = mpack_type_uint"
| "mpack_tag_type (Tag_float _) = mpack_type_float"
| "mpack_tag_type (Tag_double _) = mpack_type_double"
| "mpack_tag_type (Tag_str _) = mpack_type_str"
| "mpack_tag_type (Tag_bin _) = mpack_type_bin"
| "mpack_tag_type (Tag_array _) = mpack_type_array"
| "mpack_tag_type (Tag_map _) = mpack_type_map"

definition mpack_str_check_no_null :: "byte list \<Rightarrow> bool" where
  "mpack_str_check_no_null str = list_all (\<lambda>b. b \<noteq> 0) str"

lemma mpack_str_check_no_null_iff: "mpack_str_check_no_null s = no_nul s"
  by (auto simp: mpack_str_check_no_null_def no_nul_def list_all_iff)

subsection \<open>Stores and loads\<close>

definition mpack_store_u8 :: "byte \<Rightarrow> byte list" where
  "mpack_store_u8 val = [val]"

definition mpack_store_u16 :: "u16 \<Rightarrow> byte list" where
  "mpack_store_u16 val = [ucast (drop_bit 8 val AND 0xFF), ucast (val AND 0xFF)]"

definition mpack_store_u32 :: "u32 \<Rightarrow> byte list" where
  "mpack_store_u32 val =
     [ucast (drop_bit 24 val AND 0xFF), ucast (drop_bit 16 val AND 0xFF),
      ucast (drop_bit 8 val AND 0xFF), ucast (val AND 0xFF)]"

definition mpack_store_u64 :: "u64 \<Rightarrow> byte list" where
  "mpack_store_u64 val =
     [ucast (drop_bit 56 val AND 0xFF), ucast (drop_bit 48 val AND 0xFF),
      ucast (drop_bit 40 val AND 0xFF), ucast (drop_bit 32 val AND 0xFF),
      ucast (drop_bit 24 val AND 0xFF), ucast (drop_bit 16 val AND 0xFF),
      ucast (drop_bit 8 val AND 0xFF), ucast (val AND 0xFF)]"

definition mpack_load_u8 :: "byte list \<Rightarrow> byte" where
  "mpack_load_u8 p = p ! 0"

definition mpack_load_u16 :: "byte list \<Rightarrow> u16" where
  "mpack_load_u16 p = push_bit 8 (ucast (p ! 0)) OR ucast (p ! 1)"

definition mpack_load_u32 :: "byte list \<Rightarrow> u32" where
  "mpack_load_u32 p =
     push_bit 24 (ucast (p ! 0)) OR push_bit 16 (ucast (p ! 1)) OR
     push_bit 8 (ucast (p ! 2)) OR ucast (p ! 3)"

definition mpack_load_u64 :: "byte list \<Rightarrow> u64" where
  "mpack_load_u64 p =
     push_bit 56 (ucast (p ! 0)) OR push_bit 48 (ucast (p ! 1)) OR
     push_bit 40 (ucast (p ! 2)) OR push_bit 32 (ucast (p ! 3)) OR
     push_bit 24 (ucast (p ! 4)) OR push_bit 16 (ucast (p ! 5)) OR
     push_bit 8 (ucast (p ! 6)) OR ucast (p ! 7)"

text \<open>The contract of a fixed-width field: what was stored is what is loaded, and nothing more
  than its width is consumed.\<close>

locale fixed_field =
  fixes width :: nat
    and store :: "'a \<Rightarrow> byte list"
    and load :: "byte list \<Rightarrow> 'a"
  assumes store_length: "length (store v) = width"
    and load_store: "load (store v @ rest) = v"
begin

lemma store_inj: "store v @ xs = store w @ ys \<longleftrightarrow> v = w \<and> xs = ys"
  by (metis append_eq_append_conv load_store store_length)

lemma load_store_exact: "load (store v) = v"
  using load_store [of v "[]"] by simp

lemma drop_store: "drop width (store v @ rest) = rest"
  by (simp add: store_length)

lemma width_le: "width \<le> length (store v @ rest)"
  by (simp add: store_length)

end

lemma and_255 [simp]: "x AND 0xFF = take_bit 8 (x :: 'a::len word)"
proof -
  have "(0xFF :: 'a word) = mask 8"
    by (simp add: mask_eq_exp_minus_1)
  then show ?thesis by (simp add: take_bit_eq_mask)
qed

lemma byte_roundtrip:
  "ucast (ucast (take_bit 8 x) :: byte) = (take_bit 8 x :: 'a::len word)"
  by (rule bit_word_eqI) (auto simp: bit_simps)

lemma join_byte:
  "push_bit n (take_bit 8 (drop_bit n v)) OR take_bit n v = take_bit (n + 8) (v :: 'a::len word)"
proof (rule bit_word_eqI)
  fix i
  assume "i < LENGTH('a)"
  then show "bit (push_bit n (take_bit 8 (drop_bit n v)) OR take_bit n v) i = bit (take_bit (n + 8) v) i"
    by (cases "i < n") (auto simp: bit_simps)
qed

lemmas join_bytes =
  join_byte [of 8, simplified] join_byte [of 16, simplified] join_byte [of 24, simplified]
  join_byte [of 32, simplified] join_byte [of 40, simplified] join_byte [of 48, simplified]
  join_byte [of 56, simplified]

lemma take_bit_full: "take_bit LENGTH('a) v = (v :: 'a::len word)"
  by (rule bit_word_eqI) (auto simp: bit_simps)

lemma load_store_u16: "mpack_load_u16 (mpack_store_u16 v @ rest) = v"
  using take_bit_full [of v]
  by (simp add: mpack_load_u16_def mpack_store_u16_def byte_roundtrip join_bytes)

lemma load_store_u32: "mpack_load_u32 (mpack_store_u32 v @ rest) = v"
  using take_bit_full [of v]
  by (simp add: mpack_load_u32_def mpack_store_u32_def byte_roundtrip join_bytes)

lemma load_store_u64: "mpack_load_u64 (mpack_store_u64 v @ rest) = v"
  using take_bit_full [of v]
  by (simp add: mpack_load_u64_def mpack_store_u64_def byte_roundtrip join_bytes)

interpretation u8_field: fixed_field 1 mpack_store_u8 mpack_load_u8
  by unfold_locales (simp_all add: mpack_store_u8_def mpack_load_u8_def)

interpretation u16_field: fixed_field 2 mpack_store_u16 mpack_load_u16
  by unfold_locales (simp add: mpack_store_u16_def, rule load_store_u16)

interpretation u32_field: fixed_field 4 mpack_store_u32 mpack_load_u32
  by unfold_locales (simp add: mpack_store_u32_def, rule load_store_u32)

interpretation u64_field: fixed_field 8 mpack_store_u64 mpack_load_u64
  by unfold_locales (simp add: mpack_store_u64_def, rule load_store_u64)

lemmas store_lengths [simp] =
  u8_field.store_length u16_field.store_length u32_field.store_length u64_field.store_length

lemmas load_stores [simp] =
  u8_field.load_store u16_field.load_store u32_field.load_store u64_field.load_store

end
