(* ===== verification/MsgPack_Spec.thy ===== *)
theory MsgPack_Spec
  imports Mpack_Common
begin

text \<open>
  The MessagePack wire format as an abstract specification: the values Haze exchanges and their
  shortest encoding. It is what the writer is proved to emit and the reader to accept; it models
  no code of the repository.
\<close>

unbundle bit_operations_syntax

datatype mval =
    MNil
  | MBool bool
  | MInt int
  | MFloat u32
  | MDouble u64
  | MStr "byte list"
  | MBin "byte list"
  | MArr "mval list"

definition enc_int :: "int \<Rightarrow> byte list" where
  "enc_int i =
     (if 0 \<le> i then
        if i \<le> 127 then [of_int i]
        else if i \<le> 255 then 0xcc # mpack_store_u8 (of_int i)
        else if i \<le> 65535 then 0xcd # mpack_store_u16 (of_int i)
        else if i \<le> 4294967295 then 0xce # mpack_store_u32 (of_int i)
        else 0xcf # mpack_store_u64 (of_int i)
      else
        if - 32 \<le> i then [of_int i]
        else if - 128 \<le> i then 0xd0 # mpack_store_u8 (of_int i)
        else if - 32768 \<le> i then 0xd1 # mpack_store_u16 (of_int i)
        else if - 2147483648 \<le> i then 0xd2 # mpack_store_u32 (of_int i)
        else 0xd3 # mpack_store_u64 (of_int i))"

definition enc_str_head :: "nat \<Rightarrow> byte list" where
  "enc_str_head n =
     (if n \<le> 31 then [0xa0 OR of_nat n]
      else if n \<le> 255 then 0xd9 # mpack_store_u8 (of_nat n)
      else if n \<le> 65535 then 0xda # mpack_store_u16 (of_nat n)
      else 0xdb # mpack_store_u32 (of_nat n))"

definition enc_bin_head :: "nat \<Rightarrow> byte list" where
  "enc_bin_head n =
     (if n \<le> 255 then 0xc4 # mpack_store_u8 (of_nat n)
      else if n \<le> 65535 then 0xc5 # mpack_store_u16 (of_nat n)
      else 0xc6 # mpack_store_u32 (of_nat n))"

definition enc_arr_head :: "nat \<Rightarrow> byte list" where
  "enc_arr_head n =
     (if n \<le> 15 then [0x90 OR of_nat n]
      else if n \<le> 65535 then 0xdc # mpack_store_u16 (of_nat n)
      else 0xdd # mpack_store_u32 (of_nat n))"

definition enc_map_head :: "nat \<Rightarrow> byte list" where
  "enc_map_head n =
     (if n \<le> 15 then [0x80 OR of_nat n]
      else if n \<le> 65535 then 0xde # mpack_store_u16 (of_nat n)
      else 0xdf # mpack_store_u32 (of_nat n))"

fun enc :: "mval \<Rightarrow> byte list" where
  "enc MNil = [0xc0]"
| "enc (MBool b) = [if b then 0xc3 else 0xc2]"
| "enc (MInt i) = enc_int i"
| "enc (MFloat f) = 0xca # mpack_store_u32 f"
| "enc (MDouble d) = 0xcb # mpack_store_u64 d"
| "enc (MStr s) = enc_str_head (length s) @ s"
| "enc (MBin b) = enc_bin_head (length b) @ b"
| "enc (MArr vs) = enc_arr_head (length vs) @ concat (map enc vs)"

definition enc_list :: "mval list \<Rightarrow> byte list" where
  "enc_list vs = concat (map enc vs)"

lemma enc_list_simps [simp]:
  "enc_list [] = []"
  "enc_list (v # vs) = enc v @ enc_list vs"
  "enc_list (us @ vs) = enc_list us @ enc_list vs"
  by (simp_all add: enc_list_def)

lemma enc_MArr: "enc (MArr vs) = enc_arr_head (length vs) @ enc_list vs"
  by (simp add: enc_list_def)

text \<open>The values the format can represent: 64-bit integers and 32-bit lengths.\<close>

fun mval_ok :: "mval \<Rightarrow> bool" where
  "mval_ok (MInt i) = (- (2 ^ 63) \<le> i \<and> i < 2 ^ 64)"
| "mval_ok (MStr s) = (length s < 2 ^ 32)"
| "mval_ok (MBin b) = (length b < 2 ^ 32)"
| "mval_ok (MArr vs) = (length vs < 2 ^ 32 \<and> list_all mval_ok vs)"
| "mval_ok _ = True"

text \<open>
  What is left of a value after Haze has read it: a C string ends at its first NUL, and a binary
  without bytes has no block and counts as nil.
\<close>

fun mval_recv :: "mval \<Rightarrow> mval" where
  "mval_recv (MStr s) = MStr (until_nul s)"
| "mval_recv (MBin b) = (if b = [] then MNil else MBin b)"
| "mval_recv (MArr vs) = MArr (map mval_recv vs)"
| "mval_recv v = v"

text \<open>The values that survive unchanged.\<close>

fun mval_exact :: "mval \<Rightarrow> bool" where
  "mval_exact (MStr s) = no_nul s"
| "mval_exact (MBin b) = (b \<noteq> [])"
| "mval_exact (MArr vs) = list_all mval_exact vs"
| "mval_exact _ = True"

lemma mval_recv_exact: "mval_exact v \<Longrightarrow> mval_recv v = v"
  by (induction v rule: mval_recv.induct) (auto simp: list_all_iff intro: map_idI)

text \<open>Strings whose length plus a terminator still fits in 32 bits.\<close>

fun mval_short :: "mval \<Rightarrow> bool" where
  "mval_short (MStr s) = (length s + 1 < 2 ^ 32)"
| "mval_short (MArr vs) = list_all mval_short vs"
| "mval_short _ = True"

lemma enc_int_nonempty [simp]: "enc_int i \<noteq> []"
  by (simp add: enc_int_def)

lemma enc_heads_nonempty [simp]:
  "enc_str_head n \<noteq> []" "enc_bin_head n \<noteq> []" "enc_arr_head n \<noteq> []" "enc_map_head n \<noteq> []"
  by (simp_all add: enc_str_head_def enc_bin_head_def enc_arr_head_def enc_map_head_def)

lemma enc_nonempty [simp]: "enc v \<noteq> []"
  by (cases v) simp_all

text \<open>An element is shorter than its array: what bounds the nesting of a decoder.\<close>

lemma enc_in_list: "v \<in> set vs \<Longrightarrow> length (enc v) \<le> length (enc_list vs)"
  by (induction vs) auto

lemma enc_element_shorter: "v \<in> set vs \<Longrightarrow> length (enc v) < length (enc (MArr vs))"
  using enc_in_list [of v vs] enc_heads_nonempty(3) [of "length vs"]
  by (cases "enc_arr_head (length vs)") (auto simp: enc_MArr simp del: enc.simps)

end
