(* ===== verification/Haze_Object.thy ===== *)
theory Haze_Object
  imports Haze_RawBuffer MsgPack_Spec
begin

text \<open>
  \<^verbatim>\<open>source/msgpack/Object.c\<close>: the dynamically typed values Haze passes around, their arrays and
  map tables. A \<^verbatim>\<open>struct\<close> owned through a pointer is its value; freeing it is what \<open>mem\<close> counts.
  The tag \<^verbatim>\<open>type\<close> and the union \<^verbatim>\<open>value\<close> are one constructor.
\<close>

unbundle bit_operations_syntax

subsection \<open>Objects\<close>

datatype ObjectType =
    OBJ_UND | OBJ_NIL | OBJ_BOOL | OBJ_INT | OBJ_UINT | OBJ_FLOAT | OBJ_DOUBLE
  | OBJ_STR | OBJ_BIN | OBJ_ARRAY | OBJ_MAP

text \<open>
  \<open>arr_objects\<close> holds the \<^verbatim>\<open>len\<close> live slots of \<^verbatim>\<open>objects\<close>, each a pointer that may be \<^verbatim>\<open>NULL\<close>.
  The pairs of a table are never \<^verbatim>\<open>NULL\<close>: only \<^verbatim>\<open>ObjectMapTableSet\<close> stores them, after a check.
  An \<^verbatim>\<open>OBJ_MAP\<close> holds a table, a single pair, or \<^verbatim>\<open>NULL\<close>.
\<close>

datatype ObjectValue =
    V_UND
  | V_NIL
  | V_BOOL bool
  | V_INT u64
  | V_UINT u64
  | V_FLOAT u32
  | V_DOUBLE u64
  | V_STR "byte list option"
  | V_BIN "RawBuffer option"
  | V_ARRAY "ObjectArray option"
  | V_MAP_null
  | V_MAP_table ObjectMapTable
  | V_MAP_pair ObjectMap
and Object = Object (obj_value: ObjectValue) (obj_size: nat)
and ObjectArray = ObjectArray (arr_objects: "Object option list") (arr_capacity: nat)
and ObjectMap = ObjectMap (map_Key: "Object option") (map_Value: "Object option")
and ObjectMapTable = ObjectMapTable (tbl_pairs: "ObjectMap list") (tbl_capacity: nat)

fun value_type :: "ObjectValue \<Rightarrow> ObjectType" where
  "value_type V_UND = OBJ_UND"
| "value_type V_NIL = OBJ_NIL"
| "value_type (V_BOOL _) = OBJ_BOOL"
| "value_type (V_INT _) = OBJ_INT"
| "value_type (V_UINT _) = OBJ_UINT"
| "value_type (V_FLOAT _) = OBJ_FLOAT"
| "value_type (V_DOUBLE _) = OBJ_DOUBLE"
| "value_type (V_STR _) = OBJ_STR"
| "value_type (V_BIN _) = OBJ_BIN"
| "value_type (V_ARRAY _) = OBJ_ARRAY"
| "value_type V_MAP_null = OBJ_MAP"
| "value_type (V_MAP_table _) = OBJ_MAP"
| "value_type (V_MAP_pair _) = OBJ_MAP"

definition ObjectNew :: "mem \<Rightarrow> Object option \<times> mem" where
  "ObjectNew m = (let (ok, m) = malloc m in (if ok then Some (Object V_UND 0) else None, m))"

text \<open>\<^verbatim>\<open>ObjectFree\<close> and \<^verbatim>\<open>ObjectArrayFree\<close>. Of a binary only the \<^verbatim>\<open>RawBuffer\<close> struct is released,
  of a map nothing.\<close>

fun ObjectFree :: "Object option \<Rightarrow> mem \<Rightarrow> mem"
and ObjectArrayFree :: "ObjectArray option \<Rightarrow> mem \<Rightarrow> mem"
and ObjectArrayFree_loop :: "Object option list \<Rightarrow> mem \<Rightarrow> mem" where
  "ObjectFree None m = m"
| "ObjectFree (Some (Object v sz)) m =
     free1 (case v of
        V_STR s \<Rightarrow> free_opt s m
      | V_BIN b \<Rightarrow> free_opt b m
      | V_ARRAY a \<Rightarrow> ObjectArrayFree a m
      | _ \<Rightarrow> m)"
| "ObjectArrayFree None m = m"
| "ObjectArrayFree (Some (ObjectArray objs cap)) m = free1 (free1 (ObjectArrayFree_loop objs m))"
| "ObjectArrayFree_loop [] m = m"
| "ObjectArrayFree_loop (x # xs) m = ObjectArrayFree_loop xs (ObjectFree x m)"

definition OBJECT_ARRAY_INITIAL_CAPACITY :: nat where
  "OBJECT_ARRAY_INITIAL_CAPACITY = 8"

definition ObjectArrayCreate :: "mem \<Rightarrow> ObjectArray option \<times> mem" where
  "ObjectArrayCreate m =
     (let (ok, m) = malloc m in
      if \<not> ok then (None, m)
      else
        let (ok, m) = malloc m in
        if \<not> ok then (None, free1 m)
        else (Some (ObjectArray [] OBJECT_ARRAY_INITIAL_CAPACITY), m))"

text \<open>
  \<^verbatim>\<open>ObjectCopy\<close>, \<^verbatim>\<open>ObjectArrayCopy\<close> (with its loop over the source slots) and \<^verbatim>\<open>ObjectArrayAppend\<close>
  call one another. \<open>array_reserve\<close> is the growth step at the head of the append. An append that
  fails to copy keeps the grown capacity.
\<close>

definition array_reserve :: "ObjectArray \<Rightarrow> mem \<Rightarrow> bool \<times> ObjectArray \<times> mem" where
  "array_reserve a m =
     (if arr_capacity a \<le> length (arr_objects a) then
        let (ok, m) = realloc (Some ()) m
        in if \<not> ok then (False, a, m)
           else (True, ObjectArray (arr_objects a) (arr_capacity a * 2), m)
      else (True, a, m))"

fun ObjectCopy :: "Object option \<Rightarrow> mem \<Rightarrow> Object option \<times> mem"
and ObjectArrayCopy :: "ObjectArray option \<Rightarrow> mem \<Rightarrow> ObjectArray option \<times> mem"
and ObjectArrayCopy_loop ::
  "Object option list \<Rightarrow> ObjectArray option \<Rightarrow> mem \<Rightarrow> ObjectArray option \<times> mem"
and ObjectArrayAppend ::
  "ObjectArray option \<Rightarrow> Object option \<Rightarrow> mem \<Rightarrow> bool \<times> ObjectArray option \<times> mem" where
  "ObjectCopy None m = (None, m)"
| "ObjectCopy (Some (Object v sz)) m =
     (let (copy, m) = ObjectNew m in
      if copy = None then (None, m)
      else (case v of
          V_STR (Some s) \<Rightarrow>
            (let (s', m) = strdup s m in
             if s' = None then (None, free1 m) else (Some (Object (V_STR s') sz), m))
        | V_BIN (Some b) \<Rightarrow>
            (let (b', m) = RawBufferDup b m in
             if b' = None then (None, free1 m) else (Some (Object (V_BIN b') sz), m))
        | V_ARRAY (Some a) \<Rightarrow>
            (let (a', m) = ObjectArrayCopy (Some a) m in
             if a' = None then (None, free1 m) else (Some (Object (V_ARRAY a') sz), m))
        | V_MAP_table _ \<Rightarrow> (Some (Object V_MAP_null sz), m)
        | V_MAP_pair _ \<Rightarrow> (Some (Object V_MAP_null sz), m)
        | _ \<Rightarrow> (Some (Object v sz), m)))"
| "ObjectArrayCopy None m = (None, m)"
| "ObjectArrayCopy (Some (ObjectArray objs cap)) m =
     (let (dst, m) = ObjectArrayCreate m in
      if dst = None then (None, m) else ObjectArrayCopy_loop objs dst m)"
| "ObjectArrayCopy_loop [] dst m = (dst, m)"
| "ObjectArrayCopy_loop (x # xs) dst m =
     (let (ok, dst, m) = ObjectArrayAppend dst x m in
      if \<not> ok then (None, ObjectArrayFree dst m) else ObjectArrayCopy_loop xs dst m)"
| "ObjectArrayAppend None obj m = (False, None, m)"
| "ObjectArrayAppend (Some a) None m = (False, Some a, m)"
| "ObjectArrayAppend (Some a) (Some obj) m =
     (let (ok, a, m) = array_reserve a m in
      if \<not> ok then (False, Some a, m)
      else
        let (copy, m) = ObjectCopy (Some obj) m in
        if copy = None then (False, Some a, m)
        else (True, Some (ObjectArray (arr_objects a @ [copy]) (arr_capacity a)), m))"

subsection \<open>Constructors and accessors\<close>

definition ObjectCreateStr :: "byte list option \<Rightarrow> mem \<Rightarrow> Object option \<times> mem" where
  "ObjectCreateStr str m =
     (let (obj, m) = ObjectNew m in
      if obj = None then (None, m)
      else
        let s = (case str of Some s \<Rightarrow> s | None \<Rightarrow> cstr ''NULL'');
            (copy, m) = strdup s m
        in case copy of
             None \<Rightarrow> (None, free1 m)
           | Some c \<Rightarrow> (Some (Object (V_STR (Some c)) (length c)), m))"

text \<open>The other constructors allocate the struct and fill it in.\<close>

definition create_with :: "Object \<Rightarrow> mem \<Rightarrow> Object option \<times> mem" where
  "create_with o1 m = (let (obj, m) = ObjectNew m in (if obj = None then None else Some o1, m))"

definition ObjectCreateBool :: "bool \<Rightarrow> mem \<Rightarrow> Object option \<times> mem" where
  "ObjectCreateBool v = create_with (Object (V_BOOL v) 1)"

definition ObjectCreateNil :: "mem \<Rightarrow> Object option \<times> mem" where
  "ObjectCreateNil = create_with (Object V_NIL 0)"

definition ObjectCreateInt :: "u64 \<Rightarrow> mem \<Rightarrow> Object option \<times> mem" where
  "ObjectCreateInt v = create_with (Object (V_INT v) 8)"

definition ObjectCreateUInt :: "u64 \<Rightarrow> mem \<Rightarrow> Object option \<times> mem" where
  "ObjectCreateUInt v = create_with (Object (V_UINT v) 8)"

definition ObjectCreateFloat :: "u32 \<Rightarrow> mem \<Rightarrow> Object option \<times> mem" where
  "ObjectCreateFloat v = create_with (Object (V_FLOAT v) 4)"

definition ObjectCreateDouble :: "u64 \<Rightarrow> mem \<Rightarrow> Object option \<times> mem" where
  "ObjectCreateDouble v = create_with (Object (V_DOUBLE v) 8)"

definition ObjectGetType :: "Object option \<Rightarrow> ObjectType" where
  "ObjectGetType t = (case t of None \<Rightarrow> OBJ_UND | Some ob \<Rightarrow> value_type (obj_value ob))"

text \<open>A zeroed union stands for the value of \<^verbatim>\<open>NULL\<close>.\<close>

definition ObjectGetValue :: "Object option \<Rightarrow> ObjectValue" where
  "ObjectGetValue t = (case t of None \<Rightarrow> V_UND | Some ob \<Rightarrow> obj_value ob)"

definition ObjectGetSize :: "Object option \<Rightarrow> nat" where
  "ObjectGetSize t = (case t of None \<Rightarrow> 0 | Some ob \<Rightarrow> obj_size ob)"

definition ObjectExpect :: "Object option \<Rightarrow> ObjectType \<Rightarrow> bool" where
  "ObjectExpect t ty = (case t of None \<Rightarrow> False | Some ob \<Rightarrow> value_type (obj_value ob) = ty)"

text \<open>
  The getters read one member of the union through a pointer that must not be \<^verbatim>\<open>NULL\<close>. \<open>None\<close>
  stands for a member that is not the active one; the two 64-bit integers share their bits.
\<close>

definition ObjectGetStr :: "Object \<Rightarrow> byte list option option" where
  "ObjectGetStr t = (case obj_value t of V_STR s \<Rightarrow> Some s | _ \<Rightarrow> None)"

definition ObjectGetBool :: "Object \<Rightarrow> bool option" where
  "ObjectGetBool t = (case obj_value t of V_BOOL b \<Rightarrow> Some b | _ \<Rightarrow> None)"

definition ObjectGetInt :: "Object \<Rightarrow> u64 option" where
  "ObjectGetInt t = (case obj_value t of V_INT i \<Rightarrow> Some i | V_UINT i \<Rightarrow> Some i | _ \<Rightarrow> None)"

definition ObjectGetUInt :: "Object \<Rightarrow> u64 option" where
  "ObjectGetUInt t = (case obj_value t of V_INT i \<Rightarrow> Some i | V_UINT i \<Rightarrow> Some i | _ \<Rightarrow> None)"

definition ObjectGetFloat :: "Object \<Rightarrow> u32 option" where
  "ObjectGetFloat t = (case obj_value t of V_FLOAT f \<Rightarrow> Some f | _ \<Rightarrow> None)"

definition ObjectGetDouble :: "Object \<Rightarrow> u64 option" where
  "ObjectGetDouble t = (case obj_value t of V_DOUBLE d \<Rightarrow> Some d | _ \<Rightarrow> None)"

definition ObjectGetBin :: "Object \<Rightarrow> RawBuffer option option" where
  "ObjectGetBin t = (case obj_value t of V_BIN b \<Rightarrow> Some b | _ \<Rightarrow> None)"

definition ObjectGetArray :: "Object \<Rightarrow> ObjectArray option option" where
  "ObjectGetArray t = (case obj_value t of V_ARRAY a \<Rightarrow> Some a | _ \<Rightarrow> None)"

definition ObjectGetMapTable :: "Object \<Rightarrow> ObjectMapTable option option" where
  "ObjectGetMapTable t =
     (case obj_value t of V_MAP_null \<Rightarrow> Some None | V_MAP_table tb \<Rightarrow> Some (Some tb) | _ \<Rightarrow> None)"

definition ObjectGetMap :: "Object \<Rightarrow> ObjectMap option option" where
  "ObjectGetMap t = (case obj_value t of V_MAP_null \<Rightarrow> Some None | V_MAP_pair p \<Rightarrow> Some (Some p) | _ \<Rightarrow> None)"

subsection \<open>Arrays\<close>

definition ObjectArrayLen :: "ObjectArray option \<Rightarrow> nat" where
  "ObjectArrayLen a = (case a of None \<Rightarrow> 0 | Some arr \<Rightarrow> length (arr_objects arr))"

definition ObjectArrayGet :: "ObjectArray option \<Rightarrow> nat \<Rightarrow> Object option" where
  "ObjectArrayGet a index =
     (case a of
        None \<Rightarrow> None
      | Some arr \<Rightarrow> if length (arr_objects arr) \<le> index then None else arr_objects arr ! index)"

definition ObjectArrayRemove ::
  "ObjectArray option \<Rightarrow> nat \<Rightarrow> mem \<Rightarrow> bool \<times> ObjectArray option \<times> mem" where
  "ObjectArrayRemove a index m =
     (case a of
        None \<Rightarrow> (False, None, m)
      | Some arr \<Rightarrow>
          if length (arr_objects arr) \<le> index then (False, Some arr, m)
          else
            let m = ObjectFree (arr_objects arr ! index) m;
                objs = shift_left index (arr_objects arr)
            in (True, Some (ObjectArray (take (length objs - 1) objs) (arr_capacity arr)), m))"

subsection \<open>Maps\<close>

definition ObjectMapCreate :: "Object option \<Rightarrow> Object option \<Rightarrow> mem \<Rightarrow> ObjectMap option \<times> mem" where
  "ObjectMapCreate key val m =
     (if key = None \<or> val = None then (None, m)
      else
        let (ok, m) = malloc m in
        if \<not> ok then (None, m)
        else
          let (k, m) = ObjectCopy key m;
              (v, m) = ObjectCopy val m
          in if k = None \<or> v = None then (None, free1 (ObjectFree v (ObjectFree k m)))
             else (Some (ObjectMap k v), m))"

definition ObjectMapFree :: "ObjectMap option \<Rightarrow> mem \<Rightarrow> mem" where
  "ObjectMapFree p m =
     (case p of None \<Rightarrow> m | Some (ObjectMap k v) \<Rightarrow> free1 (ObjectFree v (ObjectFree k m)))"

definition ObjectMapCopy :: "ObjectMap option \<Rightarrow> mem \<Rightarrow> ObjectMap option \<times> mem" where
  "ObjectMapCopy src m =
     (case src of None \<Rightarrow> (None, m) | Some p \<Rightarrow> ObjectMapCreate (map_Key p) (map_Value p) m)"

text \<open>IEEE equality on bit patterns: NaN equals nothing, the two zeros are equal.\<close>

definition float_eq :: "u32 \<Rightarrow> u32 \<Rightarrow> bool" where
  "float_eq a b \<longleftrightarrow>
     (let nan = \<lambda>x. 0x7F800000 < x AND 0x7FFFFFFF; zero = \<lambda>x. x AND 0x7FFFFFFF = 0
      in \<not> nan a \<and> \<not> nan b \<and> (a = b \<or> zero a \<and> zero b))"

definition double_eq :: "u64 \<Rightarrow> u64 \<Rightarrow> bool" where
  "double_eq a b \<longleftrightarrow>
     (let nan = \<lambda>x. 0x7FF0000000000000 < x AND 0x7FFFFFFFFFFFFFFF;
          zero = \<lambda>x. x AND 0x7FFFFFFFFFFFFFFF = 0
      in \<not> nan a \<and> \<not> nan b \<and> (a = b \<or> zero a \<and> zero b))"

text \<open>C strings compare up to their terminator.\<close>

definition value_equals :: "ObjectValue \<Rightarrow> ObjectValue \<Rightarrow> bool" where
  "value_equals a b =
     (case a of
        V_BOOL x \<Rightarrow> (case b of V_BOOL y \<Rightarrow> x = y | _ \<Rightarrow> False)
      | V_INT x \<Rightarrow> (case b of V_INT y \<Rightarrow> x = y | _ \<Rightarrow> False)
      | V_UINT x \<Rightarrow> (case b of V_UINT y \<Rightarrow> x = y | _ \<Rightarrow> False)
      | V_FLOAT x \<Rightarrow> (case b of V_FLOAT y \<Rightarrow> float_eq x y | _ \<Rightarrow> False)
      | V_DOUBLE x \<Rightarrow> (case b of V_DOUBLE y \<Rightarrow> double_eq x y | _ \<Rightarrow> False)
      | V_STR x \<Rightarrow> (case b of V_STR y \<Rightarrow> map_option until_nul x = map_option until_nul y | _ \<Rightarrow> False)
      | _ \<Rightarrow> False)"

definition ObjectEquals :: "Object option \<Rightarrow> Object option \<Rightarrow> bool" where
  "ObjectEquals a b =
     (case (a, b) of
        (Some x, Some y) \<Rightarrow> value_equals (obj_value x) (obj_value y)
      | _ \<Rightarrow> False)"

definition OBJECT_MAP_INITIAL_CAPACITY :: nat where
  "OBJECT_MAP_INITIAL_CAPACITY = 8"

definition ObjectMapTableCreate :: "mem \<Rightarrow> ObjectMapTable option \<times> mem" where
  "ObjectMapTableCreate m =
     (let (ok, m) = malloc m in
      if \<not> ok then (None, m)
      else
        let (ok, m) = malloc m in
        if \<not> ok then (None, free1 m)
        else (Some (ObjectMapTable [] OBJECT_MAP_INITIAL_CAPACITY), m))"

fun ObjectMapTableFree_loop :: "ObjectMap list \<Rightarrow> mem \<Rightarrow> mem" where
  "ObjectMapTableFree_loop [] m = m"
| "ObjectMapTableFree_loop (p # ps) m = ObjectMapTableFree_loop ps (ObjectMapFree (Some p) m)"

definition ObjectMapTableFree :: "ObjectMapTable option \<Rightarrow> mem \<Rightarrow> mem" where
  "ObjectMapTableFree t m =
     (case t of
        None \<Rightarrow> m
      | Some tbl \<Rightarrow> free1 (free1 (ObjectMapTableFree_loop (tbl_pairs tbl) m)))"

text \<open>The search loop the table operations share: the first pair with an equal key.\<close>

fun table_find :: "ObjectMap list \<Rightarrow> Object option \<Rightarrow> nat option" where
  "table_find [] key = None"
| "table_find (p # ps) key =
     (if ObjectEquals (map_Key p) key then Some 0 else map_option Suc (table_find ps key))"

definition ObjectMapTableSet ::
  "ObjectMapTable option \<Rightarrow> Object option \<Rightarrow> Object option \<Rightarrow> mem \<Rightarrow>
   bool \<times> ObjectMapTable option \<times> mem" where
  "ObjectMapTableSet table key val m =
     (case table of
        None \<Rightarrow> (False, None, m)
      | Some tbl \<Rightarrow>
          if key = None \<or> val = None then (False, Some tbl, m)
          else (case table_find (tbl_pairs tbl) key of
              Some i \<Rightarrow>
                (let (new_value, m) = ObjectCopy val m in
                 if new_value = None then (False, Some tbl, m)
                 else
                   let p = tbl_pairs tbl ! i;
                       m = ObjectFree (map_Value p) m
                   in (True, Some (ObjectMapTable
                         ((tbl_pairs tbl)[i := ObjectMap (map_Key p) new_value])
                         (tbl_capacity tbl)), m))
            | None \<Rightarrow>
                (let (ok, tbl, m) =
                       (if tbl_capacity tbl \<le> length (tbl_pairs tbl) then
                          let (ok, m) = realloc (Some ()) m
                          in if \<not> ok then (False, tbl, m)
                             else (True, ObjectMapTable (tbl_pairs tbl) (tbl_capacity tbl * 2), m)
                        else (True, tbl, m))
                 in if \<not> ok then (False, Some tbl, m)
                    else
                      let (pair, m) = ObjectMapCreate key val m
                      in case pair of
                           None \<Rightarrow> (False, Some tbl, m)
                         | Some p \<Rightarrow>
                             (True, Some (ObjectMapTable (tbl_pairs tbl @ [p]) (tbl_capacity tbl)),
                              m))))"

definition ObjectMapTableGet :: "ObjectMapTable option \<Rightarrow> Object option \<Rightarrow> Object option" where
  "ObjectMapTableGet table key =
     (case table of
        None \<Rightarrow> None
      | Some tbl \<Rightarrow>
          if key = None then None
          else (case table_find (tbl_pairs tbl) key of
                  None \<Rightarrow> None
                | Some i \<Rightarrow> map_Value (tbl_pairs tbl ! i)))"

definition ObjectMapTableRemove ::
  "ObjectMapTable option \<Rightarrow> Object option \<Rightarrow> mem \<Rightarrow> bool \<times> ObjectMapTable option \<times> mem" where
  "ObjectMapTableRemove table key m =
     (case table of
        None \<Rightarrow> (False, None, m)
      | Some tbl \<Rightarrow>
          if key = None then (False, Some tbl, m)
          else (case table_find (tbl_pairs tbl) key of
              None \<Rightarrow> (False, Some tbl, m)
            | Some i \<Rightarrow>
                (let m = ObjectMapFree (Some (tbl_pairs tbl ! i)) m;
                     ps = shift_left i (tbl_pairs tbl)
                 in (True, Some (ObjectMapTable (take (length ps - 1) ps) (tbl_capacity tbl)), m))))"

definition ObjectMapTableLen :: "ObjectMapTable option \<Rightarrow> nat" where
  "ObjectMapTableLen table = (case table of None \<Rightarrow> 0 | Some tbl \<Rightarrow> length (tbl_pairs tbl))"

fun ObjectMapTableCopy_loop ::
  "ObjectMap list \<Rightarrow> ObjectMapTable option \<Rightarrow> mem \<Rightarrow> ObjectMapTable option \<times> mem" where
  "ObjectMapTableCopy_loop [] dst m = (dst, m)"
| "ObjectMapTableCopy_loop (p # ps) dst m =
     (let (ok, dst, m) = ObjectMapTableSet dst (map_Key p) (map_Value p) m in
      if \<not> ok then (None, ObjectMapTableFree dst m) else ObjectMapTableCopy_loop ps dst m)"

definition ObjectMapTableCopy :: "ObjectMapTable option \<Rightarrow> mem \<Rightarrow> ObjectMapTable option \<times> mem" where
  "ObjectMapTableCopy src m =
     (case src of
        None \<Rightarrow> (None, m)
      | Some tbl \<Rightarrow>
          let (dst, m) = ObjectMapTableCreate m
          in if dst = None then (None, m) else ObjectMapTableCopy_loop (tbl_pairs tbl) dst m)"

definition ObjectMapTableToObject :: "ObjectMapTable option \<Rightarrow> mem \<Rightarrow> Object option \<times> mem" where
  "ObjectMapTableToObject table m =
     (case table of
        None \<Rightarrow> (None, m)
      | Some tbl \<Rightarrow>
          let (ok, m) = malloc m in
          if \<not> ok then (None, m)
          else
            let (copy, m) = ObjectMapTableCopy (Some tbl) m;
                v = (case copy of None \<Rightarrow> V_MAP_null | Some c \<Rightarrow> V_MAP_table c)
            in (Some (Object v (length (tbl_pairs tbl))), m))"

definition ObjectMapToObject :: "ObjectMap option \<Rightarrow> mem \<Rightarrow> Object option \<times> mem" where
  "ObjectMapToObject src m =
     (case src of
        None \<Rightarrow> (None, m)
      | Some p \<Rightarrow>
          if map_Key p = None \<or> map_Value p = None then (None, m)
          else
            let (ok, m) = malloc m in
            if \<not> ok then (None, m)
            else
              let (copy, m) = ObjectMapCopy (Some p) m
              in case copy of
                   None \<Rightarrow> (None, free1 m)
                 | Some c \<Rightarrow> (Some (Object (V_MAP_pair c) 1), m))"

end
