(* ===== verification/Haze_Object_Laws.thy ===== *)
theory Haze_Object_Laws
  imports Haze_Object
begin

text \<open>
  The laws of \<^verbatim>\<open>source/msgpack/Object.c\<close>: well-formed objects, what a copy is, the heap blocks an
  object holds and the ones its release gives back, the array and the keyed table as interfaces.
\<close>

subsection \<open>Blocks held and blocks released\<close>

fun obj_blocks :: "Object option \<Rightarrow> int"
and arr_blocks :: "ObjectArray option \<Rightarrow> int"
and pair_blocks :: "ObjectMap \<Rightarrow> int" where
  "obj_blocks None = 0"
| "obj_blocks (Some (Object v sz)) =
     1 + (case v of
        V_STR s \<Rightarrow> of_bool (s \<noteq> None)
      | V_BIN b \<Rightarrow> (case b of None \<Rightarrow> 0 | Some rb \<Rightarrow> rb_blocks rb)
      | V_ARRAY a \<Rightarrow> arr_blocks a
      | V_MAP_table t \<Rightarrow> (case t of ObjectMapTable ps cap \<Rightarrow> 2 + sum_list (map pair_blocks ps))
      | V_MAP_pair p \<Rightarrow> pair_blocks p
      | _ \<Rightarrow> 0)"
| "arr_blocks None = 0"
| "arr_blocks (Some (ObjectArray objs cap)) = 2 + sum_list (map obj_blocks objs)"
| "pair_blocks (ObjectMap k v) = 1 + obj_blocks k + obj_blocks v"

fun obj_freed :: "Object option \<Rightarrow> int"
and arr_freed :: "ObjectArray option \<Rightarrow> int" where
  "obj_freed None = 0"
| "obj_freed (Some (Object v sz)) =
     1 + (case v of
        V_STR s \<Rightarrow> of_bool (s \<noteq> None)
      | V_BIN b \<Rightarrow> of_bool (b \<noteq> None)
      | V_ARRAY a \<Rightarrow> arr_freed a
      | _ \<Rightarrow> 0)"
| "arr_freed None = 0"
| "arr_freed (Some (ObjectArray objs cap)) = 2 + sum_list (map obj_freed objs)"

text \<open>Objects of which \<^verbatim>\<open>ObjectFree\<close> releases every block: no binary contents, no map contents.\<close>

fun obj_plain :: "Object option \<Rightarrow> bool"
and arr_plain :: "ObjectArray option \<Rightarrow> bool" where
  "obj_plain None = True"
| "obj_plain (Some (Object v sz)) =
     (case v of
        V_BIN b \<Rightarrow> (case b of None \<Rightarrow> True | Some rb \<Rightarrow> rb_data rb = None)
      | V_ARRAY a \<Rightarrow> arr_plain a
      | V_MAP_table t \<Rightarrow> False
      | V_MAP_pair p \<Rightarrow> False
      | _ \<Rightarrow> True)"
| "arr_plain None = True"
| "arr_plain (Some (ObjectArray objs cap)) = list_all obj_plain objs"

lemma free_opt_add: "free_opt p m = mem_add (- of_bool (p \<noteq> None)) m"
  by (simp add: free_opt_def free1_def split: option.split)

lemma free_add:
  "ObjectFree x m = mem_add (- obj_freed x) m"
  "ObjectArrayFree a m = mem_add (- arr_freed a) m"
  "ObjectArrayFree_loop xs m = mem_add (- sum_list (map obj_freed xs)) m"
  by (induction x m and a m and xs m rule: ObjectFree_ObjectArrayFree_ObjectArrayFree_loop.induct)
    (auto simp: free1_def free_opt_add algebra_simps split: ObjectValue.split)

subsection \<open>Well-formed objects\<close>

text \<open>
  What the constructors establish and every operation keeps: a string's size is its length, a
  buffer's length stays inside its block, an array has room for its slots and none of them is
  \<^verbatim>\<open>NULL\<close>.
\<close>

definition rb_canon :: "RawBuffer \<Rightarrow> bool" where
  "rb_canon b \<longleftrightarrow> rb_ok b \<and> (rb_data b \<noteq> None \<longrightarrow> 0 < rb_len b)"

fun obj_wf :: "Object option \<Rightarrow> bool"
and arr_wf :: "ObjectArray option \<Rightarrow> bool" where
  "obj_wf None = True"
| "obj_wf (Some (Object v sz)) =
     (case v of
        V_STR s \<Rightarrow> (case s of None \<Rightarrow> True | Some s \<Rightarrow> no_nul s \<and> sz = length s)
      | V_BIN b \<Rightarrow> (case b of None \<Rightarrow> True | Some rb \<Rightarrow> rb_canon rb)
      | V_ARRAY a \<Rightarrow> arr_wf a
      | _ \<Rightarrow> True)"
| "arr_wf None = True"
| "arr_wf (Some (ObjectArray objs cap)) =
     (0 < cap \<and> length objs \<le> cap \<and> list_all (\<lambda>x. x \<noteq> None \<and> obj_wf x) objs)"

subsection \<open>Copies\<close>

text \<open>The capacity of an array that \<open>n\<close> elements were appended to, starting from an empty one.\<close>

fun cap_for :: "nat \<Rightarrow> nat" where
  "cap_for 0 = OBJECT_ARRAY_INITIAL_CAPACITY"
| "cap_for (Suc n) = (if cap_for n \<le> n then cap_for n * 2 else cap_for n)"

lemma cap_for_ge: "n \<le> cap_for n" and cap_for_pos: "0 < cap_for n"
proof (induction n)
  case (Suc n)
  { case 1 then show ?case using Suc by auto }
  { case 2 then show ?case using Suc by auto }
qed (simp_all add: OBJECT_ARRAY_INITIAL_CAPACITY_def)

declare cap_for.simps [simp del]

text \<open>The reference copy.\<close>

fun copy_obj :: "Object option \<Rightarrow> Object option"
and copy_arr :: "ObjectArray option \<Rightarrow> ObjectArray option" where
  "copy_obj None = None"
| "copy_obj (Some (Object v sz)) =
     Some (Object (case v of
        V_BIN b \<Rightarrow> V_BIN (map_option rb_compact b)
      | V_ARRAY a \<Rightarrow> V_ARRAY (copy_arr a)
      | V_MAP_table _ \<Rightarrow> V_MAP_null
      | V_MAP_pair _ \<Rightarrow> V_MAP_null
      | _ \<Rightarrow> v) sz)"
| "copy_arr None = None"
| "copy_arr (Some (ObjectArray objs cap)) =
     Some (ObjectArray (map copy_obj objs) (cap_for (length objs)))"

lemma plain_freed:
  "obj_plain x \<Longrightarrow> obj_freed x = obj_blocks x"
  "arr_plain a \<Longrightarrow> arr_freed a = arr_blocks a"
proof (induction x and a rule: obj_plain_arr_plain.induct)
  case (2 v sz)
  then show ?case
    by (cases v) (auto simp: rb_blocks_def split: option.splits)
next
  case (4 objs cap)
  then show ?case
    by (simp add: list_all_iff) (metis (mono_tags, lifting) map_eq_conv)
qed simp_all

lemma plain_copy:
  "obj_plain x \<Longrightarrow> obj_plain (copy_obj x)"
  "arr_plain a \<Longrightarrow> arr_plain (copy_arr a)"
proof (induction x and a rule: obj_plain_arr_plain.induct)
  case (2 v sz)
  then show ?case
    by (cases v) (auto simp: rb_compact_def split: option.splits)
qed (simp_all add: list_all_iff)

text \<open>
  The outcome of a copy: \<^verbatim>\<open>NULL\<close>, with nothing left behind if the source is plain, or the reference
  copy with exactly its blocks allocated; the latter whenever no allocation fails.
\<close>

definition copied :: "Object option \<Rightarrow> mem \<Rightarrow> Object option \<times> mem \<Rightarrow> bool" where
  "copied x m res \<longleftrightarrow>
     (fst res = None \<and> (obj_plain x \<longrightarrow> live (snd res) = live m)
      \<or> fst res = copy_obj x \<and> live (snd res) = live m + obj_blocks (copy_obj x))
   \<and> (nofail m \<longrightarrow> fst res = copy_obj x \<and> snd res = mem_add (obj_blocks (copy_obj x)) m)"

definition arr_copied :: "ObjectArray option \<Rightarrow> mem \<Rightarrow> ObjectArray option \<times> mem \<Rightarrow> bool" where
  "arr_copied a m res \<longleftrightarrow>
     (fst res = None \<and> (arr_plain a \<longrightarrow> live (snd res) = live m)
      \<or> fst res = copy_arr a \<and> live (snd res) = live m + arr_blocks (copy_arr a))
   \<and> (nofail m \<longrightarrow> fst res = copy_arr a \<and> snd res = mem_add (arr_blocks (copy_arr a)) m)"

text \<open>The copy loop appends the copies to what the destination already holds.\<close>

definition extended ::
  "Object option list \<Rightarrow> ObjectArray \<Rightarrow> mem \<Rightarrow> ObjectArray option \<times> mem \<Rightarrow> bool" where
  "extended xs d m res \<longleftrightarrow>
     (let d' = ObjectArray (arr_objects d @ map copy_obj xs) (cap_for (length (arr_objects d) + length xs));
          k = sum_list (map obj_blocks (map copy_obj xs)) in
      (fst res = None \<and> (arr_plain (Some d) \<and> list_all obj_plain xs
          \<longrightarrow> live (snd res) = live m - arr_blocks (Some d))
       \<or> fst res = Some d' \<and> live (snd res) = live m + k)
    \<and> (nofail m \<longrightarrow> fst res = Some d' \<and> snd res = mem_add k m))"

definition appended ::
  "Object option \<Rightarrow> ObjectArray \<Rightarrow> mem \<Rightarrow> bool \<times> ObjectArray option \<times> mem \<Rightarrow> bool" where
  "appended x d m res \<longleftrightarrow>
     (let (ok, d', m') = res; k = obj_blocks (copy_obj x) in
      (ok \<longrightarrow> d' = Some (ObjectArray (arr_objects d @ [copy_obj x]) (cap_for (Suc (length (arr_objects d)))))
          \<and> live m' = live m + k)
    \<and> (\<not> ok \<longrightarrow> (\<exists>c. d' = Some (ObjectArray (arr_objects d) c)) \<and> (obj_plain x \<longrightarrow> live m' = live m))
    \<and> (nofail m \<longrightarrow> ok \<and> m' = mem_add k m))"

lemma ObjectNew_cases:
  "ObjectNew m = (r, m') \<Longrightarrow>
     (r = None \<and> live m' = live m \<or> r = Some (Object V_UND 0) \<and> live m' = live m + 1)
   \<and> (nofail m \<longrightarrow> r = Some (Object V_UND 0) \<and> m' = mem_add 1 m)"
  using malloc_live [of m]
  by (auto simp: ObjectNew_def malloc_nofail split: prod.splits if_splits)

lemma ObjectNew_nofail [alloc_simps]:
  "nofail m \<Longrightarrow> ObjectNew m = (Some (Object V_UND 0), mem_add 1 m)"
  by (simp add: ObjectNew_def malloc_nofail)

lemma ObjectArrayCreate_cases:
  assumes "ObjectArrayCreate m = (r, m')"
  shows "(r = None \<and> live m' = live m \<or> r = Some (ObjectArray [] (cap_for 0)) \<and> live m' = live m + 2)
   \<and> (nofail m \<longrightarrow> r = Some (ObjectArray [] (cap_for 0)) \<and> m' = mem_add 2 m)"
proof -
  obtain ok1 m1 where 1: "malloc m = (ok1, m1)" by fastforce
  obtain ok2 m2 where 2: "malloc m1 = (ok2, m2)" by fastforce
  show ?thesis
    using assms malloc_live [OF 1] malloc_live [OF 2] 1 2
    by (auto simp: ObjectArrayCreate_def malloc_nofail cap_for.simps split: if_splits)
qed

lemma array_reserve_cases:
  assumes "array_reserve a m = (ok, a', m')"
    and "arr_capacity a = cap_for (length (arr_objects a))"
  shows "live m' = live m \<and> arr_objects a' = arr_objects a
       \<and> (ok \<longrightarrow> a' = ObjectArray (arr_objects a) (cap_for (Suc (length (arr_objects a)))))
       \<and> (nofail m \<longrightarrow> ok \<and> m' = m)"
  using assms realloc_live [of "Some ()" m]
  by (cases a) (auto simp: array_reserve_def realloc_nofail cap_for.simps split: if_splits prod.splits)

lemma copy_obj_None [simp]: "copy_obj x = None \<longleftrightarrow> x = None"
proof (cases x)
  case (Some y)
  then show ?thesis by (cases y) simp
qed simp

lemma copy_obj_Some [simp]: "\<exists>y. copy_obj (Some ob) = Some y"
  by (cases ob) simp

lemma copy_arr_None [simp]: "copy_arr a = None \<longleftrightarrow> a = None"
proof (cases a)
  case (Some y)
  then show ?thesis by (cases y) simp
qed simp

lemma arr_blocks_eq: "arr_blocks (Some a) = 2 + sum_list (map obj_blocks (arr_objects a))"
  by (cases a) simp

lemma arr_plain_eq: "arr_plain (Some a) = list_all obj_plain (arr_objects a)"
  by (cases a) simp

lemma ObjectArrayFree_plain:
  "arr_plain (Some a) \<Longrightarrow> ObjectArrayFree (Some a) m = mem_add (- arr_blocks (Some a)) m"
  by (simp add: free_add plain_freed)

text \<open>One step of each of the four functions, from the laws of the functions it calls.\<close>

lemma copied_object:
  assumes "\<And>a c m1. v = V_ARRAY (Some a) \<Longrightarrow> ObjectNew m = (Some c, m1) \<Longrightarrow> arr_copied (Some a) m1 (ObjectArrayCopy (Some a) m1)"
  shows "copied (Some (Object v sz)) m (ObjectCopy (Some (Object v sz)) m)"
proof -
  obtain c m1 where c: "ObjectNew m = (c, m1)" by fastforce
  note N = ObjectNew_cases [OF c]
  show ?thesis
  proof (cases c)
    case (Some c')
    consider s where "v = V_STR (Some s)" | b where "v = V_BIN (Some b)" | a where "v = V_ARRAY (Some a)"
      | "\<forall>s b a. v \<noteq> V_STR (Some s) \<and> v \<noteq> V_BIN (Some b) \<and> v \<noteq> V_ARRAY (Some a)"
      by blast
    then show ?thesis
    proof cases
      case (1 t)
      obtain s' m2 where s': "strdup t m1 = (s', m2)" by fastforce
      show ?thesis
        using N Some strdup_live [OF s'] strdup_result [OF s'] s' by (auto simp: c 1 copied_def strdup_nofail)
    next
      case (2 rb)
      obtain b' m2 where b': "RawBufferDup rb m1 = (b', m2)" by fastforce
      show ?thesis
        using N Some RawBufferDup_cases [OF b'] b'
        by (auto simp: c 2 copied_def RawBufferDup_nofail add.commute)
    next
      case (3 ar)
      obtain a' m2 where a': "ObjectArrayCopy (Some ar) m1 = (a', m2)" by fastforce
      show ?thesis
        using assms [OF 3 c [unfolded Some]] N Some a' by (auto simp: c 3 copied_def arr_copied_def add.commute)
    next
      case 4
      then show ?thesis using N Some
        by (cases v) (auto simp: c copied_def split: option.splits)
    qed
  qed (use N in \<open>simp add: c copied_def\<close>)
qed

lemma arr_copied_array:
  assumes "\<And>m1. ObjectArrayCreate m = (Some (ObjectArray [] (cap_for 0)), m1)
    \<Longrightarrow> extended objs (ObjectArray [] (cap_for 0)) m1 (ObjectArrayCopy_loop objs (Some (ObjectArray [] (cap_for 0))) m1)"
  shows "arr_copied (Some (ObjectArray objs cap)) m (ObjectArrayCopy (Some (ObjectArray objs cap)) m)"
proof -
  obtain c m1 where c: "ObjectArrayCreate m = (c, m1)" by fastforce
  note N = ObjectArrayCreate_cases [OF c]
  show ?thesis
  proof (cases "c = None")
    case False
    with N have "c = Some (ObjectArray [] (cap_for 0))" by auto
    with assms [of m1] c N show ?thesis by (auto simp: c arr_copied_def extended_def Let_def add.commute)
  qed (use N in \<open>simp add: c arr_copied_def\<close>)
qed

lemma extended_Cons:
  assumes A: "appended x d m (ok, dst, m1)" and x: "obj_wf x"
    and IH: "\<And>d'. ok \<Longrightarrow> d' = ObjectArray (arr_objects d @ [copy_obj x]) (cap_for (Suc (length (arr_objects d))))
      \<Longrightarrow> dst = Some d' \<Longrightarrow> extended xs d' m1 (ObjectArrayCopy_loop xs dst m1)"
    and ap: "ObjectArrayAppend (Some d) x m = (ok, dst, m1)"
  shows "extended (x # xs) d m (ObjectArrayCopy_loop (x # xs) (Some d) m)"
proof (cases ok)
  case False
  then obtain cp where "dst = Some (ObjectArray (arr_objects d) cp)"
    using A by (auto simp: appended_def)
  with False A ap show ?thesis
    by (auto simp: extended_def appended_def arr_plain_eq free_add plain_freed arr_blocks_eq Let_def
        list_all_iff intro!: arg_cong [where f = sum_list])
next
  case True
  with A have "extended xs (ObjectArray (arr_objects d @ [copy_obj x]) (cap_for (Suc (length (arr_objects d))))) m1
      (ObjectArrayCopy_loop xs dst m1)"
    by (intro IH) (auto simp: appended_def Let_def)
  with True A ap show ?thesis
    by (auto simp: extended_def appended_def Let_def arr_plain_eq arr_blocks_eq plain_copy add.commute)
qed

lemma appended_object:
  assumes cap: "arr_capacity d = cap_for (length (arr_objects d))"
    and IH: "\<And>a' m1. array_reserve d m = (True, a', m1) \<Longrightarrow> copied (Some ob) m1 (ObjectCopy (Some ob) m1)"
  shows "appended (Some ob) d m (ObjectArrayAppend (Some d) (Some ob) m)"
proof -
  obtain ok a' m1 where r: "array_reserve d m = (ok, a', m1)" by (metis prod_cases3)
  obtain c m2 where c: "ObjectCopy (Some ob) m1 = (c, m2)" by fastforce
  have R: "live m1 = live m \<and> arr_objects a' = arr_objects d
       \<and> (ok \<longrightarrow> a' = ObjectArray (arr_objects d) (cap_for (Suc (length (arr_objects d)))))
       \<and> (nofail m \<longrightarrow> ok \<and> m1 = m)"
    using array_reserve_cases [OF r] cap by simp
  show ?thesis
  proof (cases ok)
    case True
    moreover have "None \<noteq> copy_obj (Some ob)" by (metis copy_obj_None option.distinct(1))
    ultimately show ?thesis using IH [of a' m1] R r c
      by (auto simp: appended_def copied_def)
  qed (use R r cap in \<open>cases a'; auto simp: appended_def\<close>)
qed

lemma copy_laws:
  "obj_wf x \<Longrightarrow> x \<noteq> None \<Longrightarrow> copied x m (ObjectCopy x m)"
  "arr_wf a \<Longrightarrow> a \<noteq> None \<Longrightarrow> arr_copied a m (ObjectArrayCopy a m)"
  "list_all (\<lambda>x. x \<noteq> None \<and> obj_wf x) xs \<Longrightarrow> dst = Some d \<Longrightarrow>
   arr_capacity d = cap_for (length (arr_objects d)) \<Longrightarrow>
   extended xs d m (ObjectArrayCopy_loop xs dst m)"
  "obj_wf x \<Longrightarrow> x \<noteq> None \<Longrightarrow> dst = Some d \<Longrightarrow>
   arr_capacity d = cap_for (length (arr_objects d)) \<Longrightarrow>
   appended x d m (ObjectArrayAppend dst x m)"
proof (induction x m and a m and xs dst m and dst x m arbitrary: and and d and d
    rule: ObjectCopy_ObjectArrayCopy_ObjectArrayCopy_loop_ObjectArrayAppend.induct)
  case (2 v sz m)
  show ?case by (rule copied_object) (use 2 in auto)
next
  case (4 objs cap m)
  show ?case by (rule arr_copied_array) (use 4 in auto)
next
  case (5 dst m)
  then show ?case by (cases d) (simp add: extended_def)
next
  case (6 x xs dst m)
  obtain ok dst' m1 where ap: "ObjectArrayAppend (Some d) x m = (ok, dst', m1)" by (metis prod_cases3)
  show ?case
    unfolding 6(4)
    by (rule extended_Cons [OF _ _ _ ap]) (use 6 ap in \<open>auto simp: appended_def Let_def\<close>)
next
  case (9 a obj m)
  then have "appended (Some obj) d m (ObjectArrayAppend (Some d) (Some obj) m)"
    by (intro appended_object) (auto simp del: ObjectArrayAppend.simps)
  with 9 show ?case by simp
qed simp_all

lemma ObjectCopy_cases:
  assumes "ObjectCopy (Some ob) m = (r, m')" and "obj_wf (Some ob)"
  obtains (fail) "r = None" "\<not> nofail m" "obj_plain (Some ob) \<Longrightarrow> live m' = live m"
  | (copy) "r = copy_obj (Some ob)" "r \<noteq> None" "live m' = live m + obj_blocks r"
      "nofail m \<Longrightarrow> m' = mem_add (obj_blocks r) m"
proof -
  have "None \<noteq> copy_obj (Some ob)" by (metis copy_obj_None option.distinct(1))
  with copy_laws(1) [of "Some ob" m] assms show thesis
    by (metis copied_def fst_conv snd_conv option.distinct(1) fail copy)
qed

lemma wf_copy:
  "obj_wf x \<Longrightarrow> obj_wf (copy_obj x)"
  "arr_wf a \<Longrightarrow> arr_wf (copy_arr a)"
proof (induction x and a rule: obj_wf_arr_wf.induct)
  case (2 v sz)
  then show ?case
  proof (cases v)
    case (V_BIN b)
    with 2 show ?thesis
      by (cases b) (auto simp: rb_canon_def rb_compact_def rb_ok_def split: option.splits)
  qed (auto split: option.splits)
next
  case (4 objs cap)
  then show ?case by (fastforce simp: cap_for_pos cap_for_ge list_all_iff)
qed simp_all

subsection \<open>The value an object stands for\<close>

fun obj_abs :: "Object option \<Rightarrow> mval"
and arr_abs :: "ObjectArray option \<Rightarrow> mval" where
  "obj_abs None = MNil"
| "obj_abs (Some (Object v sz)) =
     (case v of
        V_BOOL b \<Rightarrow> MBool b
      | V_INT i \<Rightarrow> MInt (sint i)
      | V_UINT u \<Rightarrow> MInt (uint u)
      | V_FLOAT f \<Rightarrow> MFloat f
      | V_DOUBLE d \<Rightarrow> MDouble d
      | V_STR s \<Rightarrow> (case s of None \<Rightarrow> MNil | Some s \<Rightarrow> MStr s)
      | V_BIN b \<Rightarrow> (case b of
            None \<Rightarrow> MNil
          | Some rb \<Rightarrow> if rb_data rb = None then MNil else MBin (rb_bytes rb))
      | V_ARRAY a \<Rightarrow> arr_abs a
      | _ \<Rightarrow> MNil)"
| "arr_abs None = MNil"
| "arr_abs (Some (ObjectArray objs cap)) = MArr (map obj_abs objs)"

lemma abs_copy:
  "obj_wf x \<Longrightarrow> obj_abs (copy_obj x) = obj_abs x"
  "arr_wf a \<Longrightarrow> arr_abs (copy_arr a) = arr_abs a"
proof (induction x and a rule: obj_wf_arr_wf.induct)
  case (2 v sz)
  then show ?case
  proof (cases v)
    case (V_BIN b)
    with 2 show ?thesis
      by (cases b) (auto simp: rb_canon_def rb_compact_def rb_bytes_def split: option.splits)
  qed (auto split: option.splits)
qed (auto simp: list_all_iff)

subsection \<open>Appending to an array\<close>

lemma array_reserve_wf:
  assumes "array_reserve a m = (ok, a', m')" and "arr_wf (Some a)"
  shows "live m' = live m" "arr_objects a' = arr_objects a" "arr_wf (Some a')"
    and "ok \<Longrightarrow> length (arr_objects a') < arr_capacity a'"
    and "nofail m \<Longrightarrow> ok \<and> m' = m"
  using assms realloc_live [of "Some ()" m]
  by (cases a; auto simp: array_reserve_def realloc_nofail split: if_splits prod.splits)+

lemma ObjectArrayAppend_wf:
  assumes app: "ObjectArrayAppend (Some a) (Some ob) m = (ok, r, m')"
    and wf: "arr_wf (Some a)" "obj_wf (Some ob)"
  obtains a' where "r = Some a'" "arr_wf r"
    "arr_objects a' = (if ok then arr_objects a @ [copy_obj (Some ob)] else arr_objects a)"
    "ok \<Longrightarrow> live m' = live m + obj_blocks (copy_obj (Some ob))"
    "\<not> ok \<Longrightarrow> obj_plain (Some ob) \<Longrightarrow> live m' = live m"
    "nofail m \<Longrightarrow> ok \<and> m' = mem_add (obj_blocks (copy_obj (Some ob))) m"
proof -
  obtain ok1 a1 m1 where r: "array_reserve a m = (ok1, a1, m1)" by (metis prod_cases3)
  obtain c m2 where c: "ObjectCopy (Some ob) m1 = (c, m2)" by fastforce
  note R = array_reserve_wf [OF r wf(1)]
  show thesis
  proof (cases ok1)
    case False
    with app r have "ok = False" "r = Some a1" "m' = m1" by simp_all
    with False R show thesis by (intro that [of a1]) auto
  next
    case True
    from c wf(2) show thesis
    proof (cases rule: ObjectCopy_cases)
      case fail
      with app r c True have "ok = False" "r = Some a1" "m' = m2" by simp_all
      with fail R True show thesis by (intro that [of a1]) auto
    next
      case copy
      let ?a = "ObjectArray (arr_objects a1 @ [c]) (arr_capacity a1)"
      have "arr_wf (Some ?a)"
        using R(3,4) True copy wf_copy(1) [OF wf(2)] by (cases a1) auto
      moreover have "ok" "r = Some ?a" "m' = m2"
        using app r c True copy by auto
      ultimately show thesis
        using copy R by (intro that [of ?a]) auto
    qed
  qed
qed

end
