(* ===== verification/Haze_Interfaces.thy ===== *)
theory Haze_Interfaces
  imports Haze_Prelude
begin

text \<open>
  The contracts the components of Haze rely on, as locales: a growable array of slots, a keyed
  table, and a run of events that simulates a specification. The theories of the providing
  components interpret them on the model of the code.
\<close>

subsection \<open>Growable arrays\<close>

datatype 'x array_op = Push 'x | Del nat

text \<open>A sequence of operations on the implementation, and on the list it stands for.\<close>

fun run_ops ::
  "('arr \<Rightarrow> 'x \<Rightarrow> mem \<Rightarrow> bool \<times> 'arr \<times> mem) \<Rightarrow> ('arr \<Rightarrow> nat \<Rightarrow> mem \<Rightarrow> bool \<times> 'arr \<times> mem) \<Rightarrow>
   'x array_op list \<Rightarrow> 'arr \<Rightarrow> mem \<Rightarrow> 'arr \<times> mem" where
  "run_ops push del [] a m = (a, m)"
| "run_ops push del (Push x # ops) a m =
     (let (_, a, m) = push a x m in run_ops push del ops a m)"
| "run_ops push del (Del i # ops) a m =
     (let (_, a, m) = del a i m in run_ops push del ops a m)"

fun list_op :: "('x \<Rightarrow> 'e) \<Rightarrow> 'x array_op \<Rightarrow> 'e list \<Rightarrow> 'e list" where
  "list_op item (Push x) xs = xs @ [item x]"
| "list_op item (Del i) xs = take i xs @ drop (Suc i) xs"

definition pushed :: "'x array_op list \<Rightarrow> 'x set" where
  "pushed ops = {x. Push x \<in> set ops}"

locale slot_array =
  fixes inv :: "'arr \<Rightarrow> bool"
    and elems :: "'arr \<Rightarrow> 'e list"
    and item :: "'x \<Rightarrow> 'e"
    and valid :: "'x \<Rightarrow> bool"
    and push :: "'arr \<Rightarrow> 'x \<Rightarrow> mem \<Rightarrow> bool \<times> 'arr \<times> mem"
    and del :: "'arr \<Rightarrow> nat \<Rightarrow> mem \<Rightarrow> bool \<times> 'arr \<times> mem"
  assumes push_law: "inv a \<Longrightarrow> valid x \<Longrightarrow> push a x m = (ok, a', m') \<Longrightarrow>
      inv a' \<and> elems a' = (if ok then elems a @ [item x] else elems a)
      \<and> (nofail m \<longrightarrow> ok \<and> nofail m')"
    and del_law: "inv a \<Longrightarrow> del a i m = (ok, a', m') \<Longrightarrow>
      inv a' \<and> ok = (i < length (elems a))
      \<and> elems a' = (if ok then take i (elems a) @ drop (Suc i) (elems a) else elems a)
      \<and> (nofail m \<longrightarrow> nofail m')"
begin

lemma run_inv:
  assumes "run_ops push del ops a m = (a', m')" and "inv a" and "\<forall>x \<in> pushed ops. valid x"
  shows "inv a'"
  using assms
proof (induction ops arbitrary: a m)
  case (Cons oper ops)
  then show ?case
  proof (cases oper)
    case (Push x)
    obtain ok a1 m1 where p: "push a x m = (ok, a1, m1)" by (metis prod_cases3)
    with Push Cons.prems(2,3) have "inv a1" using push_law by (auto simp: pushed_def)
    with Push p Cons show ?thesis by (auto simp: pushed_def)
  next
    case (Del i)
    obtain ok a1 m1 where p: "del a i m = (ok, a1, m1)" by (metis prod_cases3)
    with Del Cons.prems(2) have "inv a1" using del_law by blast
    with Del p Cons show ?thesis by (auto simp: pushed_def)
  qed
qed simp

theorem run_refines:
  assumes "run_ops push del ops a m = (a', m')" and "inv a" and "nofail m"
    and "\<forall>x \<in> pushed ops. valid x"
  shows "elems a' = fold (list_op item) ops (elems a)"
  using assms
proof (induction ops arbitrary: a m)
  case (Cons oper ops)
  then show ?case
  proof (cases oper)
    case (Push x)
    obtain ok a1 m1 where p: "push a x m = (ok, a1, m1)" by (metis prod_cases3)
    with Push Cons.prems(2-) have "inv a1" "nofail m1" "elems a1 = elems a @ [item x]"
      using push_law [OF Cons.prems(2) _ p] by (auto simp: pushed_def)
    with Push p Cons show ?thesis by (auto simp: pushed_def)
  next
    case (Del i)
    obtain ok a1 m1 where p: "del a i m = (ok, a1, m1)" by (metis prod_cases3)
    with Del Cons.prems(2,3)
    have "inv a1" "nofail m1" "elems a1 = take i (elems a) @ drop (Suc i) (elems a)"
      using del_law [OF Cons.prems(2) p] by (auto simp: not_less)
    with Del p Cons show ?thesis by (auto simp: pushed_def)
  qed
qed simp

end

subsection \<open>Keyed tables\<close>

fun put_all ::
  "('t \<Rightarrow> 'k \<Rightarrow> 'v \<Rightarrow> mem \<Rightarrow> bool \<times> 't \<times> mem) \<Rightarrow> ('k \<times> 'v) list \<Rightarrow> 't \<Rightarrow> mem \<Rightarrow> 't \<times> mem" where
  "put_all put [] t m = (t, m)"
| "put_all put ((k, v) # kvs) t m = (let (_, t, m) = put t k v m in put_all put kvs t m)"

text \<open>The last binding of a key in a list of pairs.\<close>

fun last_binding :: "('k \<Rightarrow> 'k \<Rightarrow> bool) \<Rightarrow> ('k \<times> 'v) list \<Rightarrow> 'k \<Rightarrow> 'v option" where
  "last_binding eqv [] k = None"
| "last_binding eqv ((k', v) # kvs) k =
     (case last_binding eqv kvs k of
        Some w \<Rightarrow> Some w
      | None \<Rightarrow> if eqv k' k then Some v else None)"

locale keyed_table =
  fixes inv :: "'t \<Rightarrow> bool"
    and lookup :: "'t \<Rightarrow> 'k \<Rightarrow> 'w option"
    and put :: "'t \<Rightarrow> 'k \<Rightarrow> 'v \<Rightarrow> mem \<Rightarrow> bool \<times> 't \<times> mem"
    and del :: "'t \<Rightarrow> 'k \<Rightarrow> mem \<Rightarrow> bool \<times> 't \<times> mem"
    and eqv :: "'k \<Rightarrow> 'k \<Rightarrow> bool"
    and key :: "'k \<Rightarrow> bool"
    and val :: "'v \<Rightarrow> bool"
    and stored :: "'v \<Rightarrow> 'w"
  assumes put_law: "inv t \<Longrightarrow> key k \<Longrightarrow> val v \<Longrightarrow> put t k v m = (ok, t', m') \<Longrightarrow>
      inv t' \<and> (nofail m \<longrightarrow> ok \<and> nofail m')
      \<and> (\<forall>k'. key k' \<longrightarrow> lookup t' k' = (if ok \<and> eqv k k' then Some (stored v) else lookup t k'))"
    and del_law: "inv t \<Longrightarrow> key k \<Longrightarrow> del t k m = (ok, t', m') \<Longrightarrow>
      inv t' \<and> (nofail m \<longrightarrow> nofail m') \<and> ok = (lookup t k \<noteq> None)
      \<and> (\<forall>k'. key k' \<longrightarrow> lookup t' k' = (if eqv k k' then None else lookup t k'))"
    and eqv_refl: "key k \<Longrightarrow> eqv k k"
begin

lemma lookup_put_same:
  "inv t \<Longrightarrow> key k \<Longrightarrow> val v \<Longrightarrow> nofail m \<Longrightarrow> put t k v m = (ok, t', m') \<Longrightarrow>
   lookup t' k = Some (stored v)"
  using put_law [of t k v m ok t' m'] eqv_refl [of k] by simp

lemma lookup_del_same:
  "inv t \<Longrightarrow> key k \<Longrightarrow> del t k m = (ok, t', m') \<Longrightarrow> lookup t' k = None"
  using del_law [of t k m ok t' m'] eqv_refl [of k] by simp

theorem lookup_put_all:
  assumes "put_all put kvs t m = (t', m')" and "inv t" and "nofail m"
    and "\<forall>(k, v) \<in> set kvs. key k \<and> val v" and "key k"
  shows "lookup t' k =
    (case last_binding eqv kvs k of Some v \<Rightarrow> Some (stored v) | None \<Rightarrow> lookup t k)"
  using assms
proof (induction kvs arbitrary: t m)
  case (Cons kv kvs)
  obtain k1 v1 where kv: "kv = (k1, v1)" by fastforce
  obtain ok t1 m1 where p: "put t k1 v1 m = (ok, t1, m1)" by (metis prod_cases3)
  have "key k1" "val v1" using Cons.prems(4) kv by auto
  note L = put_law [OF Cons.prems(2) this p]
  have "put_all put kvs t1 m1 = (t', m')" using Cons.prems(1) kv p by simp
  then have "lookup t' k = (case last_binding eqv kvs k of Some v \<Rightarrow> Some (stored v) | None \<Rightarrow> lookup t1 k)"
    using Cons.IH [of t1 m1] Cons.prems L by auto
  then show ?case
    using L Cons.prems kv by (auto split: option.split)
qed simp

end

subsection \<open>Simulations\<close>

text \<open>
  A run of labelled steps, each of which may be undefined; \<open>allowed\<close> tells whether every step was one the environment may
  take in the state it was taken in.
\<close>

fun play :: "('e \<Rightarrow> 's \<Rightarrow> 's option) \<Rightarrow> 'e list \<Rightarrow> 's \<Rightarrow> 's option" where
  "play step [] s = Some s"
| "play step (e # es) s = Option.bind (step e s) (play step es)"

fun allowed :: "('e \<Rightarrow> 's \<Rightarrow> bool) \<Rightarrow> ('e \<Rightarrow> 's \<Rightarrow> 's option) \<Rightarrow> 'e list \<Rightarrow> 's \<Rightarrow> bool" where
  "allowed may step [] s = True"
| "allowed may step (e # es) s =
     (may e s \<and> (case step e s of None \<Rightarrow> True | Some s' \<Rightarrow> allowed may step es s'))"

locale simulation =
  fixes may :: "'e \<Rightarrow> 's \<Rightarrow> bool"
    and step :: "'e \<Rightarrow> 's \<Rightarrow> 's option"
    and spec :: "'e \<Rightarrow> 'a \<Rightarrow> 'a"
    and rel :: "'s \<Rightarrow> 'a \<Rightarrow> bool"
  assumes step_law: "rel s a \<Longrightarrow> may e s \<Longrightarrow> \<exists>s'. step e s = Some s' \<and> rel s' (spec e a)"
begin

theorem run_law: "rel s a \<Longrightarrow> allowed may step es s \<Longrightarrow> \<exists>s'. play step es s = Some s' \<and> rel s' (fold spec es a)"
proof (induction es arbitrary: s a)
  case (Cons e es)
  then obtain s1 where 1: "step e s = Some s1" "rel s1 (spec e a)" using step_law by fastforce
  with Cons.IH [OF 1(2)] Cons.prems(2) show ?case by simp
qed simp

end

end
