(* ===== verification/Haze_Containers.thy ===== *)
theory Haze_Containers
  imports Haze_Object_Laws Haze_Interfaces
begin

text \<open>
  The object array and the map table of \<^verbatim>\<open>source/msgpack/Object.c\<close> meet their contracts: the
  interpretations of the array and table interfaces, and the properties that follow.
\<close>

subsection \<open>Object arrays\<close>

definition arr_inv :: "ObjectArray option \<Rightarrow> bool" where
  "arr_inv a \<longleftrightarrow> a \<noteq> None \<and> arr_wf a"

definition arr_elems :: "ObjectArray option \<Rightarrow> Object option list" where
  "arr_elems a = (case a of None \<Rightarrow> [] | Some arr \<Rightarrow> arr_objects arr)"

definition obj_valid :: "Object option \<Rightarrow> bool" where
  "obj_valid x \<longleftrightarrow> x \<noteq> None \<and> obj_wf x"

lemma ObjectArrayRemove_eq:
  assumes "arr_wf (Some arr)"
  shows "ObjectArrayRemove (Some arr) i m =
    (if i < length (arr_objects arr)
     then (True, Some (ObjectArray (take i (arr_objects arr) @ drop (Suc i) (arr_objects arr))
                        (arr_capacity arr)),
           ObjectFree (arr_objects arr ! i) m)
     else (False, Some arr, m))"
  using take_shift_left [of i "arr_objects arr"]
  by (simp add: ObjectArrayRemove_def Let_def)

lemma nofail_ObjectFree [simp]: "nofail (ObjectFree x m) = nofail m"
  by (simp add: free_add)

interpretation object_array: slot_array arr_inv arr_elems copy_obj obj_valid
    ObjectArrayAppend ObjectArrayRemove
proof
  fix a x m ok a' m'
  assume inv: "arr_inv a" and val: "obj_valid x" and app: "ObjectArrayAppend a x m = (ok, a', m')"
  obtain arr ob where [simp]: "a = Some arr" "x = Some ob"
    using inv val by (auto simp: arr_inv_def obj_valid_def)
  from app have "ObjectArrayAppend (Some arr) (Some ob) m = (ok, a', m')" by simp
  moreover have "arr_wf (Some arr)" "obj_wf (Some ob)"
    using inv val by (auto simp: arr_inv_def obj_valid_def)
  ultimately obtain arr' where "a' = Some arr'" "arr_wf a'"
    "arr_objects arr' = (if ok then arr_objects arr @ [copy_obj (Some ob)] else arr_objects arr)"
    "nofail m \<Longrightarrow> ok \<and> m' = mem_add (obj_blocks (copy_obj (Some ob))) m"
    by (rule ObjectArrayAppend_wf) blast
  then show "arr_inv a' \<and> arr_elems a' = (if ok then arr_elems a @ [copy_obj x] else arr_elems a)
      \<and> (nofail m \<longrightarrow> ok \<and> nofail m')"
    by (auto simp: arr_inv_def arr_elems_def)
next
  fix a i m ok a' m'
  assume inv: "arr_inv a" and del: "ObjectArrayRemove a i m = (ok, a', m')"
  obtain arr where [simp]: "a = Some arr" and wf: "arr_wf (Some arr)"
    using inv by (auto simp: arr_inv_def)
  show "arr_inv a' \<and> ok = (i < length (arr_elems a))
      \<and> arr_elems a' = (if ok then take i (arr_elems a) @ drop (Suc i) (arr_elems a) else arr_elems a)
      \<and> (nofail m \<longrightarrow> nofail m')"
    using del wf
    by (cases arr) (auto simp: ObjectArrayRemove_eq arr_inv_def arr_elems_def split: if_splits)
qed

text \<open>
  C13: An object array driven by any sequence of \<^verbatim>\<open>ObjectArrayAppend\<close> and \<^verbatim>\<open>ObjectArrayRemove\<close> calls
  behaves like a list: starting from a fresh array, its slots are the copies of the appended objects
  in order, with the removed positions cut out, and the array stays well formed (room for all slots,
  no \<^verbatim>\<open>NULL\<close> among them).
\<close>

theorem object_array_refines_list:
  assumes "nofail m" and "ObjectArrayCreate m = (a, m1)"
    and "\<forall>x \<in> pushed ops. x \<noteq> None \<and> obj_wf x"
    and "run_ops ObjectArrayAppend ObjectArrayRemove ops a m1 = (a', m2)"
  shows "arr_wf a' \<and> (\<exists>arr. a' = Some arr \<and>
           arr_objects arr = fold (list_op copy_obj) ops [])"
proof -
  have a: "a = Some (ObjectArray [] (cap_for 0))" "nofail m1"
    using ObjectArrayCreate_cases [OF assms(2)] assms(1) by auto
  have v: "\<forall>x \<in> pushed ops. obj_valid x" using assms(3) by (simp add: obj_valid_def)
  have i: "arr_inv a" by (simp add: a arr_inv_def cap_for_pos)
  show ?thesis
    using object_array.run_inv [OF assms(4) i v] object_array.run_refines [OF assms(4) i a(2) v]
    by (auto simp: arr_inv_def arr_elems_def a)
qed

theorem object_array_refines_list_witness:
  "\<exists>a' m2. run_ops ObjectArrayAppend ObjectArrayRemove
       [Push (Some (Object (V_INT 4) 8)), Push (Some (Object V_NIL 0)), Del 0]
       (fst (ObjectArrayCreate \<lparr>outcomes = [], live = 0\<rparr>))
       (snd (ObjectArrayCreate \<lparr>outcomes = [], live = 0\<rparr>)) = (a', m2)
     \<and> (\<exists>arr. a' = Some arr \<and> arr_objects arr = [Some (Object V_NIL 0)])"
  using object_array_refines_list [of "\<lparr>outcomes = [], live = 0\<rparr>"
      "fst (ObjectArrayCreate \<lparr>outcomes = [], live = 0\<rparr>)"
      "snd (ObjectArrayCreate \<lparr>outcomes = [], live = 0\<rparr>)"
      "[Push (Some (Object (V_INT 4) 8)), Push (Some (Object V_NIL 0)), Del 0]"]
  by (auto simp: nofail_def pushed_def split: prod.splits)

subsection \<open>Map tables\<close>

lemma float_eq_laws: "float_eq a b \<Longrightarrow> float_eq b a" "float_eq a b \<Longrightarrow> float_eq b c \<Longrightarrow> float_eq a c"
  by (auto simp: float_eq_def Let_def)

lemma double_eq_laws:
  "double_eq a b \<Longrightarrow> double_eq b a" "double_eq a b \<Longrightarrow> double_eq b c \<Longrightarrow> double_eq a c"
  by (auto simp: double_eq_def Let_def)

text \<open>\<^verbatim>\<open>ObjectEquals\<close> is symmetric and transitive, but not reflexive: a NaN, nil or a container is
  equal to nothing. \<open>key_ok\<close> are the keys that equal themselves.\<close>

lemma ObjectEquals_sym: "ObjectEquals a b \<Longrightarrow> ObjectEquals b a"
  by (auto simp: ObjectEquals_def value_equals_def dest: float_eq_laws double_eq_laws
      split: option.splits ObjectValue.splits)

lemma value_equals_trans: "value_equals a b \<Longrightarrow> value_equals b c \<Longrightarrow> value_equals a c"
  by (cases b) (auto simp: value_equals_def intro: float_eq_laws double_eq_laws
      split: ObjectValue.splits)

lemma ObjectEquals_trans: "ObjectEquals a b \<Longrightarrow> ObjectEquals b c \<Longrightarrow> ObjectEquals a c"
  by (auto simp: ObjectEquals_def intro: value_equals_trans split: option.splits)

lemma ObjectEquals_copy: "ObjectEquals (copy_obj a) b = ObjectEquals a b"
proof (cases a)
  case (Some x)
  then show ?thesis
    by (cases x; cases "obj_value x") (auto simp: ObjectEquals_def value_equals_def split: option.splits)
qed (simp add: ObjectEquals_def)

lemma ObjectEquals_copy_right: "ObjectEquals b (copy_obj a) = ObjectEquals b a"
  by (metis ObjectEquals_copy ObjectEquals_sym)

definition key_ok :: "Object option \<Rightarrow> bool" where
  "key_ok k \<longleftrightarrow> k \<noteq> None \<and> obj_wf k \<and> ObjectEquals k k"

fun keys_distinct :: "Object option list \<Rightarrow> bool" where
  "keys_distinct [] = True"
| "keys_distinct (k # ks) = (list_all (\<lambda>q. \<not> ObjectEquals k q) ks \<and> keys_distinct ks)"

definition pairs_ok :: "ObjectMap list \<Rightarrow> bool" where
  "pairs_ok ps \<longleftrightarrow>
     list_all (\<lambda>p. map_Key p \<noteq> None \<and> map_Value p \<noteq> None \<and> obj_wf (map_Key p) \<and> obj_wf (map_Value p)) ps
   \<and> keys_distinct (map map_Key ps)"

definition tbl_inv :: "ObjectMapTable option \<Rightarrow> bool" where
  "tbl_inv t \<longleftrightarrow> (\<exists>ps cap. t = Some (ObjectMapTable ps cap) \<and> 0 < cap \<and> length ps \<le> cap \<and> pairs_ok ps)"

text \<open>Looking a key up in the pairs.\<close>

definition find_value :: "ObjectMap list \<Rightarrow> Object option \<Rightarrow> Object option" where
  "find_value ps k = (case table_find ps k of None \<Rightarrow> None | Some i \<Rightarrow> map_Value (ps ! i))"

lemma find_value_simps [simp]:
  "find_value [] k = None"
  "find_value (p # ps) k = (if ObjectEquals (map_Key p) k then map_Value p else find_value ps k)"
  by (auto simp: find_value_def split: option.split)

lemma ObjectMapTableGet_eq:
  "k \<noteq> None \<Longrightarrow> ObjectMapTableGet (Some (ObjectMapTable ps cap)) k = find_value ps k"
  by (cases k) (simp_all add: ObjectMapTableGet_def find_value_def split: option.split)

lemma table_find_Some:
  "table_find ps k = Some i \<Longrightarrow> i < length ps \<and> ObjectEquals (map_Key (ps ! i)) k"
  by (induction ps arbitrary: i) (auto split: if_splits)

lemma table_find_None:
  "table_find ps k = None \<longleftrightarrow> list_all (\<lambda>p. \<not> ObjectEquals (map_Key p) k) ps"
  by (induction ps) auto

lemma find_value_append:
  "find_value (ps @ qs) k = (if table_find ps k = None then find_value qs k else find_value ps k)"
  by (induction ps) auto

lemma find_value_None: "table_find ps k = None \<Longrightarrow> find_value ps k = None"
  by (simp add: find_value_def)

lemma find_value_update:
  assumes "table_find ps k = Some i" and "v \<noteq> None"
  shows "find_value (ps[i := ObjectMap (map_Key (ps ! i)) v]) k' =
    (if ObjectEquals k k' then v else find_value ps k')"
  using assms(1)
proof (induction ps arbitrary: i)
  case (Cons p ps)
  show ?case
  proof (cases "ObjectEquals (map_Key p) k")
    case True
    then show ?thesis
      using Cons.prems by (auto dest: ObjectEquals_trans ObjectEquals_sym)
  next
    case False
    then obtain j where j: "table_find ps k = Some j" "i = Suc j"
      using Cons.prems by auto
    with False Cons.IH [OF j(1)] show ?thesis
      by (auto dest: ObjectEquals_trans ObjectEquals_sym)
  qed
qed simp

lemma find_value_delete:
  assumes "table_find ps k = Some i" and "keys_distinct (map map_Key ps)"
  shows "find_value (take i ps @ drop (Suc i) ps) k' =
    (if ObjectEquals k k' then None else find_value ps k')"
  using assms
proof (induction ps arbitrary: i)
  case (Cons p ps)
  show ?case
  proof (cases "ObjectEquals (map_Key p) k")
    case True
    have "find_value ps k' = None" if "ObjectEquals k k'"
    proof -
      have "ObjectEquals (map_Key p) k'" using True that by (rule ObjectEquals_trans)
      then have "table_find ps k' = None"
        using Cons.prems(2) by (auto simp: table_find_None list_all_iff
            dest: ObjectEquals_trans ObjectEquals_sym)
      then show ?thesis by (simp add: find_value_def)
    qed
    with True Cons.prems show ?thesis
      by (auto dest: ObjectEquals_trans ObjectEquals_sym)
  next
    case False
    then obtain j where j: "table_find ps k = Some j" "i = Suc j"
      using Cons.prems by auto
    with False Cons.IH [OF j(1)] Cons.prems show ?thesis
      by (auto dest: ObjectEquals_trans ObjectEquals_sym)
  qed
qed simp

lemma keys_distinct_append:
  "keys_distinct (ks @ [k]) \<longleftrightarrow> keys_distinct ks \<and> list_all (\<lambda>q. \<not> ObjectEquals q k) ks"
  by (induction ks) auto

lemma keys_update:
  "i < length ps \<Longrightarrow> map map_Key (ps[i := ObjectMap (map_Key (ps ! i)) v]) = map map_Key ps"
  by (simp add: map_update list_update_same_conv)

lemma keys_distinct_cut: "keys_distinct ks \<Longrightarrow> keys_distinct (take i ks @ drop (Suc i) ks)"
proof (induction ks arbitrary: i)
  case (Cons k ks)
  then show ?case by (cases i) auto
qed simp

lemma ObjectMapCreate_cases:
  assumes "ObjectMapCreate (Some k) (Some v) m = (r, m')" and "obj_wf (Some k)" "obj_wf (Some v)"
  shows "r = None \<and> \<not> nofail m
       \<or> r = Some (ObjectMap (copy_obj (Some k)) (copy_obj (Some v))) \<and> (nofail m \<longrightarrow> nofail m')"
proof -
  obtain ok m1 where 1: "malloc m = (ok, m1)" by fastforce
  obtain k' m2 where 2: "ObjectCopy (Some k) m1 = (k', m2)" by fastforce
  obtain v' m3 where 3: "ObjectCopy (Some v) m2 = (v', m3)" by fastforce
  have n1: "nofail m \<Longrightarrow> ok \<and> nofail m1" using 1 by (auto simp: malloc_nofail)
  have k: "k' = None \<and> \<not> nofail m1 \<or> k' = copy_obj (Some k) \<and> k' \<noteq> None \<and> (nofail m1 \<longrightarrow> nofail m2)"
    using 2 assms(2) by (cases rule: ObjectCopy_cases) auto
  have v: "v' = None \<and> \<not> nofail m2 \<or> v' = copy_obj (Some v) \<and> v' \<noteq> None \<and> (nofail m2 \<longrightarrow> nofail m3)"
    using 3 assms(3) by (cases rule: ObjectCopy_cases) auto
  show ?thesis
    using assms(1) 1 2 3 n1 k v by (auto simp: ObjectMapCreate_def split: if_splits)
qed

lemma table_put_found:
  assumes "tbl_inv (Some t)" and f: "table_find (tbl_pairs t) (Some k) = Some i"
    and wf: "obj_wf (Some v)"
    and p: "ObjectMapTableSet (Some t) (Some k) (Some v) m = (ok, t', m')"
  shows "tbl_inv t' \<and> (nofail m \<longrightarrow> ok \<and> nofail m') \<and> (\<forall>k'. k' \<noteq> None \<longrightarrow> ObjectMapTableGet t' k' =
     (if ok \<and> ObjectEquals (Some k) k' then copy_obj (Some v) else ObjectMapTableGet (Some t) k'))"
proof -
  obtain ps cap where t: "t = ObjectMapTable ps cap" by (cases t)
  obtain v' m1 where c: "ObjectCopy (Some v) m = (v', m1)" by fastforce
  have i: "i < length ps" using table_find_Some [of ps] f t by auto
  show ?thesis
    using c wf
  proof (cases rule: ObjectCopy_cases)
    case fail
    with p t f c assms(1) show ?thesis by (auto simp: ObjectMapTableSet_def)
  next
    case copy
    have t': "t' = Some (ObjectMapTable (ps[i := ObjectMap (map_Key (ps ! i)) v']) cap)" "ok"
        "m' = ObjectFree (map_Value (ps ! i)) m1"
      using p t f c copy by (auto simp: ObjectMapTableSet_def Let_def)
    have "pairs_ok (ps[i := ObjectMap (map_Key (ps ! i)) v'])"
      using assms(1) t i copy wf_copy(1) [OF wf]
      by (auto simp: tbl_inv_def pairs_ok_def list_all_length nth_list_update keys_update)
    then show ?thesis
      using assms(1) copy find_value_update [of ps "Some k" i v'] f t
      by (auto simp: t' tbl_inv_def ObjectMapTableGet_eq)
  qed
qed

lemma table_put_new:
  assumes inv: "tbl_inv (Some t)" and f: "table_find (tbl_pairs t) (Some k) = None"
    and wf: "obj_wf (Some k)" "obj_wf (Some v)"
    and p: "ObjectMapTableSet (Some t) (Some k) (Some v) m = (ok, t', m')"
  shows "tbl_inv t' \<and> (nofail m \<longrightarrow> ok \<and> nofail m') \<and> (\<forall>k'. k' \<noteq> None \<longrightarrow> ObjectMapTableGet t' k' =
     (if ok \<and> ObjectEquals (Some k) k' then copy_obj (Some v) else ObjectMapTableGet (Some t) k'))"
proof -
  obtain ps cap where t: "t = ObjectMapTable ps cap" by (cases t)
  define full where "full \<longleftrightarrow> cap \<le> length ps"
  obtain ok1 m1 where r: "realloc (Some ()) m = (ok1, m1)" by fastforce
  define m2 where "m2 = (if full then m1 else m)"
  define cap2 where "cap2 = (if full then cap * 2 else cap)"
  have ps: "pairs_ok ps" "0 < cap" "length ps \<le> cap"
    using inv t by (auto simp: tbl_inv_def)
  have n: "nofail m \<Longrightarrow> ok1 \<and> nofail m2"
    using r by (auto simp: m2_def realloc_nofail)
  have nf: "table_find ps k' = None" if "ObjectEquals (Some k) k'" for k'
    using f t that by (auto simp: table_find_None list_all_iff dest: ObjectEquals_trans ObjectEquals_sym)
  show ?thesis
  proof (cases "full \<and> \<not> ok1")
    case True
    then have "ok = False" "t' = Some t" "m' = m1"
      using p f t r by (auto simp: ObjectMapTableSet_def full_def)
    with True n inv show ?thesis by auto
  next
    case False
    obtain pr m3 where c: "ObjectMapCreate (Some k) (Some v) m2 = (pr, m3)" by fastforce
    note C = ObjectMapCreate_cases [OF c wf]
    show ?thesis
    proof (cases pr)
      case None
      then have t': "ok = False" "t' = Some (ObjectMapTable ps cap2)"
        using p f t r c False by (auto simp: ObjectMapTableSet_def full_def m2_def cap2_def split: if_splits)
      have "tbl_inv t'" using ps by (auto simp: t' tbl_inv_def cap2_def)
      with None C n t t' show ?thesis by (auto simp: ObjectMapTableGet_eq)
    next
      case (Some q)
      then have q: "q = ObjectMap (copy_obj (Some k)) (copy_obj (Some v))" and n3: "nofail m2 \<longrightarrow> nofail m3"
        using C by auto
      have t': "ok" "t' = Some (ObjectMapTable (ps @ [q]) cap2)" "m' = m3"
        using p f t r c False Some
        by (auto simp: ObjectMapTableSet_def full_def m2_def cap2_def split: if_splits)
      have "list_all (\<lambda>p. \<not> ObjectEquals (map_Key p) (copy_obj (Some k))) ps"
        using f t by (simp add: table_find_None ObjectEquals_copy_right)
      then have "pairs_ok (ps @ [q])"
        using ps wf_copy(1) [OF wf(1)] wf_copy(1) [OF wf(2)]
        by (auto simp: pairs_ok_def q keys_distinct_append list.pred_map comp_def)
      then have "tbl_inv t'"
        using ps by (auto simp: t' tbl_inv_def cap2_def full_def)
      with t t' n n3 nf show ?thesis
        by (auto simp: ObjectMapTableGet_eq find_value_append q ObjectEquals_copy find_value_None)
    qed
  qed
qed

lemma table_put_law:
  assumes "tbl_inv t" "k \<noteq> None" "obj_wf k" "v \<noteq> None" "obj_wf v"
    and "ObjectMapTableSet t k v m = (ok, t', m')"
  shows "tbl_inv t' \<and> (nofail m \<longrightarrow> ok \<and> nofail m') \<and> (\<forall>k'. k' \<noteq> None \<longrightarrow> ObjectMapTableGet t' k' =
     (if ok \<and> ObjectEquals k k' then copy_obj v else ObjectMapTableGet t k'))"
proof -
  obtain tb k0 v0 where e: "t = Some tb" "k = Some k0" "v = Some v0"
    using assms by (auto simp: tbl_inv_def)
  show ?thesis
  proof (cases "table_find (tbl_pairs tb) (Some k0)")
    case None
    show ?thesis using table_put_new [of tb k0 v0 m ok t' m'] None assms e by blast
  next
    case (Some i)
    show ?thesis using table_put_found [of tb k0 i v0 m ok t' m'] Some assms e by blast
  qed
qed

lemma table_del_law:
  assumes "tbl_inv t" "key_ok k" and "ObjectMapTableRemove t k m = (ok, t', m')"
  shows "tbl_inv t' \<and> (nofail m \<longrightarrow> nofail m') \<and> ok = (ObjectMapTableGet t k \<noteq> None)
   \<and> (\<forall>k'. k' \<noteq> None \<longrightarrow> ObjectMapTableGet t' k' = (if ObjectEquals k k' then None else ObjectMapTableGet t k'))"
proof -
  obtain ps cap k0 where e: "t = Some (ObjectMapTable ps cap)" "k = Some k0"
    and ps: "pairs_ok ps" "0 < cap" "length ps \<le> cap"
    using assms by (auto simp: tbl_inv_def key_ok_def)
  show ?thesis
  proof (cases "table_find ps k")
    case None
    have "table_find ps k' = None" if "ObjectEquals k k'" for k'
      using None that by (auto simp: table_find_None list_all_iff dest: ObjectEquals_trans ObjectEquals_sym)
    with None assms e show ?thesis
      by (auto simp: ObjectMapTableRemove_def ObjectMapTableGet_eq find_value_def)
  next
    case (Some i)
    note F = table_find_Some [OF Some]
    have v: "map_Value (ps ! i) \<noteq> None"
      using F ps by (auto simp: pairs_ok_def list_all_length)
    have t': "ok" "t' = Some (ObjectMapTable (take i ps @ drop (Suc i) ps) cap)"
        "m' = ObjectMapFree (Some (ps ! i)) m"
      using assms(3) e Some take_shift_left [of i ps] F by (auto simp: ObjectMapTableRemove_def Let_def)
    have "pairs_ok (take i ps @ drop (Suc i) ps)"
      using ps keys_distinct_cut [of "map map_Key ps" i]
      by (simp add: pairs_ok_def take_map drop_map)
    then have "tbl_inv t'" using ps F by (auto simp: t' tbl_inv_def)
    moreover have "nofail m \<longrightarrow> nofail m'"
      by (cases "ps ! i") (simp add: t' ObjectMapFree_def)
    ultimately show ?thesis
      using t' e Some v find_value_delete [OF Some] ps
      by (auto simp: ObjectMapTableGet_eq find_value_def pairs_ok_def)
  qed
qed

interpretation map_table: keyed_table tbl_inv ObjectMapTableGet ObjectMapTableSet
    ObjectMapTableRemove ObjectEquals key_ok obj_valid "\<lambda>v. the (copy_obj v)"
proof
  fix t k v m ok t' m'
  assume "tbl_inv t" "key_ok k" "obj_valid v" "ObjectMapTableSet t k v m = (ok, t', m')"
  moreover from this have "Some (the (copy_obj v)) = copy_obj v"
    by (metis copy_obj_None obj_valid_def option.collapse)
  ultimately show "tbl_inv t' \<and> (nofail m \<longrightarrow> ok \<and> nofail m')
      \<and> (\<forall>k'. key_ok k' \<longrightarrow> ObjectMapTableGet t' k' =
          (if ok \<and> ObjectEquals k k' then Some (the (copy_obj v)) else ObjectMapTableGet t k'))"
    using table_put_law [of t k v m ok t' m'] by (simp add: key_ok_def obj_valid_def)
next
  fix t k m ok t' m'
  assume "tbl_inv t" "key_ok k" "ObjectMapTableRemove t k m = (ok, t', m')"
  then show "tbl_inv t' \<and> (nofail m \<longrightarrow> nofail m') \<and> ok = (ObjectMapTableGet t k \<noteq> None)
      \<and> (\<forall>k'. key_ok k' \<longrightarrow> ObjectMapTableGet t' k' =
          (if ObjectEquals k k' then None else ObjectMapTableGet t k'))"
    using table_del_law [of t k m ok t' m'] by (simp add: key_ok_def)
qed (simp add: key_ok_def)

lemma ObjectMapTableCreate_nofail:
  "nofail m \<Longrightarrow> ObjectMapTableCreate m = (Some (ObjectMapTable [] 8), mem_add 2 m)"
  by (simp add: ObjectMapTableCreate_def malloc_nofail OBJECT_MAP_INITIAL_CAPACITY_def)

lemma tbl_inv_empty: "0 < cap \<Longrightarrow> tbl_inv (Some (ObjectMapTable [] cap))"
  by (simp add: tbl_inv_def pairs_ok_def)

text \<open>
  C12: A map table filled by \<^verbatim>\<open>ObjectMapTableSet\<close> answers \<^verbatim>\<open>ObjectMapTableGet\<close> with a copy of the value
  last set for an equal key, and with \<^verbatim>\<open>NULL\<close> for a key that was never set, whatever the order of
  the calls and however often the table had to grow. Keys are the objects that equal themselves
  (a NaN, nil or a container is equal to no key).
\<close>

theorem map_table_last_binding:
  assumes "nofail m" and "ObjectMapTableCreate m = (t, m1)"
    and "\<forall>(k, v) \<in> set kvs. key_ok k \<and> obj_valid v" and "key_ok k"
    and "put_all ObjectMapTableSet kvs t m1 = (t', m2)"
  shows "ObjectMapTableGet t' k =
    (case last_binding ObjectEquals kvs k of Some v \<Rightarrow> copy_obj v | None \<Rightarrow> None)"
proof -
  have t: "t = Some (ObjectMapTable [] 8)" "nofail m1"
    using assms(1,2) by (auto simp: ObjectMapTableCreate_nofail)
  have inv: "tbl_inv t" by (simp add: t tbl_inv_empty)
  have v: "copy_obj v \<noteq> None" if "last_binding ObjectEquals kvs k = Some v" for v
    using that assms(3) by (induction kvs) (auto simp: obj_valid_def split: option.splits if_splits)
  show ?thesis
    using map_table.lookup_put_all [OF assms(5) inv t(2) assms(3,4)] v t assms(4)
    by (auto simp: key_ok_def ObjectMapTableGet_eq split: option.split)
qed

theorem map_table_last_binding_witness:
  "ObjectMapTableGet
     (fst (put_all ObjectMapTableSet
        [(Some (Object (V_UINT 1) 8), Some (Object (V_INT 5) 8)),
         (Some (Object (V_UINT 2) 8), Some (Object (V_INT 6) 8)),
         (Some (Object (V_UINT 1) 8), Some (Object (V_INT 7) 8))]
        (fst (ObjectMapTableCreate \<lparr>outcomes = [], live = 0\<rparr>))
        (snd (ObjectMapTableCreate \<lparr>outcomes = [], live = 0\<rparr>))))
     (Some (Object (V_UINT 1) 8)) = Some (Object (V_INT 7) 8)"
  by (subst map_table_last_binding [OF _ prod.collapse [symmetric] _ _ prod.collapse [symmetric]])
    (simp_all add: nofail_def key_ok_def obj_valid_def ObjectEquals_def value_equals_def)

text \<open>Copying a table.\<close>

lemma copy_loop_lookup:
  assumes "ObjectMapTableCopy_loop ps dst m = (r, m')" and "pairs_ok ps" "tbl_inv dst" "nofail m"
    and "k \<noteq> None"
  shows "tbl_inv r \<and> ObjectMapTableGet r k =
    (if table_find ps k = None then ObjectMapTableGet dst k else copy_obj (find_value ps k))"
  using assms
proof (induction ps arbitrary: dst m)
  case (Cons p ps)
  obtain ok dst1 m1 where s: "ObjectMapTableSet dst (map_Key p) (map_Value p) m = (ok, dst1, m1)"
    by (metis prod_cases3)
  have p: "map_Key p \<noteq> None" "obj_wf (map_Key p)" "map_Value p \<noteq> None" "obj_wf (map_Value p)"
    and ps: "pairs_ok ps" and d: "list_all (\<lambda>q. \<not> ObjectEquals (map_Key p) (map_Key q)) ps"
    using Cons.prems(2) by (auto simp: pairs_ok_def list.pred_map comp_def)
  note L = table_put_law [OF Cons.prems(3) p s]
  have loop: "ObjectMapTableCopy_loop ps dst1 m1 = (r, m')"
    using Cons.prems(1,4) s L by simp
  have nf: "table_find ps k = None" if "ObjectEquals (map_Key p) k"
    using d that by (auto simp: table_find_None list_all_iff dest: ObjectEquals_trans ObjectEquals_sym)
  show ?case
    using Cons.IH [OF loop ps] L Cons.prems(4,5) nf by auto
qed simp

text \<open>
  C26: \<^verbatim>\<open>ObjectMapTableCopy\<close> of a well-formed table succeeds when no allocation fails, and the copy
  answers every lookup with a copy of what the original answers.
\<close>

theorem map_table_copy_same_lookups:
  assumes "tbl_inv t" and "nofail m" and "k \<noteq> None"
    and "ObjectMapTableCopy t m = (t', m')"
  shows "tbl_inv t' \<and> ObjectMapTableGet t' k = copy_obj (ObjectMapTableGet t k)"
proof -
  obtain ps cap where t: "t = Some (ObjectMapTable ps cap)" and ps: "pairs_ok ps"
    using assms(1) by (auto simp: tbl_inv_def)
  have "ObjectMapTableCopy_loop ps (Some (ObjectMapTable [] 8)) (mem_add 2 m) = (t', m')"
    using assms(2,4) by (simp add: t ObjectMapTableCopy_def ObjectMapTableCreate_nofail)
  from copy_loop_lookup [OF this ps tbl_inv_empty _ assms(3)] assms(2,3)
  show ?thesis by (auto simp: t ObjectMapTableGet_eq find_value_None)
qed

theorem map_table_copy_same_lookups_witness:
  "ObjectMapTableGet (fst (ObjectMapTableCopy (Some (ObjectMapTable
       [ObjectMap (Some (Object (V_UINT 1) 8)) (Some (Object (V_INT 5) 8))] 8))
       \<lparr>outcomes = [], live = 0\<rparr>)) (Some (Object (V_UINT 1) 8)) = Some (Object (V_INT 5) 8)"
  using map_table_copy_same_lookups [of "Some (ObjectMapTable
       [ObjectMap (Some (Object (V_UINT 1) 8)) (Some (Object (V_INT 5) 8))] 8)"
       "\<lparr>outcomes = [], live = 0\<rparr>" "Some (Object (V_UINT 1) 8)", OF _ _ _ prod.collapse [symmetric]]
  by (simp add: nofail_def tbl_inv_def pairs_ok_def ObjectMapTableGet_eq ObjectEquals_def
      value_equals_def)

end
