(* ===== verification/Client_Object.thy ===== *)
theory Client_Object
  imports Haze_Containers "HOL-Library.AList"
begin

text \<open>
  \<^verbatim>\<open>clients/cpp/src/proto/Object.hpp\<close> and \<^verbatim>\<open>Object.cpp\<close>: the class \<^verbatim>\<open>Haze::Object\<close> of the C++ client, a type
  tag next to a \<^verbatim>\<open>std::variant\<close>. Tag and variant are two fields, so they can disagree:
  \<^verbatim>\<open>std::get\<close> on the wrong alternative throws, which is the \<open>Inl\<close> case of a result. An exception ends
  the call; what it leaves of a partly rearranged vector is not described. Arguments passed by
  reference are values here, so an object passed to its own method is a copy of itself.
  A pointer into a container is the object it designates with the effect of assigning through it.
\<close>

unbundle bit_operations_syntax

subsection \<open>Exceptions\<close>

datatype cpp_exn = Bad_variant_access | Bad_alloc

definition bindE :: "'e + 'a \<Rightarrow> ('a \<Rightarrow> 'e + 'b) \<Rightarrow> 'e + 'b" where
  "bindE x f = (case x of Inl e \<Rightarrow> Inl e | Inr a \<Rightarrow> f a)"

lemma bindE_simps [simp]: "bindE (Inl e) f = Inl e" "bindE (Inr a) f = f a"
  by (simp_all add: bindE_def)

lemma bindE_cong [fundef_cong]:
  "x = y \<Longrightarrow> (\<And>a. y = Inr a \<Longrightarrow> f a = g a) \<Longrightarrow> bindE x f = bindE y g"
  by (cases y) simp_all

lemma bindE_InrE:
  assumes "bindE x f = Inr b"
  obtains a where "x = Inr a" "f a = Inr b"
  using assms by (cases x) simp_all

subsection \<open>The class\<close>

datatype ClientObjectType =
    Ty_Und | Ty_Nil | Ty_Bool | Ty_Int | Ty_UInt | Ty_Float | Ty_Double | Ty_Str | Ty_Bin
  | Ty_Array | Ty_Map

datatype ValueType =
    monostate
  | alt_bool bool
  | alt_int64 u64
  | alt_uint64 u64
  | alt_float u32
  | alt_double u64
  | alt_string "byte list"
  | alt_binary "byte list"
  | alt_array "ClientObject list"
  | alt_map "ObjectMapEntry list"
and ClientObject = ClientObject (co_type: ClientObjectType) (co_value: ValueType)
and ObjectMapEntry = ObjectMapEntry (entry_key: ClientObject) (entry_value: ClientObject)

subsection \<open>Constructors\<close>

definition Object_default :: ClientObject where
  "Object_default = ClientObject Ty_Und monostate"

definition Object_of_type :: "ClientObjectType \<Rightarrow> ClientObject" where
  "Object_of_type t = ClientObject t monostate"

definition Object_of_bool :: "bool \<Rightarrow> ClientObject" where
  "Object_of_bool v = ClientObject Ty_Bool (alt_bool v)"

definition Object_of_int64 :: "u64 \<Rightarrow> ClientObject" where
  "Object_of_int64 v = ClientObject Ty_Int (alt_int64 v)"

definition Object_of_uint64 :: "u64 \<Rightarrow> ClientObject" where
  "Object_of_uint64 v = ClientObject Ty_UInt (alt_uint64 v)"

definition Object_of_float :: "u32 \<Rightarrow> ClientObject" where
  "Object_of_float v = ClientObject Ty_Float (alt_float v)"

definition Object_of_double :: "u64 \<Rightarrow> ClientObject" where
  "Object_of_double v = ClientObject Ty_Double (alt_double v)"

definition Object_of_cstr :: "byte list option \<Rightarrow> ClientObject" where
  "Object_of_cstr str =
     ClientObject Ty_Str (alt_string (case str of Some s \<Rightarrow> s | None \<Rightarrow> cstr ''NULL''))"

definition Object_of_string :: "byte list \<Rightarrow> ClientObject" where
  "Object_of_string str = ClientObject Ty_Str (alt_string str)"

definition Object_of_binary :: "byte list \<Rightarrow> ClientObject" where
  "Object_of_binary bin = ClientObject Ty_Bin (alt_binary bin)"

definition Object_of_array :: "ClientObject list \<Rightarrow> ClientObject" where
  "Object_of_array arr = ClientObject Ty_Array (alt_array arr)"

definition Object_of_map :: "ObjectMapEntry list \<Rightarrow> ClientObject" where
  "Object_of_map mp = ClientObject Ty_Map (alt_map mp)"

definition Object_CreateNil :: ClientObject where
  "Object_CreateNil = Object_of_type Ty_Nil"

definition Object_CreateBool :: "bool \<Rightarrow> ClientObject" where
  "Object_CreateBool v = Object_of_bool v"

definition Object_CreateInt :: "u64 \<Rightarrow> ClientObject" where
  "Object_CreateInt v = Object_of_int64 v"

definition Object_CreateUInt :: "u64 \<Rightarrow> ClientObject" where
  "Object_CreateUInt v = Object_of_uint64 v"

definition Object_CreateFloat :: "u32 \<Rightarrow> ClientObject" where
  "Object_CreateFloat v = Object_of_float v"

definition Object_CreateDouble :: "u64 \<Rightarrow> ClientObject" where
  "Object_CreateDouble v = Object_of_double v"

definition Object_CreateStr :: "byte list \<Rightarrow> ClientObject" where
  "Object_CreateStr str = Object_of_string str"

lemmas ctor_defs = Object_default_def Object_of_type_def Object_of_bool_def Object_of_int64_def
  Object_of_uint64_def Object_of_float_def Object_of_double_def Object_of_cstr_def
  Object_of_string_def Object_of_binary_def Object_of_array_def Object_of_map_def
  Object_CreateNil_def Object_CreateBool_def Object_CreateInt_def Object_CreateUInt_def
  Object_CreateFloat_def Object_CreateDouble_def Object_CreateStr_def

subsection \<open>Getters and type checks\<close>

definition Object_GetType :: "ClientObject \<Rightarrow> ClientObjectType" where
  "Object_GetType ob = co_type ob"

definition Object_GetValue :: "ClientObject \<Rightarrow> ValueType" where
  "Object_GetValue ob = co_value ob"

definition Object_IsNil :: "ClientObject \<Rightarrow> bool" where "Object_IsNil ob \<longleftrightarrow> co_type ob = Ty_Nil"
definition Object_IsBool :: "ClientObject \<Rightarrow> bool" where "Object_IsBool ob \<longleftrightarrow> co_type ob = Ty_Bool"
definition Object_IsInt :: "ClientObject \<Rightarrow> bool" where "Object_IsInt ob \<longleftrightarrow> co_type ob = Ty_Int"
definition Object_IsUInt :: "ClientObject \<Rightarrow> bool" where "Object_IsUInt ob \<longleftrightarrow> co_type ob = Ty_UInt"
definition Object_IsFloat :: "ClientObject \<Rightarrow> bool" where "Object_IsFloat ob \<longleftrightarrow> co_type ob = Ty_Float"
definition Object_IsDouble :: "ClientObject \<Rightarrow> bool" where "Object_IsDouble ob \<longleftrightarrow> co_type ob = Ty_Double"
definition Object_IsStr :: "ClientObject \<Rightarrow> bool" where "Object_IsStr ob \<longleftrightarrow> co_type ob = Ty_Str"
definition Object_IsBin :: "ClientObject \<Rightarrow> bool" where "Object_IsBin ob \<longleftrightarrow> co_type ob = Ty_Bin"
definition Object_IsArray :: "ClientObject \<Rightarrow> bool" where "Object_IsArray ob \<longleftrightarrow> co_type ob = Ty_Array"
definition Object_IsMap :: "ClientObject \<Rightarrow> bool" where "Object_IsMap ob \<longleftrightarrow> co_type ob = Ty_Map"

definition Object_ArrayLen :: "ClientObject \<Rightarrow> nat" where
  "Object_ArrayLen ob = (case co_value ob of alt_array arr \<Rightarrow> length arr | _ \<Rightarrow> 0)"

definition Object_MapLen :: "ClientObject \<Rightarrow> nat" where
  "Object_MapLen ob = (case co_value ob of alt_map mp \<Rightarrow> length mp | _ \<Rightarrow> 0)"

definition Object_GetSize :: "ClientObject \<Rightarrow> nat" where
  "Object_GetSize ob =
     (case co_type ob of
        Ty_Bool \<Rightarrow> 1
      | Ty_Int \<Rightarrow> 8
      | Ty_UInt \<Rightarrow> 8
      | Ty_Float \<Rightarrow> 4
      | Ty_Double \<Rightarrow> 8
      | Ty_Str \<Rightarrow> (case co_value ob of alt_string s \<Rightarrow> length s | _ \<Rightarrow> 0)
      | Ty_Array \<Rightarrow> Object_ArrayLen ob
      | Ty_Map \<Rightarrow> Object_MapLen ob
      | _ \<Rightarrow> 0)"

subsection \<open>Comparison\<close>

text \<open>\<^verbatim>\<open>std::get\<close>: the value of one alternative, or the exception.\<close>

definition get_bool :: "ValueType \<Rightarrow> cpp_exn + bool" where
  "get_bool v = (case v of alt_bool b \<Rightarrow> Inr b | _ \<Rightarrow> Inl Bad_variant_access)"

definition get_int64 :: "ValueType \<Rightarrow> cpp_exn + u64" where
  "get_int64 v = (case v of alt_int64 i \<Rightarrow> Inr i | _ \<Rightarrow> Inl Bad_variant_access)"

definition get_uint64 :: "ValueType \<Rightarrow> cpp_exn + u64" where
  "get_uint64 v = (case v of alt_uint64 i \<Rightarrow> Inr i | _ \<Rightarrow> Inl Bad_variant_access)"

definition get_float :: "ValueType \<Rightarrow> cpp_exn + u32" where
  "get_float v = (case v of alt_float f \<Rightarrow> Inr f | _ \<Rightarrow> Inl Bad_variant_access)"

definition get_double :: "ValueType \<Rightarrow> cpp_exn + u64" where
  "get_double v = (case v of alt_double d \<Rightarrow> Inr d | _ \<Rightarrow> Inl Bad_variant_access)"

definition get_string :: "ValueType \<Rightarrow> cpp_exn + byte list" where
  "get_string v = (case v of alt_string s \<Rightarrow> Inr s | _ \<Rightarrow> Inl Bad_variant_access)"

definition get_binary :: "ValueType \<Rightarrow> cpp_exn + byte list" where
  "get_binary v = (case v of alt_binary s \<Rightarrow> Inr s | _ \<Rightarrow> Inl Bad_variant_access)"

lemmas get_defs = get_bool_def get_int64_def get_uint64_def get_float_def get_double_def
  get_string_def get_binary_def

text \<open>Two \<^verbatim>\<open>std::get\<close> calls whose results are compared.\<close>

definition get_both :: "(ValueType \<Rightarrow> cpp_exn + 'a) \<Rightarrow> ('a \<Rightarrow> 'a \<Rightarrow> bool) \<Rightarrow> ValueType \<Rightarrow> ValueType \<Rightarrow> cpp_exn + bool" where
  "get_both get cmp v w = bindE (get v) (\<lambda>a. bindE (get w) (\<lambda>b. Inr (cmp a b)))"

text \<open>
  \<^verbatim>\<open>operator==\<close> with the element-wise comparison of vectors it induces (sizes first, then the elements
  up to the first difference) and \<^verbatim>\<open>ObjectMapEntry::operator==\<close>.
\<close>

fun Object_eq :: "ClientObject \<Rightarrow> ClientObject \<Rightarrow> cpp_exn + bool"
and array_eq :: "ClientObject list \<Rightarrow> ClientObject list \<Rightarrow> cpp_exn + bool"
and ObjectMapEntry_eq :: "ObjectMapEntry \<Rightarrow> ObjectMapEntry \<Rightarrow> cpp_exn + bool"
and table_eq :: "ObjectMapEntry list \<Rightarrow> ObjectMapEntry list \<Rightarrow> cpp_exn + bool" where
  "Object_eq (ClientObject t v) (ClientObject t' v') =
     (if t \<noteq> t' then Inr False
      else (case t of
          Ty_Und \<Rightarrow> Inr True
        | Ty_Nil \<Rightarrow> Inr True
        | Ty_Bool \<Rightarrow> get_both get_bool (=) v v'
        | Ty_Int \<Rightarrow> get_both get_int64 (=) v v'
        | Ty_UInt \<Rightarrow> get_both get_uint64 (=) v v'
        | Ty_Float \<Rightarrow> get_both get_float float_eq v v'
        | Ty_Double \<Rightarrow> get_both get_double double_eq v v'
        | Ty_Str \<Rightarrow> get_both get_string (=) v v'
        | Ty_Bin \<Rightarrow> get_both get_binary (=) v v'
        | Ty_Array \<Rightarrow>
            (case v of
               alt_array xs \<Rightarrow>
                 (case v' of
                    alt_array ys \<Rightarrow> if length xs = length ys then array_eq xs ys else Inr False
                  | _ \<Rightarrow> Inl Bad_variant_access)
             | _ \<Rightarrow> Inl Bad_variant_access)
        | Ty_Map \<Rightarrow>
            (case v of
               alt_map xs \<Rightarrow>
                 (case v' of
                    alt_map ys \<Rightarrow> if length xs = length ys then table_eq xs ys else Inr False
                  | _ \<Rightarrow> Inl Bad_variant_access)
             | _ \<Rightarrow> Inl Bad_variant_access)))"
| "array_eq (x # xs) (y # ys) =
     bindE (Object_eq x y) (\<lambda>same. if same then array_eq xs ys else Inr False)"
| "array_eq [] ys = Inr True"
| "array_eq (x # xs) [] = Inr True"
| "ObjectMapEntry_eq (ObjectMapEntry k v) (ObjectMapEntry k' v') =
     bindE (Object_eq k k') (\<lambda>same. if same then Object_eq v v' else Inr False)"
| "table_eq (x # xs) (y # ys) =
     bindE (ObjectMapEntry_eq x y) (\<lambda>same. if same then table_eq xs ys else Inr False)"
| "table_eq [] ys = Inr True"
| "table_eq (x # xs) [] = Inr True"

definition Object_ne :: "ClientObject \<Rightarrow> ClientObject \<Rightarrow> cpp_exn + bool" where
  "Object_ne a b = bindE (Object_eq a b) (\<lambda>same. Inr (\<not> same))"

subsection \<open>Array methods\<close>

definition Object_ArrayAppend :: "ClientObject \<Rightarrow> ClientObject \<Rightarrow> bool \<times> ClientObject" where
  "Object_ArrayAppend self ob =
     (let self = (if co_type self \<noteq> Ty_Array then ClientObject Ty_Array (alt_array []) else self)
      in case co_value self of
           alt_array arr \<Rightarrow> (True, ClientObject (co_type self) (alt_array (arr @ [ob])))
         | _ \<Rightarrow> (False, self))"

text \<open>A pointer into a container: the object there, and the container after an assignment to it.\<close>

type_synonym obj_ptr = "ClientObject \<times> (ClientObject \<Rightarrow> ClientObject)"

definition Object_ArrayGet :: "ClientObject \<Rightarrow> nat \<Rightarrow> obj_ptr option" where
  "Object_ArrayGet self index =
     (case co_value self of
        alt_array arr \<Rightarrow>
          if length arr \<le> index then None
          else Some (arr ! index, \<lambda>x. ClientObject (co_type self) (alt_array (arr[index := x])))
      | _ \<Rightarrow> None)"

definition Object_ArrayGet_const :: "ClientObject \<Rightarrow> nat \<Rightarrow> ClientObject option" where
  "Object_ArrayGet_const self index =
     (case co_value self of
        alt_array arr \<Rightarrow> if length arr \<le> index then None else Some (arr ! index)
      | _ \<Rightarrow> None)"

definition Object_ArrayRemove :: "ClientObject \<Rightarrow> nat \<Rightarrow> bool \<times> ClientObject" where
  "Object_ArrayRemove self index =
     (case co_value self of
        alt_array arr \<Rightarrow>
          if length arr \<le> index then (False, self)
          else (True, ClientObject (co_type self) (alt_array (take index arr @ drop (Suc index) arr)))
      | _ \<Rightarrow> (False, self))"

subsection \<open>Map methods\<close>

text \<open>The loops of \<^verbatim>\<open>MapSet\<close>, \<^verbatim>\<open>MapGet\<close> and \<^verbatim>\<open>std::remove_if\<close> over the entries.\<close>

fun MapSet_loop :: "ObjectMapEntry list \<Rightarrow> ClientObject \<Rightarrow> ClientObject \<Rightarrow> cpp_exn + ObjectMapEntry list" where
  "MapSet_loop [] k v = Inr [ObjectMapEntry k v]"
| "MapSet_loop (e # es) k v =
     bindE (Object_eq (entry_key e) k) (\<lambda>same.
       if same then Inr (ObjectMapEntry (entry_key e) v # es)
       else bindE (MapSet_loop es k v) (\<lambda>es. Inr (e # es)))"

definition Object_MapSet :: "ClientObject \<Rightarrow> ClientObject \<Rightarrow> ClientObject \<Rightarrow> cpp_exn + bool \<times> ClientObject" where
  "Object_MapSet self k v =
     (let self = (if co_type self \<noteq> Ty_Map then ClientObject Ty_Map (alt_map []) else self)
      in case co_value self of
           alt_map es \<Rightarrow> bindE (MapSet_loop es k v) (\<lambda>es. Inr (True, ClientObject (co_type self) (alt_map es)))
         | _ \<Rightarrow> Inr (False, self))"

fun MapGet_loop :: "ObjectMapEntry list \<Rightarrow> ClientObject \<Rightarrow> cpp_exn + (nat \<times> ClientObject) option" where
  "MapGet_loop [] k = Inr None"
| "MapGet_loop (e # es) k =
     bindE (Object_eq (entry_key e) k) (\<lambda>same.
       if same then Inr (Some (0, entry_value e))
       else bindE (MapGet_loop es k) (\<lambda>r. Inr (map_option (map_prod Suc id) r)))"

definition Object_MapGet :: "ClientObject \<Rightarrow> ClientObject \<Rightarrow> cpp_exn + obj_ptr option" where
  "Object_MapGet self k =
     (case co_value self of
        alt_map es \<Rightarrow>
          bindE (MapGet_loop es k) (\<lambda>r. Inr (map_option (\<lambda>(i, v).
            (v, \<lambda>x. ClientObject (co_type self)
                      (alt_map (es[i := ObjectMapEntry (entry_key (es ! i)) x])))) r))
      | _ \<Rightarrow> Inr None)"

definition Object_MapGet_const :: "ClientObject \<Rightarrow> ClientObject \<Rightarrow> cpp_exn + ClientObject option" where
  "Object_MapGet_const self k =
     (case co_value self of
        alt_map es \<Rightarrow> bindE (MapGet_loop es k) (\<lambda>r. Inr (map_option snd r))
      | _ \<Rightarrow> Inr None)"

fun remove_if_loop :: "ObjectMapEntry list \<Rightarrow> ClientObject \<Rightarrow> cpp_exn + ObjectMapEntry list" where
  "remove_if_loop [] k = Inr []"
| "remove_if_loop (e # es) k =
     bindE (Object_eq (entry_key e) k) (\<lambda>same.
       bindE (remove_if_loop es k) (\<lambda>es. Inr (if same then es else e # es)))"

definition Object_MapRemove :: "ClientObject \<Rightarrow> ClientObject \<Rightarrow> cpp_exn + bool \<times> ClientObject" where
  "Object_MapRemove self k =
     (case co_value self of
        alt_map es \<Rightarrow>
          bindE (remove_if_loop es k) (\<lambda>kept.
            if length kept \<noteq> length es then Inr (True, ClientObject (co_type self) (alt_map kept))
            else Inr (False, self))
      | _ \<Rightarrow> Inr (False, self))"

end
