(* ===== verification/Client_Object_Laws.thy ===== *)
theory Client_Object_Laws
  imports Client_Object
begin

text \<open>
  The typing discipline of the client's objects (tag and variant agree, at every depth), that every
  method keeps it and no method of a well-typed object throws, and the refinement of the map and
  array methods to finite maps and lists.
\<close>

unbundle bit_operations_syntax

subsection \<open>Typing\<close>

fun obj_typed :: "ClientObject \<Rightarrow> bool" and entry_typed :: "ObjectMapEntry \<Rightarrow> bool" where
  "obj_typed (ClientObject t v) =
     (case v of
        monostate \<Rightarrow> t = Ty_Und \<or> t = Ty_Nil
      | alt_bool _ \<Rightarrow> t = Ty_Bool
      | alt_int64 _ \<Rightarrow> t = Ty_Int
      | alt_uint64 _ \<Rightarrow> t = Ty_UInt
      | alt_float _ \<Rightarrow> t = Ty_Float
      | alt_double _ \<Rightarrow> t = Ty_Double
      | alt_string _ \<Rightarrow> t = Ty_Str
      | alt_binary _ \<Rightarrow> t = Ty_Bin
      | alt_array xs \<Rightarrow> t = Ty_Array \<and> list_all obj_typed xs
      | alt_map es \<Rightarrow> t = Ty_Map \<and> list_all entry_typed es)"
| "entry_typed (ObjectMapEntry k v) = (obj_typed k \<and> obj_typed v)"

lemma entry_typed_iff: "entry_typed e \<longleftrightarrow> obj_typed (entry_key e) \<and> obj_typed (entry_value e)"
  by (cases e) simp

lemma typed_ctors [simp]:
  "obj_typed Object_default" "obj_typed (Object_of_bool b)" "obj_typed (Object_of_int64 i)"
  "obj_typed (Object_of_uint64 u)" "obj_typed (Object_of_float f)" "obj_typed (Object_of_double d)"
  "obj_typed (Object_of_cstr c)" "obj_typed (Object_of_string s)" "obj_typed (Object_of_binary bs)"
  "obj_typed (Object_of_array xs) = list_all obj_typed xs"
  "obj_typed (Object_of_map es) = list_all entry_typed es" "obj_typed Object_CreateNil"
  by (simp_all add: ctor_defs)

lemma typed_of_type: "obj_typed (Object_of_type t) \<longleftrightarrow> t = Ty_Und \<or> t = Ty_Nil"
  by (simp add: ctor_defs)

lemma typed_tag:
  assumes "obj_typed ob"
  shows "co_type ob = Ty_Array \<longleftrightarrow> (\<exists>xs. co_value ob = alt_array xs)"
    and "co_type ob = Ty_Map \<longleftrightarrow> (\<exists>es. co_value ob = alt_map es)"
  using assms by (cases ob; cases "co_value ob"; simp; blast?)+

lemma typed_arrayD: "obj_typed ob \<Longrightarrow> co_value ob = alt_array xs \<Longrightarrow> list_all obj_typed xs"
  by (cases ob) simp

lemma typed_mapD: "obj_typed ob \<Longrightarrow> co_value ob = alt_map es \<Longrightarrow> list_all entry_typed es"
  by (cases ob) simp

text \<open>Progress: comparing well-typed objects never throws.\<close>

lemma eq_returns:
  "obj_typed x \<Longrightarrow> obj_typed y \<Longrightarrow> \<exists>b. Object_eq x y = Inr b"
  "list_all obj_typed xs \<Longrightarrow> list_all obj_typed ys \<Longrightarrow> \<exists>b. array_eq xs ys = Inr b"
  "entry_typed d \<Longrightarrow> entry_typed e \<Longrightarrow> \<exists>b. ObjectMapEntry_eq d e = Inr b"
  "list_all entry_typed ds \<Longrightarrow> list_all entry_typed es \<Longrightarrow> \<exists>b. table_eq ds es = Inr b"
proof (induction x y and xs ys and d e and ds es
    rule: Object_eq_array_eq_ObjectMapEntry_eq_table_eq.induct)
  case (1 t v t' v')
  then show ?case
    by (cases v; cases v') (auto simp: get_both_def get_defs)
next
  case (2 x xs y ys)
  then obtain b where "Object_eq x y = Inr b" by auto
  with 2 show ?case by (cases b) auto
next
  case (5 k v k' v')
  then obtain b where "Object_eq k k' = Inr b" by auto
  with 5 show ?case by (cases b) auto
next
  case (6 x xs y ys)
  then obtain b where "ObjectMapEntry_eq x y = Inr b" by auto
  with 6 show ?case by (cases b) auto
qed auto

subsection \<open>Comparison up to the sign of zero\<close>

definition float_canon :: "u32 \<Rightarrow> u32" where
  "float_canon f = (if f AND 0x7FFFFFFF = 0 then 0 else f)"

definition double_canon :: "u64 \<Rightarrow> u64" where
  "double_canon d = (if d AND 0x7FFFFFFFFFFFFFFF = 0 then 0 else d)"

definition float_nan :: "u32 \<Rightarrow> bool" where
  "float_nan f \<longleftrightarrow> 0x7F800000 < f AND 0x7FFFFFFF"

definition double_nan :: "u64 \<Rightarrow> bool" where
  "double_nan d \<longleftrightarrow> 0x7FF0000000000000 < d AND 0x7FFFFFFFFFFFFFFF"

lemma float_eq_canon: "\<not> float_nan a \<Longrightarrow> \<not> float_nan b \<Longrightarrow> float_eq a b \<longleftrightarrow> float_canon a = float_canon b"
  by (auto simp: float_eq_def float_canon_def float_nan_def)

lemma double_eq_canon: "\<not> double_nan a \<Longrightarrow> \<not> double_nan b \<Longrightarrow> double_eq a b \<longleftrightarrow> double_canon a = double_canon b"
  by (auto simp: double_eq_def double_canon_def double_nan_def)

text \<open>An object without a NaN anywhere, and its representative under \<^verbatim>\<open>operator==\<close>.\<close>

fun nan_free :: "ClientObject \<Rightarrow> bool" and entry_nan_free :: "ObjectMapEntry \<Rightarrow> bool" where
  "nan_free (ClientObject t v) =
     (case v of
        alt_float f \<Rightarrow> \<not> float_nan f
      | alt_double d \<Rightarrow> \<not> double_nan d
      | alt_array xs \<Rightarrow> list_all nan_free xs
      | alt_map es \<Rightarrow> list_all entry_nan_free es
      | _ \<Rightarrow> True)"
| "entry_nan_free (ObjectMapEntry k v) = (nan_free k \<and> nan_free v)"

fun canon :: "ClientObject \<Rightarrow> ClientObject" and entry_canon :: "ObjectMapEntry \<Rightarrow> ObjectMapEntry" where
  "canon (ClientObject t v) =
     ClientObject t (case v of
        alt_float f \<Rightarrow> alt_float (float_canon f)
      | alt_double d \<Rightarrow> alt_double (double_canon d)
      | alt_array xs \<Rightarrow> alt_array (map canon xs)
      | alt_map es \<Rightarrow> alt_map (map entry_canon es)
      | _ \<Rightarrow> v)"
| "entry_canon (ObjectMapEntry k v) = ObjectMapEntry (canon k) (canon v)"

lemma eq_canon:
  "obj_typed x \<Longrightarrow> obj_typed y \<Longrightarrow> nan_free x \<Longrightarrow> nan_free y \<Longrightarrow>
     Object_eq x y = Inr (canon x = canon y)"
  "list_all obj_typed xs \<Longrightarrow> list_all obj_typed ys \<Longrightarrow> list_all nan_free xs \<Longrightarrow> list_all nan_free ys \<Longrightarrow>
     length xs = length ys \<Longrightarrow> array_eq xs ys = Inr (map canon xs = map canon ys)"
  "entry_typed d \<Longrightarrow> entry_typed e \<Longrightarrow> entry_nan_free d \<Longrightarrow> entry_nan_free e \<Longrightarrow>
     ObjectMapEntry_eq d e = Inr (entry_canon d = entry_canon e)"
  "list_all entry_typed ds \<Longrightarrow> list_all entry_typed es \<Longrightarrow> list_all entry_nan_free ds \<Longrightarrow>
     list_all entry_nan_free es \<Longrightarrow> length ds = length es \<Longrightarrow>
     table_eq ds es = Inr (map entry_canon ds = map entry_canon es)"
proof (induction x y and xs ys and d e and ds es
    rule: Object_eq_array_eq_ObjectMapEntry_eq_table_eq.induct)
  case (1 t v t' v')
  then show ?case
    by (cases v; cases v') (auto simp: get_both_def get_defs float_eq_canon double_eq_canon dest: map_eq_imp_length_eq)
qed auto

subsection \<open>Maps\<close>

text \<open>The entries as an association list over key representatives.\<close>

definition alist :: "ObjectMapEntry list \<Rightarrow> (ClientObject \<times> ClientObject) list" where
  "alist es = map (\<lambda>e. (canon (entry_key e), entry_value e)) es"

definition key_good :: "ClientObject \<Rightarrow> bool" where
  "key_good k \<longleftrightarrow> obj_typed k \<and> nan_free k"

definition entries_good :: "ObjectMapEntry list \<Rightarrow> bool" where
  "entries_good es \<longleftrightarrow> list_all (\<lambda>e. key_good (entry_key e) \<and> obj_typed (entry_value e)) es"

lemma alist_simps [simp]:
  "alist [] = []" "alist (e # es) = (canon (entry_key e), entry_value e) # alist es"
  by (simp_all add: alist_def)

lemma entries_good_simps [simp]:
  "entries_good []"
  "entries_good (e # es) \<longleftrightarrow> key_good (entry_key e) \<and> obj_typed (entry_value e) \<and> entries_good es"
  by (simp_all add: entries_good_def)

lemma key_eq: "key_good a \<Longrightarrow> key_good b \<Longrightarrow> Object_eq a b = Inr (canon a = canon b)"
  by (simp add: key_good_def eq_canon)

lemma MapSet_loop_refines:
  assumes "entries_good es" "key_good k" "obj_typed v"
  shows "\<exists>es'. MapSet_loop es k v = Inr es' \<and> entries_good es'
    \<and> alist es' = AList.update (canon k) v (alist es)"
  using assms by (induction es) (auto simp: key_eq)

lemma MapGet_loop_refines:
  assumes "entries_good es" "key_good k"
  shows "\<exists>r. MapGet_loop es k = Inr r \<and> map_option snd r = map_of (alist es) (canon k)"
  using assms by (induction es) (force simp: key_eq option.map_comp comp_def)+

lemma remove_if_loop_refines:
  assumes "entries_good es" "key_good k"
  shows "\<exists>es'. remove_if_loop es k = Inr es' \<and> entries_good es'
    \<and> alist es' = AList.delete (canon k) (alist es)
    \<and> (length es' \<noteq> length es \<longleftrightarrow> map_of (alist es) (canon k) \<noteq> None) \<and> length es' \<le> length es"
  using assms by (induction es) (auto simp: key_eq)

text \<open>A map object whose keys can be compared.\<close>

definition map_good :: "ClientObject \<Rightarrow> bool" where
  "map_good ob \<longleftrightarrow> (\<exists>es. ob = ClientObject Ty_Map (alt_map es) \<and> entries_good es)"

definition map_alist :: "ClientObject \<Rightarrow> (ClientObject \<times> ClientObject) list" where
  "map_alist ob = (case co_value ob of alt_map es \<Rightarrow> alist es | _ \<Rightarrow> [])"

lemma MapSet_refines:
  assumes "map_good ob \<or> co_type ob \<noteq> Ty_Map \<and> obj_typed ob" "key_good k" "obj_typed v"
  shows "\<exists>ob'. Object_MapSet ob k v = Inr (True, ob') \<and> map_good ob'
    \<and> map_alist ob' = AList.update (canon k) v (if co_type ob = Ty_Map then map_alist ob else [])"
  using assms(1)
proof
  assume "map_good ob"
  then obtain es where es: "ob = ClientObject Ty_Map (alt_map es)" "entries_good es"
    by (auto simp: map_good_def)
  then show ?thesis
    using MapSet_loop_refines [OF es(2) assms(2,3)]
    by (auto simp: Object_MapSet_def map_good_def map_alist_def)
next
  assume "co_type ob \<noteq> Ty_Map \<and> obj_typed ob"
  then show ?thesis
    using assms(2,3) by (auto simp: Object_MapSet_def map_good_def map_alist_def)
qed

lemma MapGet_refines:
  assumes "map_good ob" "key_good k"
  shows "Object_MapGet_const ob k = Inr (map_of (map_alist ob) (canon k))"
  using assms MapGet_loop_refines [of _ k]
  by (fastforce simp: map_good_def Object_MapGet_const_def map_alist_def)

lemma MapRemove_refines:
  assumes "map_good ob" "key_good k"
  shows "\<exists>ob'. Object_MapRemove ob k = Inr (map_of (map_alist ob) (canon k) \<noteq> None, ob')
    \<and> map_good ob' \<and> map_alist ob' = AList.delete (canon k) (map_alist ob)"
proof -
  obtain es where es: "ob = ClientObject Ty_Map (alt_map es)" "entries_good es"
    using assms(1) by (auto simp: map_good_def)
  obtain kept where kept: "remove_if_loop es k = Inr kept" "entries_good kept"
      "alist kept = AList.delete (canon k) (alist es)"
      "length kept \<noteq> length es \<longleftrightarrow> map_of (alist es) (canon k) \<noteq> None"
    using remove_if_loop_refines [OF es(2) assms(2)] by blast
  have "AList.delete (canon k) (alist es) = alist es" if "map_of (alist es) (canon k) = None"
    using that by (simp add: delete_id map_of_eq_None_iff)
  with es kept show ?thesis
    by (auto simp: Object_MapRemove_def map_alist_def map_good_def)
qed

text \<open>The map methods as a keyed table; they do not touch the C heap.\<close>

definition map_lookup :: "ClientObject \<Rightarrow> ClientObject \<Rightarrow> ClientObject option" where
  "map_lookup ob k = (case Object_MapGet_const ob k of Inr r \<Rightarrow> r | Inl _ \<Rightarrow> None)"

definition map_put :: "ClientObject \<Rightarrow> ClientObject \<Rightarrow> ClientObject \<Rightarrow> mem \<Rightarrow> bool \<times> ClientObject \<times> mem" where
  "map_put ob k v m = (case Object_MapSet ob k v of Inr (ok, ob') \<Rightarrow> (ok, ob', m) | Inl _ \<Rightarrow> (False, ob, m))"

definition map_del :: "ClientObject \<Rightarrow> ClientObject \<Rightarrow> mem \<Rightarrow> bool \<times> ClientObject \<times> mem" where
  "map_del ob k m = (case Object_MapRemove ob k of Inr (ok, ob') \<Rightarrow> (ok, ob', m) | Inl _ \<Rightarrow> (False, ob, m))"

definition same :: "ClientObject \<Rightarrow> ClientObject \<Rightarrow> bool" where
  "same a b \<longleftrightarrow> Object_eq a b = Inr True"

lemma same_canon: "key_good a \<Longrightarrow> key_good b \<Longrightarrow> same a b \<longleftrightarrow> canon a = canon b"
  by (simp add: same_def key_eq)

interpretation client_map: keyed_table map_good map_lookup map_put map_del same key_good obj_typed "\<lambda>v. v"
proof
  fix t k v m ok t' m'
  assume h: "map_good t" "key_good k" "obj_typed v" "map_put t k v m = (ok, t', m')"
  have "co_type t = Ty_Map" using h(1) by (auto simp: map_good_def)
  then obtain ob where ob: "Object_MapSet t k v = Inr (True, ob)" "map_good ob"
      "map_alist ob = AList.update (canon k) v (map_alist t)"
    using MapSet_refines [of t k v] h by auto
  with h(4) have "ok" "t' = ob" "m' = m" by (simp_all add: map_put_def)
  with ob h show "map_good t' \<and> (nofail m \<longrightarrow> ok \<and> nofail m')
      \<and> (\<forall>k'. key_good k' \<longrightarrow> map_lookup t' k' = (if ok \<and> same k k' then Some v else map_lookup t k'))"
    by (auto simp: map_lookup_def MapGet_refines same_canon update_conv')
next
  fix t k m ok t' m'
  assume h: "map_good t" "key_good k" "map_del t k m = (ok, t', m')"
  then obtain ob where ob: "Object_MapRemove t k = Inr (map_of (map_alist t) (canon k) \<noteq> None, ob)"
      "map_good ob" "map_alist ob = AList.delete (canon k) (map_alist t)"
    using MapRemove_refines by blast
  with h(3) have "ok = (map_of (map_alist t) (canon k) \<noteq> None)" "t' = ob" "m' = m"
    by (simp_all add: map_del_def)
  with ob h show "map_good t' \<and> (nofail m \<longrightarrow> nofail m') \<and> ok = (map_lookup t k \<noteq> None)
      \<and> (\<forall>k'. key_good k' \<longrightarrow> map_lookup t' k' = (if same k k' then None else map_lookup t k'))"
    by (auto simp: map_lookup_def MapGet_refines same_canon delete_conv')
qed (simp add: same_canon)

subsection \<open>Arrays\<close>

definition arr_good :: "ClientObject \<Rightarrow> bool" where
  "arr_good ob \<longleftrightarrow> (\<exists>xs. ob = Object_of_array xs \<and> list_all obj_typed xs)"

definition arr_items :: "ClientObject \<Rightarrow> ClientObject list" where
  "arr_items ob = (case co_value ob of alt_array xs \<Rightarrow> xs | _ \<Rightarrow> [])"

definition arr_push :: "ClientObject \<Rightarrow> ClientObject \<Rightarrow> mem \<Rightarrow> bool \<times> ClientObject \<times> mem" where
  "arr_push ob x m = (case Object_ArrayAppend ob x of (ok, ob') \<Rightarrow> (ok, ob', m))"

definition arr_del :: "ClientObject \<Rightarrow> nat \<Rightarrow> mem \<Rightarrow> bool \<times> ClientObject \<times> mem" where
  "arr_del ob i m = (case Object_ArrayRemove ob i of (ok, ob') \<Rightarrow> (ok, ob', m))"

interpretation client_array: slot_array arr_good arr_items "\<lambda>x. x" obj_typed arr_push arr_del
  by unfold_locales
    (auto simp: arr_good_def arr_items_def arr_push_def arr_del_def Object_ArrayAppend_def
      Object_ArrayRemove_def Object_of_array_def split: if_splits)

subsection \<open>Filling a map\<close>

fun MapSet_all :: "(ClientObject \<times> ClientObject) list \<Rightarrow> ClientObject \<Rightarrow> cpp_exn + ClientObject" where
  "MapSet_all [] ob = Inr ob"
| "MapSet_all ((k, v) # kvs) ob = bindE (Object_MapSet ob k v) (\<lambda>(_, ob). MapSet_all kvs ob)"

definition pairs_good :: "(ClientObject \<times> ClientObject) list \<Rightarrow> bool" where
  "pairs_good kvs \<longleftrightarrow> list_all (\<lambda>(k, v). key_good k \<and> obj_typed v) kvs"

lemma MapSet_all_put_all:
  assumes "map_good ob" "pairs_good kvs"
  shows "MapSet_all kvs ob = Inr (fst (put_all map_put kvs ob m)) \<and> map_good (fst (put_all map_put kvs ob m))"
  using assms
proof (induction kvs arbitrary: ob)
  case (Cons kv kvs)
  obtain k v where kv: "kv = (k, v)" by fastforce
  with Cons.prems obtain ob' where "Object_MapSet ob k v = Inr (True, ob')" "map_good ob'"
    using MapSet_refines [of ob k v] by (auto simp: pairs_good_def)
  with Cons kv show ?case by (simp add: map_put_def pairs_good_def)
qed simp

lemma map_lookup_good: "map_good ob \<Longrightarrow> key_good k \<Longrightarrow> Object_MapGet_const ob k = Inr (map_lookup ob k)"
  by (simp add: map_lookup_def MapGet_refines)

lemma last_binding_Cons_same:
  "last_binding same ((k', v) # kvs) k = (case last_binding same kvs k of None \<Rightarrow> if same k' k then Some v else None | Some w \<Rightarrow> Some w)"
  by (simp split: option.split)

lemma MapSet_all_lookup:
  assumes "pairs_good kvs" "kvs \<noteq> []"
  shows "\<exists>ob. MapSet_all kvs Object_default = Inr ob \<and> map_good ob
    \<and> (\<forall>k. key_good k \<longrightarrow> map_lookup ob k = last_binding same kvs k)"
proof -
  obtain k0 v0 rest where kvs: "kvs = (k0, v0) # rest" using assms(2) by (cases kvs) auto
  have g: "key_good k0" "obj_typed v0" "pairs_good rest" "\<forall>(k, v) \<in> set rest. key_good k \<and> obj_typed v"
    using assms(1) by (auto simp: kvs pairs_good_def list_all_iff)
  let ?m = "\<lparr>outcomes = [], live = 0\<rparr> :: mem"
  obtain ob where ob: "Object_MapSet Object_default k0 v0 = Inr (True, ob)" "map_good ob"
      "map_alist ob = [(canon k0, v0)]"
    using MapSet_refines [of Object_default k0 v0] g by (auto simp: ctor_defs)
  obtain ob' m' where p: "put_all map_put rest ob ?m = (ob', m')" by fastforce
  have ob': "MapSet_all rest ob = Inr ob'" "map_good ob'"
    using MapSet_all_put_all [OF ob(2) g(3), of ?m] p by simp_all
  have "map_lookup ob' k = last_binding same kvs k" if k: "key_good k" for k
    using client_map.lookup_put_all [OF p ob(2) _ g(4) k] ob(2,3) g(1) k
    by (auto simp: kvs nofail_def map_lookup_def MapGet_refines same_canon split: option.split)
  with ob(1) ob' show ?thesis by (simp add: kvs)
qed

text \<open>The number of different keys among some bindings: the classes of \<open>operator==\<close>.\<close>

definition key_classes :: "(ClientObject \<times> ClientObject) list \<Rightarrow> nat" where
  "key_classes kvs = card ((\<lambda>k. {k' \<in> fst ` set kvs. same k k'}) ` fst ` set kvs)"

lemma key_classes_canon:
  assumes "pairs_good kvs"
  shows "key_classes kvs = card (canon ` fst ` set kvs)"
proof -
  let ?K = "fst ` set kvs" and ?f = "\<lambda>c. {k' \<in> fst ` set kvs. c = canon k'}"
  have g: "key_good k" if "k \<in> ?K" for k using assms that by (auto simp: pairs_good_def list_all_iff)
  have "{k' \<in> ?K. same k k'} = ?f (canon k)" if "k \<in> ?K" for k
    by (intro Collect_cong conj_cong refl same_canon g that)
  then have "(\<lambda>k. {k' \<in> ?K. same k k'}) ` ?K = ?f ` canon ` ?K" by (auto simp: image_iff)
  moreover have "inj_on ?f (canon ` ?K)" by (rule inj_onI) blast
  ultimately show ?thesis by (simp add: key_classes_def card_image)
qed

definition map_keys :: "ClientObject \<Rightarrow> ClientObject set" where
  "map_keys ob = fst ` set (map_alist ob)"

definition map_distinct :: "ClientObject \<Rightarrow> bool" where
  "map_distinct ob \<longleftrightarrow> distinct (map fst (map_alist ob))"

lemma MapLen_keys: "map_good ob \<Longrightarrow> map_distinct ob \<Longrightarrow> Object_MapLen ob = card (map_keys ob)"
  using distinct_card [of "map fst (map_alist ob)"]
  by (auto simp: map_good_def map_distinct_def map_keys_def Object_MapLen_def map_alist_def alist_def)

lemma MapSet_all_keys:
  assumes "map_good ob" "map_distinct ob" "pairs_good kvs" "MapSet_all kvs ob = Inr ob'"
  shows "map_good ob' \<and> map_distinct ob' \<and> map_keys ob' = map_keys ob \<union> canon ` fst ` set kvs"
  using assms
proof (induction kvs arbitrary: ob)
  case (Cons kv kvs)
  obtain k v where kv: "kv = (k, v)" by fastforce
  have "co_type ob = Ty_Map" using Cons.prems(1) by (auto simp: map_good_def)
  then obtain ob1 where 1: "Object_MapSet ob k v = Inr (True, ob1)" "map_good ob1"
      "map_alist ob1 = AList.update (canon k) v (map_alist ob)"
    using MapSet_refines [of ob k v] Cons.prems(1,3) kv by (auto simp: pairs_good_def)
  have "map_distinct ob1" "map_keys ob1 = insert (canon k) (map_keys ob)"
    using Cons.prems(2) arg_cong [OF update_keys [of "canon k" v "map_alist ob"], of set]
    by (auto simp: map_distinct_def map_keys_def 1(3) distinct_update)
  with Cons.IH [of ob1] Cons.prems(3,4) 1(1,2) kv show ?case by (auto simp: pairs_good_def)
qed simp

lemma MapRemove_keys:
  assumes "map_good ob" "map_distinct ob" "key_good k" "Object_MapRemove ob k = Inr (b, ob')"
  shows "Object_MapLen ob' + of_bool b = Object_MapLen ob"
proof -
  have r: "b = (map_of (map_alist ob) (canon k) \<noteq> None)" "map_good ob'" "map_alist ob' = AList.delete (canon k) (map_alist ob)"
    using MapRemove_refines [OF assms(1,3)] assms(4) by auto
  have "map_distinct ob'" using assms(2) by (simp add: map_distinct_def r(3) distinct_delete)
  moreover have "map_keys ob' = map_keys ob - {canon k}"
    using arg_cong [OF delete_keys [of "canon k" "map_alist ob"], of set] by (auto simp: map_keys_def r(3))
  moreover have b: "b \<longleftrightarrow> canon k \<in> map_keys ob" using r(1) by (simp add: map_keys_def map_of_eq_None_iff)
  moreover have fin: "finite (map_keys ob)" by (simp add: map_keys_def)
  moreover have "b \<Longrightarrow> 0 < card (map_keys ob)" using b fin by (auto simp: card_gt_0_iff)
  ultimately show ?thesis
    unfolding MapLen_keys [OF assms(1,2)] MapLen_keys [OF r(2) \<open>map_distinct ob'\<close>] by (cases b) simp_all
qed

text \<open>
  C15: The client's map methods implement a finite map up to \<^verbatim>\<open>operator==\<close>. Filling an object with any
  sequence of \<^verbatim>\<open>MapSet\<close> calls whose keys are well typed and free of NaN (and whose values are well typed) never throws;
  \<^verbatim>\<open>MapLen\<close> is then the number of different keys, \<^verbatim>\<open>MapGet\<close> finds the last value set for an equal key, \<^verbatim>\<open>MapRemove\<close> of
  such a key tells whether it was there, and afterwards that key is gone, every other such key answers as before, and
  \<^verbatim>\<open>MapLen\<close> is one less exactly when the key was there.
\<close>

theorem client_map_refines:
  assumes "pairs_good kvs" and "key_good k"
  shows "\<exists>ob ob'. MapSet_all kvs Object_default = Inr ob
    \<and> Object_MapLen ob = key_classes kvs
    \<and> Object_MapGet_const ob k = Inr (last_binding same kvs k)
    \<and> Object_MapRemove ob k = Inr (last_binding same kvs k \<noteq> None, ob')
    \<and> Object_MapLen ob' + of_bool (last_binding same kvs k \<noteq> None) = Object_MapLen ob
    \<and> Object_MapGet_const ob' k = Inr None
    \<and> (\<forall>k'. key_good k' \<and> \<not> same k k' \<longrightarrow> Object_MapGet_const ob' k' = Inr (last_binding same kvs k'))"
proof (cases "kvs = []")
  case True
  then show ?thesis
    by (simp add: Object_MapGet_const_def Object_MapRemove_def Object_default_def Object_MapLen_def key_classes_def)
next
  case False
  from MapSet_all_lookup [OF assms(1) this] obtain ob where ob: "MapSet_all kvs Object_default = Inr ob"
      "map_good ob" "\<And>k. key_good k \<Longrightarrow> map_lookup ob k = last_binding same kvs k"
    by blast
  have keys: "map_distinct ob" "Object_MapLen ob = key_classes kvs"
  proof -
    obtain k0 v0 rest where kvs: "kvs = (k0, v0) # rest" using False by (cases kvs) auto
    obtain ob1 where 1: "Object_MapSet Object_default k0 v0 = Inr (True, ob1)" "map_good ob1" "map_alist ob1 = [(canon k0, v0)]"
      using MapSet_refines [of Object_default k0 v0] assms(1) by (auto simp: kvs pairs_good_def ctor_defs)
    have "map_distinct ob1" "map_keys ob1 = {canon k0}" by (simp_all add: map_distinct_def map_keys_def 1(3))
    moreover have "MapSet_all rest ob1 = Inr ob" "pairs_good rest"
      using ob(1) 1(1) assms(1) by (simp_all add: kvs pairs_good_def)
    ultimately have "map_distinct ob" "map_keys ob = canon ` fst ` set kvs"
      using MapSet_all_keys [OF 1(2), of rest ob] by (simp_all add: kvs)
    then show "map_distinct ob" "Object_MapLen ob = key_classes kvs"
      using MapLen_keys [OF ob(2)] key_classes_canon [OF assms(1)] by simp_all
  qed
  obtain ok ob' m' where d: "map_del ob k \<lparr>outcomes = [], live = 0\<rparr> = (ok, ob', m')" by (metis prod_cases3)
  note L = client_map.del_law [OF ob(2) assms(2) d]
  obtain b where b: "Object_MapRemove ob k = Inr (b, ob')" "b = ok"
    using MapRemove_refines [OF ob(2) assms(2)] d by (auto simp: map_del_def)
  with ob L assms(2) keys MapRemove_keys [OF ob(2) keys(1) assms(2) b(1)] show ?thesis
    using client_map.eqv_refl [OF assms(2)] by (auto simp: map_lookup_good)
qed

theorem client_map_refines_witness:
  "\<exists>ob. MapSet_all [(Object_CreateStr [65], Object_CreateInt 1), (Object_CreateFloat 0, Object_CreateNil),
        (Object_CreateFloat 0x80000000, Object_CreateBool True)] Object_default = Inr ob
     \<and> Object_MapGet_const ob (Object_CreateFloat 0) = Inr (Some (Object_CreateBool True))"
  using client_map_refines [of "[(Object_CreateStr [65], Object_CreateInt 1), (Object_CreateFloat 0, Object_CreateNil),
        (Object_CreateFloat 0x80000000, Object_CreateBool True)]" "Object_CreateFloat 0"]
  by (auto simp: pairs_good_def key_good_def ctor_defs float_nan_def same_def get_both_def get_defs float_eq_def)

subsection \<open>The methods keep objects well typed\<close>

text \<open>Preservation, method by method.\<close>

lemma typed_append: "obj_typed ob \<Longrightarrow> obj_typed x \<Longrightarrow> Object_ArrayAppend ob x = (ok, ob') \<Longrightarrow> obj_typed ob'"
  by (cases ob; cases "co_value ob") (auto simp: Object_ArrayAppend_def split: if_splits)

lemma typed_remove: "obj_typed ob \<Longrightarrow> Object_ArrayRemove ob i = (ok, ob') \<Longrightarrow> obj_typed ob'"
  by (cases ob; cases "co_value ob") (auto simp: Object_ArrayRemove_def split: if_splits)

lemma typed_array_get:
  assumes "obj_typed ob" "Object_ArrayGet ob i = Some (x, assign)"
  shows "obj_typed x \<and> (obj_typed y \<longrightarrow> obj_typed (assign y))"
  using assms
  by (cases ob; cases "co_value ob")
    (auto simp: Object_ArrayGet_def list_all_length nth_list_update split: if_splits)

lemma MapSet_loop_typed:
  "MapSet_loop es k v = Inr es' \<Longrightarrow> list_all entry_typed es \<Longrightarrow> obj_typed k \<Longrightarrow> obj_typed v \<Longrightarrow> list_all entry_typed es'"
  by (induction es arbitrary: es') (auto elim!: bindE_InrE simp: entry_typed_iff split: if_splits)

lemma remove_if_loop_typed:
  "remove_if_loop es k = Inr es' \<Longrightarrow> list_all entry_typed es \<Longrightarrow> list_all entry_typed es'"
  by (induction es arbitrary: es') (auto elim!: bindE_InrE split: if_splits)

lemma MapGet_loop_index:
  "MapGet_loop es k = Inr (Some (i, v)) \<Longrightarrow> i < length es \<and> v = entry_value (es ! i)"
  by (induction es arbitrary: i) (auto elim!: bindE_InrE split: if_splits)

lemma typed_set:
  assumes "obj_typed ob" "obj_typed k" "obj_typed v" "Object_MapSet ob k v = Inr (ok, ob')"
  shows "obj_typed ob'"
  using assms
  by (cases ob; cases "co_value ob")
    (auto simp: Object_MapSet_def split: if_splits elim!: bindE_InrE dest: MapSet_loop_typed)

lemma typed_unset: "obj_typed ob \<Longrightarrow> Object_MapRemove ob k = Inr (ok, ob') \<Longrightarrow> obj_typed ob'"
  using remove_if_loop_typed [of _ k]
  by (cases ob; cases "co_value ob") (auto simp: Object_MapRemove_def split: if_splits elim!: bindE_InrE)

lemma typed_map_get:
  assumes "obj_typed ob" "Object_MapGet ob k = Inr (Some (x, assign))"
  shows "obj_typed x \<and> (obj_typed y \<longrightarrow> obj_typed (assign y))"
  using assms
  by (cases ob; cases "co_value ob")
    (auto simp: Object_MapGet_def list_all_length nth_list_update entry_typed_iff
      elim!: bindE_InrE dest: MapGet_loop_index)

text \<open>Progress: no map method of a well-typed object throws for a well-typed key.\<close>

lemma map_loops_return:
  assumes "list_all entry_typed es" "obj_typed k"
  shows "\<exists>r. MapSet_loop es k v = Inr r" "\<exists>r. MapGet_loop es k = Inr r" "\<exists>r. remove_if_loop es k = Inr r"
  using assms
proof (induction es)
  case (Cons e es)
  { case 1
    with Cons eq_returns(1) [of "entry_key e" k] show ?case by (auto simp: entry_typed_iff)
  next
    case 2
    with Cons eq_returns(1) [of "entry_key e" k] show ?case by (auto simp: entry_typed_iff)
  next
    case 3
    with Cons eq_returns(1) [of "entry_key e" k] show ?case by (auto simp: entry_typed_iff) }
qed simp_all

lemma map_methods_return:
  assumes "obj_typed ob" "obj_typed k"
  shows "\<exists>r. Object_MapSet ob k v = Inr r" "\<exists>r. Object_MapGet ob k = Inr r"
    "\<exists>r. Object_MapGet_const ob k = Inr r" "\<exists>r. Object_MapRemove ob k = Inr r"
proof -
  have "(\<exists>r. Object_MapSet ob k v = Inr r) \<and> (\<exists>r. Object_MapGet ob k = Inr r)
      \<and> (\<exists>r. Object_MapGet_const ob k = Inr r) \<and> (\<exists>r. Object_MapRemove ob k = Inr r)"
  proof (cases "\<exists>es. co_value ob = alt_map es")
    case True
    then obtain es where es: "co_value ob = alt_map es" by blast
    note R = map_loops_return [OF typed_mapD [OF assms(1) es] assms(2)]
    obtain a b c d where "MapSet_loop es k v = Inr a" "MapSet_loop [] k v = Inr d" "MapGet_loop es k = Inr b"
        "remove_if_loop es k = Inr c"
      using R(1) [of v] R(2,3) by auto
    then show ?thesis
      by (auto simp: Object_MapSet_def Object_MapGet_def Object_MapGet_const_def Object_MapRemove_def es)
  next
    case False
    then show ?thesis
      by (auto simp: Object_MapSet_def Object_MapGet_def Object_MapGet_const_def Object_MapRemove_def Let_def
          split: ValueType.splits)
  qed
  then show "\<exists>r. Object_MapSet ob k v = Inr r" "\<exists>r. Object_MapGet ob k = Inr r"
    "\<exists>r. Object_MapGet_const ob k = Inr r" "\<exists>r. Object_MapRemove ob k = Inr r" by blast+
qed

text \<open>
  An object made by the constructor from a bare type, for a type other than \<^verbatim>\<open>Und\<close> and \<^verbatim>\<open>Nil\<close>, holds no
  value of that type: comparing it with itself throws \<^verbatim>\<open>std::bad_variant_access\<close>, and an array or map made
  this way refuses every \<^verbatim>\<open>ArrayAppend\<close> or \<^verbatim>\<open>MapSet\<close> and stays empty, although the same calls work on an
  object of any other type.
\<close>

theorem client_bare_type_unusable:
  assumes "t \<noteq> Ty_Und" "t \<noteq> Ty_Nil"
  shows "Object_eq (Object_of_type t) (Object_of_type t) = Inl Bad_variant_access
    \<and> Object_ArrayAppend (Object_of_type t) x =
      (if t = Ty_Array then (False, Object_of_type t) else (True, Object_of_array [x]))
    \<and> Object_MapSet (Object_of_type t) k v =
      Inr (if t = Ty_Map then (False, Object_of_type t) else (True, Object_of_map [ObjectMapEntry k v]))"
  using assms
  by (cases t) (simp_all add: ctor_defs get_both_def get_defs Object_ArrayAppend_def Object_MapSet_def)

theorem client_bare_type_unusable_witness:
  "Object_eq (Object_of_type Ty_Array) (Object_of_type Ty_Array) = Inl Bad_variant_access
   \<and> Object_ArrayAppend (Object_of_type Ty_Array) Object_CreateNil = (False, Object_of_type Ty_Array)
   \<and> Object_MapSet (Object_of_type Ty_Map) Object_CreateNil Object_CreateNil = Inr (False, Object_of_type Ty_Map)"
  using client_bare_type_unusable [of Ty_Array] client_bare_type_unusable [of Ty_Map] by simp

end
