(* ===== verification/Mpack_Writer.thy ===== *)
theory Mpack_Writer
  imports MsgPack_Spec
begin

text \<open>
  The MPack writer (\<^verbatim>\<open>third_party/mpack/mpack-writer.c\<close>): the buffer with its flush function,
  the growable writer the marshalling code uses, and the write functions. Writers made by Haze
  never use the builder, so \<^verbatim>\<open>builder.current_build\<close> is always \<^verbatim>\<open>NULL\<close> and the builder branches
  are left out; the tracking calls are empty in this configuration.
\<close>

unbundle bit_operations_syntax

subsection \<open>The writer\<close>

datatype writer_fn = No_fn | Growable_fn

text \<open>
  \<open>w_buffer\<close> holds the contents of the buffer, \<open>w_used\<close> is \<^verbatim>\<open>position - buffer\<close> and \<open>w_size\<close> is
  \<^verbatim>\<open>end - buffer\<close>.
\<close>

record mpack_writer =
  w_buffer :: "byte list"
  w_used :: nat
  w_size :: nat
  w_flush :: writer_fn
  w_teardown :: writer_fn
  w_error :: mpack_error

definition mpack_writer_buffer_left :: "mpack_writer \<Rightarrow> nat" where
  "mpack_writer_buffer_left w = w_size w - w_used w"

text \<open>\<^verbatim>\<open>memcpy\<close> to the current position, then advancing it.\<close>

definition mpack_put :: "mpack_writer \<Rightarrow> byte list \<Rightarrow> mpack_writer" where
  "mpack_put w bs =
     w\<lparr>w_buffer := take (w_used w) (w_buffer w) @ bs @ drop (w_used w + length bs) (w_buffer w),
       w_used := w_used w + length bs\<rparr>"

definition mpack_writer_flag_error :: "mpack_writer \<Rightarrow> mpack_error \<Rightarrow> mpack_writer" where
  "mpack_writer_flag_error w e = (if w_error w = mpack_ok then w\<lparr>w_error := e\<rparr> else w)"

definition mpack_writer_init :: "nat \<Rightarrow> mpack_writer" where
  "mpack_writer_init buf_size =
     \<lparr>w_buffer = [], w_used = 0, w_size = buf_size, w_flush = No_fn, w_teardown = No_fn,
      w_error = mpack_ok\<rparr>"

definition mpack_writer_init_error :: "mpack_error \<Rightarrow> mpack_writer" where
  "mpack_writer_init_error e =
     \<lparr>w_buffer = [], w_used = 0, w_size = 0, w_flush = No_fn, w_teardown = No_fn, w_error = e\<rparr>"

definition MPACK_BUFFER_SIZE :: nat where
  "MPACK_BUFFER_SIZE = 4096"

definition MPACK_WRITER_MINIMUM_BUFFER_SIZE :: nat where
  "MPACK_WRITER_MINIMUM_BUFFER_SIZE = 32"

definition mpack_writer_set_flush :: "mpack_writer \<Rightarrow> writer_fn \<Rightarrow> mpack_writer" where
  "mpack_writer_set_flush w f =
     (if w_size w < MPACK_WRITER_MINIMUM_BUFFER_SIZE
      then mpack_writer_flag_error w mpack_error_bug
      else w\<lparr>w_flush := f\<rparr>)"

definition mpack_writer_init_growable :: "mem \<Rightarrow> mpack_writer \<times> mem" where
  "mpack_writer_init_growable m =
     (let (ok, m) = malloc m in
      if \<not> ok then (mpack_writer_init_error mpack_error_memory, m)
      else (let w = mpack_writer_init MPACK_BUFFER_SIZE;
                w = mpack_writer_set_flush w Growable_fn
            in (w\<lparr>w_teardown := Growable_fn\<rparr>, m)))"

subsection \<open>Growing the buffer\<close>

text \<open>
  The \<^verbatim>\<open>do { new_size *= 2 } while (new_size < needed)\<close> loop with its overflow check. A buffer of
  size 0 would keep the loop running for ever; \<open>0 < new_size\<close> is an invariant of growable writers
  (\<open>w_inv\<close> below) and the guard that makes the recursion well-founded.
\<close>

function mpack_grow_size :: "nat \<Rightarrow> nat \<Rightarrow> nat option" where
  "mpack_grow_size new_size needed =
     (if 2 ^ 64 \<le> new_size * 2 then None
      else if new_size * 2 < needed \<and> 0 < new_size then mpack_grow_size (new_size * 2) needed
      else Some (new_size * 2))"
  by pat_completeness auto
termination
  by (relation "measure (\<lambda>(n, _). 2 ^ 64 - n)") auto

declare mpack_grow_size.simps [simp del]

definition mpack_growable_writer_flush ::
  "mpack_writer \<Rightarrow> bool \<Rightarrow> byte list \<Rightarrow> mem \<Rightarrow> mpack_writer \<times> mem" where
  "mpack_growable_writer_flush w data_is_buffer data m =
     (if data_is_buffer \<and> w_used w = length data then (w, m)
      else
        let w = (if data_is_buffer then w\<lparr>w_used := length data\<rparr> else w);
            extra = (if data_is_buffer then [] else data);
            needed = w_used w + length extra
        in if 2 ^ 64 \<le> needed then (mpack_writer_flag_error w mpack_error_memory, m)
           else (case mpack_grow_size (w_size w) needed of
                   None \<Rightarrow> (mpack_writer_flag_error w mpack_error_memory, m)
                 | Some new_size \<Rightarrow>
                     (let (ok, m) = realloc (Some ()) m in
                      if \<not> ok then (mpack_writer_flag_error w mpack_error_memory, m)
                      else (mpack_put (w\<lparr>w_size := new_size\<rparr>) extra, m))))"

definition mpack_writer_call_flush ::
  "mpack_writer \<Rightarrow> bool \<Rightarrow> byte list \<Rightarrow> mem \<Rightarrow> mpack_writer \<times> mem" where
  "mpack_writer_call_flush w data_is_buffer data m =
     (case w_flush w of
        No_fn \<Rightarrow> (w, m)
      | Growable_fn \<Rightarrow> mpack_growable_writer_flush w data_is_buffer data m)"

definition mpack_writer_flush_unchecked :: "mpack_writer \<Rightarrow> mem \<Rightarrow> mpack_writer \<times> mem" where
  "mpack_writer_flush_unchecked w m =
     (let used = take (w_used w) (w_buffer w)
      in mpack_writer_call_flush (w\<lparr>w_used := 0\<rparr>) True used m)"

definition mpack_writer_ensure :: "mpack_writer \<Rightarrow> nat \<Rightarrow> mem \<Rightarrow> bool \<times> mpack_writer \<times> mem" where
  "mpack_writer_ensure w count m =
     (if w_error w \<noteq> mpack_ok then (False, w, m)
      else if w_flush w = No_fn then (False, mpack_writer_flag_error w mpack_error_too_big, m)
      else
        let (w, m) = mpack_writer_flush_unchecked w m
        in if w_error w \<noteq> mpack_ok then (False, w, m)
           else if count \<le> mpack_writer_buffer_left w then (True, w, m)
           else (False, mpack_writer_flag_error w mpack_error_io, m))"

definition mpack_write_native_straddle ::
  "mpack_writer \<Rightarrow> byte list \<Rightarrow> mem \<Rightarrow> mpack_writer \<times> mem" where
  "mpack_write_native_straddle w p m =
     (if w_error w \<noteq> mpack_ok then (w, m)
      else if w_flush w = No_fn then (mpack_writer_flag_error w mpack_error_too_big, m)
      else
        let (w, m) = mpack_writer_flush_unchecked w m
        in if w_error w \<noteq> mpack_ok then (w, m)
           else if mpack_writer_buffer_left w < length p then mpack_writer_call_flush w False p m
           else (mpack_put w p, m))"

definition mpack_write_native :: "mpack_writer \<Rightarrow> byte list \<Rightarrow> mem \<Rightarrow> mpack_writer \<times> mem" where
  "mpack_write_native w p m =
     (if mpack_writer_buffer_left w < length p then mpack_write_native_straddle w p m
      else (mpack_put w p, m))"

definition mpack_growable_writer_teardown ::
  "mpack_writer \<Rightarrow> mem \<Rightarrow> mpack_writer \<times> byte list option \<times> mem" where
  "mpack_growable_writer_teardown w m =
     (if w_error w = mpack_ok then
        if w_used w < w_size w div 2 then
          (let (ok, m) = realloc (Some ()) m in
           if \<not> ok then (mpack_writer_flag_error w mpack_error_memory, None, free1 m)
           else (w\<lparr>w_size := w_used w\<rparr>, Some (take (w_used w) (w_buffer w)), m))
        else (w, Some (take (w_used w) (w_buffer w)), m)
      else (w, None, free1 m))"

text \<open>
  \<^verbatim>\<open>mpack_writer_destroy\<close>. The result is the writer's error and what the growable writer stores
  through its \<^verbatim>\<open>target_data\<close> pointer (\<open>None\<close>: the \<^verbatim>\<open>NULL\<close> it was initialised with).
\<close>

definition mpack_writer_destroy ::
  "mpack_writer \<Rightarrow> mem \<Rightarrow> mpack_error \<times> byte list option \<times> mem" where
  "mpack_writer_destroy w m =
     (let (w, m) =
            (if w_error w = mpack_ok \<and> w_used w \<noteq> 0 \<and> w_flush w \<noteq> No_fn then
               let (w, m) = mpack_writer_call_flush w True (take (w_used w) (w_buffer w)) m
               in (w\<lparr>w_flush := No_fn\<rparr>, m)
             else (w, m))
      in case w_teardown w of
           No_fn \<Rightarrow> (w_error w, None, m)
         | Growable_fn \<Rightarrow>
             (let (w, target, m) = mpack_growable_writer_teardown w m
              in (w_error w, target, m)))"

subsection \<open>Write functions\<close>

text \<open>The \<^verbatim>\<open>MPACK_WRITE_ENCODED\<close> macro: room for the encoded tag, or make room, or give up.\<close>

definition MPACK_WRITE_ENCODED :: "mpack_writer \<Rightarrow> byte list \<Rightarrow> mem \<Rightarrow> mpack_writer \<times> mem" where
  "MPACK_WRITE_ENCODED w bs m =
     (if length bs \<le> mpack_writer_buffer_left w then (mpack_put w bs, m)
      else (let (ok, w, m) = mpack_writer_ensure w (length bs) m
            in if ok then (mpack_put w bs, m) else (w, m)))"

definition mpack_write_byte_element :: "mpack_writer \<Rightarrow> byte \<Rightarrow> mem \<Rightarrow> mpack_writer \<times> mem" where
  "mpack_write_byte_element w value m =
     (if 1 \<le> mpack_writer_buffer_left w then (mpack_put w [value], m)
      else (let (ok, w, m) = mpack_writer_ensure w 1 m
            in if ok then (mpack_put w [value], m) else (w, m)))"

definition mpack_write_nil :: "mpack_writer \<Rightarrow> mem \<Rightarrow> mpack_writer \<times> mem" where
  "mpack_write_nil w m = mpack_write_byte_element w 0xc0 m"

definition mpack_write_bool :: "mpack_writer \<Rightarrow> bool \<Rightarrow> mem \<Rightarrow> mpack_writer \<times> mem" where
  "mpack_write_bool w value m = mpack_write_byte_element w (0xc2 OR (if value then 1 else 0)) m"

definition mpack_encode_fixuint :: "byte \<Rightarrow> byte list" where
  "mpack_encode_fixuint value = mpack_store_u8 value"

definition mpack_encode_u8 :: "byte \<Rightarrow> byte list" where
  "mpack_encode_u8 value = mpack_store_u8 0xcc @ mpack_store_u8 value"

definition mpack_encode_u16 :: "u16 \<Rightarrow> byte list" where
  "mpack_encode_u16 value = mpack_store_u8 0xcd @ mpack_store_u16 value"

definition mpack_encode_u32 :: "u32 \<Rightarrow> byte list" where
  "mpack_encode_u32 value = mpack_store_u8 0xce @ mpack_store_u32 value"

definition mpack_encode_u64 :: "u64 \<Rightarrow> byte list" where
  "mpack_encode_u64 value = mpack_store_u8 0xcf @ mpack_store_u64 value"

definition mpack_encode_fixint :: "byte \<Rightarrow> byte list" where
  "mpack_encode_fixint value = mpack_store_u8 value"

definition mpack_encode_i8 :: "byte \<Rightarrow> byte list" where
  "mpack_encode_i8 value = mpack_store_u8 0xd0 @ mpack_store_u8 value"

definition mpack_encode_i16 :: "u16 \<Rightarrow> byte list" where
  "mpack_encode_i16 value = mpack_store_u8 0xd1 @ mpack_store_u16 value"

definition mpack_encode_i32 :: "u32 \<Rightarrow> byte list" where
  "mpack_encode_i32 value = mpack_store_u8 0xd2 @ mpack_store_u32 value"

definition mpack_encode_i64 :: "u64 \<Rightarrow> byte list" where
  "mpack_encode_i64 value = mpack_store_u8 0xd3 @ mpack_store_u64 value"

definition mpack_encode_float :: "u32 \<Rightarrow> byte list" where
  "mpack_encode_float value = mpack_store_u8 0xca @ mpack_store_u32 value"

definition mpack_encode_double :: "u64 \<Rightarrow> byte list" where
  "mpack_encode_double value = mpack_store_u8 0xcb @ mpack_store_u64 value"

definition mpack_encode_fixarray :: "byte \<Rightarrow> byte list" where
  "mpack_encode_fixarray count = mpack_store_u8 (0x90 OR count)"

definition mpack_encode_array16 :: "u16 \<Rightarrow> byte list" where
  "mpack_encode_array16 count = mpack_store_u8 0xdc @ mpack_store_u16 count"

definition mpack_encode_array32 :: "u32 \<Rightarrow> byte list" where
  "mpack_encode_array32 count = mpack_store_u8 0xdd @ mpack_store_u32 count"

definition mpack_encode_fixmap :: "byte \<Rightarrow> byte list" where
  "mpack_encode_fixmap count = mpack_store_u8 (0x80 OR count)"

definition mpack_encode_map16 :: "u16 \<Rightarrow> byte list" where
  "mpack_encode_map16 count = mpack_store_u8 0xde @ mpack_store_u16 count"

definition mpack_encode_map32 :: "u32 \<Rightarrow> byte list" where
  "mpack_encode_map32 count = mpack_store_u8 0xdf @ mpack_store_u32 count"

definition mpack_encode_fixstr :: "byte \<Rightarrow> byte list" where
  "mpack_encode_fixstr count = mpack_store_u8 (0xa0 OR count)"

definition mpack_encode_str8 :: "byte \<Rightarrow> byte list" where
  "mpack_encode_str8 count = mpack_store_u8 0xd9 @ mpack_store_u8 count"

definition mpack_encode_str16 :: "u16 \<Rightarrow> byte list" where
  "mpack_encode_str16 count = mpack_store_u8 0xda @ mpack_store_u16 count"

definition mpack_encode_str32 :: "u32 \<Rightarrow> byte list" where
  "mpack_encode_str32 count = mpack_store_u8 0xdb @ mpack_store_u32 count"

definition mpack_encode_bin8 :: "byte \<Rightarrow> byte list" where
  "mpack_encode_bin8 count = mpack_store_u8 0xc4 @ mpack_store_u8 count"

definition mpack_encode_bin16 :: "u16 \<Rightarrow> byte list" where
  "mpack_encode_bin16 count = mpack_store_u8 0xc5 @ mpack_store_u16 count"

definition mpack_encode_bin32 :: "u32 \<Rightarrow> byte list" where
  "mpack_encode_bin32 count = mpack_store_u8 0xc6 @ mpack_store_u32 count"

definition mpack_write_u8 :: "mpack_writer \<Rightarrow> byte \<Rightarrow> mem \<Rightarrow> mpack_writer \<times> mem" where
  "mpack_write_u8 w value m =
     (if value \<le> 127 then MPACK_WRITE_ENCODED w (mpack_encode_fixuint value) m
      else MPACK_WRITE_ENCODED w (mpack_encode_u8 value) m)"

definition mpack_write_u16 :: "mpack_writer \<Rightarrow> u16 \<Rightarrow> mem \<Rightarrow> mpack_writer \<times> mem" where
  "mpack_write_u16 w value m =
     (if value \<le> 127 then MPACK_WRITE_ENCODED w (mpack_encode_fixuint (ucast value)) m
      else if value \<le> 255 then MPACK_WRITE_ENCODED w (mpack_encode_u8 (ucast value)) m
      else MPACK_WRITE_ENCODED w (mpack_encode_u16 value) m)"

definition mpack_write_u32 :: "mpack_writer \<Rightarrow> u32 \<Rightarrow> mem \<Rightarrow> mpack_writer \<times> mem" where
  "mpack_write_u32 w value m =
     (if value \<le> 127 then MPACK_WRITE_ENCODED w (mpack_encode_fixuint (ucast value)) m
      else if value \<le> 255 then MPACK_WRITE_ENCODED w (mpack_encode_u8 (ucast value)) m
      else if value \<le> 65535 then MPACK_WRITE_ENCODED w (mpack_encode_u16 (ucast value)) m
      else MPACK_WRITE_ENCODED w (mpack_encode_u32 value) m)"

definition mpack_write_u64 :: "mpack_writer \<Rightarrow> u64 \<Rightarrow> mem \<Rightarrow> mpack_writer \<times> mem" where
  "mpack_write_u64 w value m =
     (if value \<le> 127 then MPACK_WRITE_ENCODED w (mpack_encode_fixuint (ucast value)) m
      else if value \<le> 255 then MPACK_WRITE_ENCODED w (mpack_encode_u8 (ucast value)) m
      else if value \<le> 65535 then MPACK_WRITE_ENCODED w (mpack_encode_u16 (ucast value)) m
      else if value \<le> 4294967295 then MPACK_WRITE_ENCODED w (mpack_encode_u32 (ucast value)) m
      else MPACK_WRITE_ENCODED w (mpack_encode_u64 value) m)"

text \<open>\<^verbatim>\<open>mpack_write_i64\<close>: comparisons on the signed value, casts on its bits.\<close>

definition mpack_write_i64 :: "mpack_writer \<Rightarrow> u64 \<Rightarrow> mem \<Rightarrow> mpack_writer \<times> mem" where
  "mpack_write_i64 w value m =
     (if - 32 \<le> sint value then
        if sint value \<le> 127 then MPACK_WRITE_ENCODED w (mpack_encode_fixint (ucast value)) m
        else if sint value \<le> 255 then MPACK_WRITE_ENCODED w (mpack_encode_u8 (ucast value)) m
        else if sint value \<le> 65535 then MPACK_WRITE_ENCODED w (mpack_encode_u16 (ucast value)) m
        else if sint value \<le> 4294967295 then MPACK_WRITE_ENCODED w (mpack_encode_u32 (ucast value)) m
        else MPACK_WRITE_ENCODED w (mpack_encode_u64 value) m
      else if - 128 \<le> sint value then MPACK_WRITE_ENCODED w (mpack_encode_i8 (ucast value)) m
      else if - 32768 \<le> sint value then MPACK_WRITE_ENCODED w (mpack_encode_i16 (ucast value)) m
      else if - 2147483648 \<le> sint value then MPACK_WRITE_ENCODED w (mpack_encode_i32 (ucast value)) m
      else MPACK_WRITE_ENCODED w (mpack_encode_i64 value) m)"

definition mpack_write_int :: "mpack_writer \<Rightarrow> u64 \<Rightarrow> mem \<Rightarrow> mpack_writer \<times> mem" where
  "mpack_write_int w value m = mpack_write_i64 w value m"

definition mpack_write_uint :: "mpack_writer \<Rightarrow> u64 \<Rightarrow> mem \<Rightarrow> mpack_writer \<times> mem" where
  "mpack_write_uint w value m = mpack_write_u64 w value m"

definition mpack_write_float :: "mpack_writer \<Rightarrow> u32 \<Rightarrow> mem \<Rightarrow> mpack_writer \<times> mem" where
  "mpack_write_float w value m = MPACK_WRITE_ENCODED w (mpack_encode_float value) m"

definition mpack_write_double :: "mpack_writer \<Rightarrow> u64 \<Rightarrow> mem \<Rightarrow> mpack_writer \<times> mem" where
  "mpack_write_double w value m = MPACK_WRITE_ENCODED w (mpack_encode_double value) m"

definition mpack_write_array_notrack :: "mpack_writer \<Rightarrow> u32 \<Rightarrow> mem \<Rightarrow> mpack_writer \<times> mem" where
  "mpack_write_array_notrack w count m =
     (if count \<le> 15 then MPACK_WRITE_ENCODED w (mpack_encode_fixarray (ucast count)) m
      else if count \<le> 65535 then MPACK_WRITE_ENCODED w (mpack_encode_array16 (ucast count)) m
      else MPACK_WRITE_ENCODED w (mpack_encode_array32 count) m)"

definition mpack_write_map_notrack :: "mpack_writer \<Rightarrow> u32 \<Rightarrow> mem \<Rightarrow> mpack_writer \<times> mem" where
  "mpack_write_map_notrack w count m =
     (if count \<le> 15 then MPACK_WRITE_ENCODED w (mpack_encode_fixmap (ucast count)) m
      else if count \<le> 65535 then MPACK_WRITE_ENCODED w (mpack_encode_map16 (ucast count)) m
      else MPACK_WRITE_ENCODED w (mpack_encode_map32 count) m)"

definition mpack_start_array :: "mpack_writer \<Rightarrow> u32 \<Rightarrow> mem \<Rightarrow> mpack_writer \<times> mem" where
  "mpack_start_array w count m = mpack_write_array_notrack w count m"

definition mpack_start_map :: "mpack_writer \<Rightarrow> u32 \<Rightarrow> mem \<Rightarrow> mpack_writer \<times> mem" where
  "mpack_start_map w count m = mpack_write_map_notrack w count m"

definition mpack_start_bin_notrack :: "mpack_writer \<Rightarrow> u32 \<Rightarrow> mem \<Rightarrow> mpack_writer \<times> mem" where
  "mpack_start_bin_notrack w count m =
     (if count \<le> 255 then MPACK_WRITE_ENCODED w (mpack_encode_bin8 (ucast count)) m
      else if count \<le> 65535 then MPACK_WRITE_ENCODED w (mpack_encode_bin16 (ucast count)) m
      else MPACK_WRITE_ENCODED w (mpack_encode_bin32 count) m)"

text \<open>
  \<^verbatim>\<open>mpack_write_str\<close> and \<^verbatim>\<open>mpack_write_bin\<close>; \<open>data\<close> is the \<^verbatim>\<open>count\<close> bytes the pointer argument
  designates, so \<^verbatim>\<open>count\<close> is its length.
\<close>

definition mpack_write_str :: "mpack_writer \<Rightarrow> byte list \<Rightarrow> mem \<Rightarrow> mpack_writer \<times> mem" where
  "mpack_write_str w data m =
     (let count = to_u32 (length data) in
      if count \<le> 31 then
        (let size = length data + 1 in
         if size \<le> mpack_writer_buffer_left w
         then (mpack_put w (mpack_encode_fixstr (ucast count) @ data), m)
         else (let (ok, w, m) = mpack_writer_ensure w size m
               in if ok then (mpack_put w (mpack_encode_fixstr (ucast count) @ data), m)
                  else (w, m)))
      else if count \<le> 255 then
        (if length data + 2 \<le> mpack_writer_buffer_left w
         then (mpack_put w (mpack_encode_str8 (ucast count) @ data), m)
         else (let (w, m) = MPACK_WRITE_ENCODED w (mpack_encode_str8 (ucast count)) m
               in mpack_write_native w data m))
      else if count \<le> 65535 then
        (let (w, m) = MPACK_WRITE_ENCODED w (mpack_encode_str16 (ucast count)) m
         in mpack_write_native w data m)
      else
        (let (w, m) = MPACK_WRITE_ENCODED w (mpack_encode_str32 count) m
         in mpack_write_native w data m))"

definition mpack_write_bin :: "mpack_writer \<Rightarrow> byte list \<Rightarrow> mem \<Rightarrow> mpack_writer \<times> mem" where
  "mpack_write_bin w data m =
     (let (w, m) = mpack_start_bin_notrack w (to_u32 (length data)) m
      in mpack_write_native w data m)"

definition mpack_write_cstr :: "mpack_writer \<Rightarrow> byte list \<Rightarrow> mem \<Rightarrow> mpack_writer \<times> mem" where
  "mpack_write_cstr w s m =
     (let w = (if 4294967295 < length s then mpack_writer_flag_error w mpack_error_invalid else w)
      in mpack_write_str w (take (unat (to_u32 (length s))) s) m)"

subsection \<open>What a writer step promises\<close>

text \<open>The bytes written so far.\<close>

definition w_out :: "mpack_writer \<Rightarrow> byte list" where
  "w_out w = take (w_used w) (w_buffer w)"

definition w_inv :: "mpack_writer \<Rightarrow> bool" where
  "w_inv w \<longleftrightarrow> w_used w \<le> w_size w \<and> w_used w \<le> length (w_buffer w)
     \<and> (w_flush w = Growable_fn \<longrightarrow> MPACK_BUFFER_SIZE \<le> w_size w)"

text \<open>
  \<open>emitted bs w m w' m'\<close>: the contract of every write function. From a consistent writer the step
  leaves a consistent writer and no block behind; an error is sticky; if no error is flagged at the
  end then exactly \<open>bs\<close> was appended. A growable writer only fails when an allocation fails or the
  output would pass \<open>2 ^ 62\<close> bytes, and a writer on a fixed buffer fails, with
  \<^verbatim>\<open>mpack_error_too_big\<close>, exactly when \<open>bs\<close> does not fit.
\<close>

definition emitted ::
  "byte list \<Rightarrow> mpack_writer \<Rightarrow> mem \<Rightarrow> mpack_writer \<Rightarrow> mem \<Rightarrow> bool" where
  "emitted bs w m w' m' \<longleftrightarrow>
     (w_inv w \<longrightarrow>
        w_inv w' \<and> live m' = live m \<and> w_flush w' = w_flush w \<and> w_teardown w' = w_teardown w
      \<and> (w_flush w = No_fn \<longrightarrow> w_size w' = w_size w \<and> m' = m)
      \<and> (w_error w \<noteq> mpack_ok \<longrightarrow> w_error w' = w_error w)
      \<and> (w_error w' = mpack_ok \<longrightarrow> w_out w' = w_out w @ bs)
      \<and> (w_error w = mpack_ok \<and> w_flush w = Growable_fn \<and> nofail m
           \<and> w_used w + length bs \<le> 2 ^ 62 \<longrightarrow> w_error w' = mpack_ok \<and> m' = m)
      \<and> (w_error w = mpack_ok \<and> w_flush w = No_fn \<longrightarrow>
           w_error w' = (if w_used w + length bs \<le> w_size w then mpack_ok
                         else mpack_error_too_big)))"

lemma length_w_out [simp]: "w_inv w \<Longrightarrow> length (w_out w) = w_used w"
  by (simp add: w_inv_def w_out_def)

lemma w_out_put [simp]: "w_inv w \<Longrightarrow> w_out (mpack_put w bs) = w_out w @ bs"
  by (simp add: w_out_def mpack_put_def w_inv_def)

lemma put_sel [simp]:
  "w_used (mpack_put w bs) = w_used w + length bs"
  "w_size (mpack_put w bs) = w_size w"
  "w_flush (mpack_put w bs) = w_flush w"
  "w_teardown (mpack_put w bs) = w_teardown w"
  "w_error (mpack_put w bs) = w_error w"
  by (simp_all add: mpack_put_def)

lemma w_inv_put: "w_inv w \<Longrightarrow> length bs \<le> mpack_writer_buffer_left w \<Longrightarrow> w_inv (mpack_put w bs)"
  by (auto simp: w_inv_def mpack_put_def mpack_writer_buffer_left_def)

lemma flag_error_sel [simp]:
  "w_buffer (mpack_writer_flag_error w e) = w_buffer w"
  "w_used (mpack_writer_flag_error w e) = w_used w"
  "w_size (mpack_writer_flag_error w e) = w_size w"
  "w_flush (mpack_writer_flag_error w e) = w_flush w"
  "w_teardown (mpack_writer_flag_error w e) = w_teardown w"
  "w_inv (mpack_writer_flag_error w e) = w_inv w"
  "w_error (mpack_writer_flag_error w e) = (if w_error w = mpack_ok then e else w_error w)"
  by (simp_all add: mpack_writer_flag_error_def w_inv_def)

lemma emitted_refl: "emitted [] w m w m"
  by (simp add: emitted_def w_inv_def)

lemma emittedD:
  assumes "emitted bs w m w' m'" and "w_inv w"
  shows emitted_inv: "w_inv w'" and emitted_live: "live m' = live m"
    and emitted_flush: "w_flush w' = w_flush w"
    and emitted_teardown: "w_teardown w' = w_teardown w"
    and emitted_size: "w_flush w = No_fn \<Longrightarrow> w_size w' = w_size w \<and> m' = m"
    and emitted_sticky: "w_error w \<noteq> mpack_ok \<Longrightarrow> w_error w' = w_error w"
    and emitted_out: "w_error w' = mpack_ok \<Longrightarrow> w_out w' = w_out w @ bs"
    and emitted_grow:
      "w_error w = mpack_ok \<Longrightarrow> w_flush w = Growable_fn \<Longrightarrow> nofail m
         \<Longrightarrow> w_used w + length bs \<le> 2 ^ 62 \<Longrightarrow> w_error w' = mpack_ok \<and> m' = m"
    and emitted_fixed:
      "w_error w = mpack_ok \<Longrightarrow> w_flush w = No_fn
         \<Longrightarrow> w_error w' = (if w_used w + length bs \<le> w_size w then mpack_ok
                         else mpack_error_too_big)"
  using assms unfolding emitted_def by blast+

lemma emitted_used:
  assumes "emitted bs w m w' m'" and "w_inv w" and "w_error w' = mpack_ok"
  shows "w_used w' = w_used w + length bs"
  using emitted_out [OF assms] emitted_inv [OF assms(1,2)] assms(2)
  by (metis length_append length_w_out)

lemma emitted_trans [trans]:
  assumes 1: "emitted as w m w1 m1" and 2: "emitted bs w1 m1 w2 m2"
  shows "emitted (as @ bs) w m w2 m2"
  unfolding emitted_def
proof (intro impI conjI)
  assume inv: "w_inv w"
  note D1 = emittedD [OF 1 inv] and D2 = emittedD [OF 2 emitted_inv [OF 1 inv]]
  note used1 = emitted_used [OF 1 inv]
  show "w_inv w2" "live m2 = live m" "w_flush w2 = w_flush w" "w_teardown w2 = w_teardown w"
    using D1(1-4) D2(1-4) by simp_all
  show "w_size w2 = w_size w" "m2 = m" if "w_flush w = No_fn"
    using that D1(3,5) D2(5) by simp_all
  show "w_error w2 = w_error w" if "w_error w \<noteq> mpack_ok"
    using that D1(6) D2(6) by simp
  show "w_out w2 = w_out w @ as @ bs" if "w_error w2 = mpack_ok"
    using that D1(7) D2(6,7) by (cases "w_error w1 = mpack_ok") auto
  { assume "w_error w = mpack_ok \<and> w_flush w = Growable_fn \<and> nofail m
      \<and> w_used w + length (as @ bs) \<le> 2 ^ 62"
    then have h: "w_error w = mpack_ok" "w_flush w = Growable_fn" "nofail m"
      and len: "w_used w + length as + length bs \<le> 2 ^ 62"
      by simp_all
    from D1(8) [OF h] len have 3: "w_error w1 = mpack_ok" "m1 = m" by simp_all
    with D2(8) D1(3) h len used1 have "w_error w2 = mpack_ok \<and> m2 = m1" by simp
    with 3 show "w_error w2 = mpack_ok" "m2 = m" by simp_all }
  { assume "w_error w = mpack_ok \<and> w_flush w = No_fn"
    then have h: "w_error w = mpack_ok" "w_flush w = No_fn" by simp_all
    show "w_error w2 = (if w_used w + length (as @ bs) \<le> w_size w then mpack_ok
        else mpack_error_too_big)"
      using D1(9) [OF h] D2(9) D2(6) D1(3,5) h used1
      by (cases "w_error w1 = mpack_ok") (auto split: if_splits) }
qed

lemma emitted_put:
  assumes "length bs \<le> mpack_writer_buffer_left w"
  shows "emitted bs w m (mpack_put w bs) m"
  using assms w_inv_put [OF _ assms]
  by (auto simp: emitted_def mpack_writer_buffer_left_def) (auto simp: w_inv_def)

subsection \<open>Growing\<close>

lemma mpack_grow_size_ge:
  "mpack_grow_size s n = Some r \<Longrightarrow> 0 < s \<Longrightarrow> n \<le> r \<and> 2 * s \<le> r"
proof (induction s n rule: mpack_grow_size.induct)
  case (1 s n)
  then show ?case
    by (cases "2 ^ 64 \<le> s * 2"; cases "s * 2 < n") (auto simp: mpack_grow_size.simps [of s n])
qed

lemma mpack_grow_size_total:
  "s < 2 ^ 63 \<Longrightarrow> n \<le> 2 ^ 63 \<Longrightarrow> mpack_grow_size s n \<noteq> None"
proof (induction s n rule: mpack_grow_size.induct)
  case (1 s n)
  then show ?case
    by (cases "s * 2 < n") (auto simp: mpack_grow_size.simps [of s n])
qed

lemma put_Nil [simp]: "mpack_put w [] = w"
  by (simp add: mpack_put_def)

text \<open>The outcome of growing a buffer, seen from the writer that wants \<open>extra\<close> appended.\<close>

definition grow_step ::
  "mpack_writer \<Rightarrow> byte list \<Rightarrow> mem \<Rightarrow> mpack_writer \<times> mem" where
  "grow_step w extra m =
     (if 2 ^ 64 \<le> w_used w + length extra then (mpack_writer_flag_error w mpack_error_memory, m)
      else (case mpack_grow_size (w_size w) (w_used w + length extra) of
              None \<Rightarrow> (mpack_writer_flag_error w mpack_error_memory, m)
            | Some new_size \<Rightarrow>
                (let (ok, m) = realloc (Some ()) m in
                 if \<not> ok then (mpack_writer_flag_error w mpack_error_memory, m)
                 else (mpack_put (w\<lparr>w_size := new_size\<rparr>) extra, m))))"

lemma flush_unchecked_eq:
  assumes "w_inv w" and "w_flush w = Growable_fn"
  shows "mpack_writer_flush_unchecked w m = (if w_used w = 0 then (w, m) else grow_step w [] m)"
  using assms
  by (auto simp: mpack_writer_flush_unchecked_def mpack_writer_call_flush_def
      mpack_growable_writer_flush_def grow_step_def w_inv_def Let_def)

lemma call_flush_extra_eq:
  assumes "w_flush w = Growable_fn"
  shows "mpack_writer_call_flush w False p m = grow_step w p m"
  using assms
  by (auto simp: mpack_writer_call_flush_def mpack_growable_writer_flush_def grow_step_def Let_def)

lemma realloc_block_nofail: "nofail m \<Longrightarrow> realloc (Some p) m = (True, m)"
  by (simp add: realloc_nofail)

lemma grow_step_cases:
  assumes inv: "w_inv w" and fl: "w_flush w = Growable_fn" and ok: "w_error w = mpack_ok"
    and step: "grow_step w extra m = (w', m')"
  shows "live m' = live m"
    and "w_inv w'" and "w_flush w' = w_flush w" and "w_teardown w' = w_teardown w"
    and "w_error w' = mpack_ok \<Longrightarrow> w_out w' = w_out w @ extra \<and> 2 * w_size w \<le> w_size w'"
    and "nofail m \<Longrightarrow> w_size w < 2 ^ 63 \<Longrightarrow> w_used w + length extra \<le> 2 ^ 63
           \<Longrightarrow> w_error w' = mpack_ok \<and> m' = m"
proof -
  have pos: "0 < w_size w"
    using inv fl by (simp add: w_inv_def MPACK_BUFFER_SIZE_def)
  have big: "w_used w + length extra \<le> n \<and> 2 * w_size w \<le> n"
    if "mpack_grow_size (w_size w) (w_used w + length extra) = Some n" for n
    using mpack_grow_size_ge [OF that pos] .
  have put: "w_inv (mpack_put (w\<lparr>w_size := n\<rparr>) extra)"
      "w_out (mpack_put (w\<lparr>w_size := n\<rparr>) extra) = w_out w @ extra"
    if "mpack_grow_size (w_size w) (w_used w + length extra) = Some n" for n
    using big [OF that] inv by (auto simp: w_inv_def mpack_put_def w_out_def)
  show "live m' = live m"
    using step realloc_live [of "Some ()" m]
    by (auto simp: grow_step_def Let_def split: if_splits option.splits prod.splits)
  show "w_inv w'" "w_flush w' = w_flush w" "w_teardown w' = w_teardown w"
    using step put(1) inv
    by (auto simp: grow_step_def Let_def split: if_splits option.splits prod.splits)
  show "w_out w' = w_out w @ extra \<and> 2 * w_size w \<le> w_size w'" if "w_error w' = mpack_ok"
    using step put(2) big ok that
    by (auto simp: grow_step_def Let_def split: if_splits option.splits prod.splits)
  show "w_error w' = mpack_ok \<and> m' = m"
    if "nofail m" "w_size w < 2 ^ 63" "w_used w + length extra \<le> 2 ^ 63"
    using step ok that mpack_grow_size_total [OF that(2,3)]
    by (auto simp: grow_step_def Let_def realloc_block_nofail split: if_splits option.splits prod.splits)
qed

lemma emitted_failed:
  assumes "w_inv w \<Longrightarrow> w_inv w'" "m' = m" "w_flush w' = w_flush w"
    and "w_teardown w' = w_teardown w" "w_size w' = w_size w"
    and "w_error w' = (if w_error w = mpack_ok then e else w_error w)" "e \<noteq> mpack_ok"
    and "w_inv w \<Longrightarrow> w_error w = mpack_ok \<Longrightarrow> w_flush w = Growable_fn \<Longrightarrow> nofail m
           \<Longrightarrow> 2 ^ 62 < w_used w + length bs"
    and "w_inv w \<Longrightarrow> w_error w = mpack_ok \<Longrightarrow> w_flush w = No_fn
           \<Longrightarrow> e = mpack_error_too_big \<and> w_size w < w_used w + length bs"
  shows "emitted bs w m w' m'"
  using assms unfolding emitted_def by (cases "w_flush w") (auto split: if_splits)

lemma emitted_ensure_put:
  assumes left: "mpack_writer_buffer_left w < length bs" and len: "length bs \<le> 32"
    and ens: "mpack_writer_ensure w (length bs) m = (ok, w1, m1)"
  shows "emitted bs w m (if ok then mpack_put w1 bs else w1) m1"
proof (cases "w_inv w")
  case inv: True
  consider (err) "w_error w \<noteq> mpack_ok"
    | (fixed) "w_error w = mpack_ok" "w_flush w = No_fn"
    | (growable) "w_error w = mpack_ok" "w_flush w = Growable_fn"
    by (cases "w_flush w") auto
  then show ?thesis
  proof cases
    case err
    with ens show ?thesis
      by (auto simp: mpack_writer_ensure_def intro: emitted_failed [where e = mpack_error_bug])
  next
    case fixed
    with ens left inv show ?thesis
      by (auto simp: mpack_writer_ensure_def mpack_writer_buffer_left_def w_inv_def
          intro!: emitted_failed [where e = mpack_error_too_big])
  next
    case growable
    have size: "4096 \<le> w_size w" "w_used w \<le> w_size w"
      using inv growable by (simp_all add: w_inv_def MPACK_BUFFER_SIZE_def)
    with left len have used: "w_used w \<noteq> 0"
      by (auto simp: mpack_writer_buffer_left_def)
    obtain w2 m2 where g: "grow_step w [] m = (w2, m2)" by fastforce
    note G = grow_step_cases [OF inv growable(2,1) g]
    have small: "w_size w < 2 ^ 63 \<and> w_used w \<le> 2 ^ 63" if "w_used w + length bs \<le> 2 ^ 62"
      using that left size by (auto simp: mpack_writer_buffer_left_def)
    show ?thesis
    proof (cases "w_error w2 = mpack_ok")
      case True
      with G(5) have out: "w_out w2 = w_out w" and big: "2 * w_size w \<le> w_size w2" by simp_all
      from out G(2) inv have used2: "w_used w2 = w_used w" by (metis length_w_out)
      have room: "length bs \<le> mpack_writer_buffer_left w2"
        using big size used2 len by (simp add: mpack_writer_buffer_left_def)
      have "emitted bs w m (mpack_put w2 bs) m2"
        using G out growable small True w_inv_put [OF G(2) room] by (auto simp: emitted_def)
      moreover have "ok" "w1 = w2" "m1 = m2"
        using ens growable used room True g
        by (simp_all add: mpack_writer_ensure_def flush_unchecked_eq [OF inv] Let_def)
      ultimately show ?thesis by simp
    next
      case False
      have "\<not> ok" "w1 = w2" "m1 = m2"
        using ens growable used False g
        by (simp_all add: mpack_writer_ensure_def flush_unchecked_eq [OF inv] Let_def)
      moreover have "emitted bs w m w2 m2"
        using G growable small False by (auto simp: emitted_def)
      ultimately show ?thesis by simp
    qed
  qed
next
  case False
  then show ?thesis by (simp add: emitted_def)
qed

lemma emitted_encoded:
  assumes "length bs \<le> 32" and "MPACK_WRITE_ENCODED w bs m = (w', m')"
  shows "emitted bs w m w' m'"
proof (cases "length bs \<le> mpack_writer_buffer_left w")
  case True
  with assms(2) show ?thesis by (auto simp: MPACK_WRITE_ENCODED_def intro: emitted_put)
next
  case False
  obtain ok w1 m1 where e: "mpack_writer_ensure w (length bs) m = (ok, w1, m1)"
    by (metis prod_cases3)
  with assms(2) False have "w' = (if ok then mpack_put w1 bs else w1)" "m' = m1"
    by (auto simp: MPACK_WRITE_ENCODED_def split: if_splits)
  with emitted_ensure_put [OF _ assms(1) e] False show ?thesis by simp
qed

lemma emitted_straddle:
  assumes left: "mpack_writer_buffer_left w < length p"
    and step: "mpack_write_native_straddle w p m = (w', m')"
  shows "emitted p w m w' m'"
proof (cases "w_inv w")
  case inv: True
  consider (err) "w_error w \<noteq> mpack_ok"
    | (fixed) "w_error w = mpack_ok" "w_flush w = No_fn"
    | (growable) "w_error w = mpack_ok" "w_flush w = Growable_fn"
    by (cases "w_flush w") auto
  then show ?thesis
  proof cases
    case err
    with step show ?thesis
      by (auto simp: mpack_write_native_straddle_def intro: emitted_failed [where e = mpack_error_bug])
  next
    case fixed
    with step left inv show ?thesis
      by (auto simp: mpack_write_native_straddle_def mpack_writer_buffer_left_def w_inv_def
          intro!: emitted_failed [where e = mpack_error_too_big])
  next
    case growable
    obtain w1 m1 where f: "mpack_writer_flush_unchecked w m = (w1, m1)" by fastforce
    have small: "w_size w < 2 ^ 62 \<and> w_used w \<le> 2 ^ 62" if "w_used w + length p \<le> 2 ^ 62"
      using that left by (auto simp: mpack_writer_buffer_left_def)
    have F: "live m1 = live m" "w_inv w1" "w_flush w1 = w_flush w" "w_teardown w1 = w_teardown w"
        "w_error w1 = mpack_ok \<Longrightarrow> w_out w1 = w_out w"
        "nofail m \<Longrightarrow> w_used w + length p \<le> 2 ^ 62
           \<Longrightarrow> w_error w1 = mpack_ok \<and> m1 = m"
      using f growable inv small grow_step_cases [OF inv growable(2,1)]
      by (auto simp: flush_unchecked_eq split: if_splits)
    have used1: "w_used w1 = w_used w" if "w_error w1 = mpack_ok"
      using F(2) F(5) [OF that] inv by (metis length_w_out)
    consider (fail) "w_error w1 \<noteq> mpack_ok"
      | (extra) "w_error w1 = mpack_ok" "mpack_writer_buffer_left w1 < length p"
      | (room) "w_error w1 = mpack_ok" "length p \<le> mpack_writer_buffer_left w1"
      by fastforce
    then show ?thesis
    proof cases
      case fail
      with step f growable have "w' = w1" "m' = m1"
        by (simp_all add: mpack_write_native_straddle_def)
      with fail F growable show ?thesis by (auto simp: emitted_def)
    next
      case extra
      have "grow_step w1 p m1 = (w', m')"
        using step f growable extra F(3)
        by (simp add: mpack_write_native_straddle_def call_flush_extra_eq)
      note G = grow_step_cases [OF F(2) _ extra(1) this]
      have "w_size w1 < 2 ^ 63 \<and> w_used w1 + length p \<le> 2 ^ 63"
        if "w_used w + length p \<le> 2 ^ 62"
        using that extra(2) used1 [OF extra(1)] by (auto simp: mpack_writer_buffer_left_def)
      with F G extra(1) growable show ?thesis by (auto simp: emitted_def)
    next
      case room
      with step f growable have "w' = mpack_put w1 p" "m' = m1"
        by (simp_all add: mpack_write_native_straddle_def)
      with room F growable w_inv_put [OF F(2) room(2)] show ?thesis by (auto simp: emitted_def)
    qed
  qed
next
  case False
  then show ?thesis by (simp add: emitted_def)
qed

lemma emitted_native:
  assumes "mpack_write_native w p m = (w', m')"
  shows "emitted p w m w' m'"
  using assms emitted_straddle [of w p m w' m'] emitted_put [of p w m]
  by (auto simp: mpack_write_native_def not_less split: if_splits)

subsection \<open>The write functions emit the specified encoding\<close>

lemmas encode_defs =
  mpack_encode_fixuint_def mpack_encode_u8_def mpack_encode_u16_def mpack_encode_u32_def
  mpack_encode_u64_def mpack_encode_fixint_def mpack_encode_i8_def mpack_encode_i16_def
  mpack_encode_i32_def mpack_encode_i64_def mpack_encode_float_def mpack_encode_double_def
  mpack_encode_fixarray_def mpack_encode_array16_def mpack_encode_array32_def
  mpack_encode_fixmap_def mpack_encode_map16_def mpack_encode_map32_def
  mpack_encode_fixstr_def mpack_encode_str8_def mpack_encode_str16_def mpack_encode_str32_def
  mpack_encode_bin8_def mpack_encode_bin16_def mpack_encode_bin32_def

lemma store_u8_eq: "mpack_store_u8 v = [v]"
  by (simp add: mpack_store_u8_def)

lemma scast_narrow:
  assumes "LENGTH('b) \<le> LENGTH('a)"
  shows "(scast v :: 'b::len word) = ucast (v :: 'a::len word)"
  using assms by (intro bit_word_eqI) (auto simp: bit_simps)

lemma uint_bounds:
  "uint (v8 :: byte) \<le> 255" "uint (v16 :: u16) \<le> 65535" "uint (v32 :: u32) \<le> 4294967295"
  using uint_lt2p [of v8] uint_lt2p [of v16] uint_lt2p [of v32] by simp_all

lemma byte_element_eq: "mpack_write_byte_element w b m = MPACK_WRITE_ENCODED w [b] m"
  by (simp add: mpack_write_byte_element_def MPACK_WRITE_ENCODED_def)

lemma emitted_nil: "mpack_write_nil w m = (w', m') \<Longrightarrow> emitted (enc MNil) w m w' m'"
  by (rule emitted_encoded) (simp_all add: mpack_write_nil_def byte_element_eq)

lemma emitted_bool: "mpack_write_bool w b m = (w', m') \<Longrightarrow> emitted (enc (MBool b)) w m w' m'"
  by (rule emitted_encoded) (auto simp: mpack_write_bool_def byte_element_eq)

lemma emitted_float: "mpack_write_float w f m = (w', m') \<Longrightarrow> emitted (enc (MFloat f)) w m w' m'"
  by (rule emitted_encoded) (simp_all add: mpack_write_float_def encode_defs store_u8_eq)

lemma emitted_double: "mpack_write_double w d m = (w', m') \<Longrightarrow> emitted (enc (MDouble d)) w m w' m'"
  by (rule emitted_encoded) (simp_all add: mpack_write_double_def encode_defs store_u8_eq)

lemma length_enc_int: "length (enc_int i) \<le> 32"
  by (simp add: enc_int_def)

lemma emitted_u8: "mpack_write_u8 w v m = (w', m') \<Longrightarrow> emitted (enc (MInt (uint v))) w m w' m'"
  by (rule emitted_encoded)
    (auto simp: length_enc_int mpack_write_u8_def enc_int_def encode_defs store_u8_eq word_le_def
      uint_bounds split: if_splits)

lemma emitted_u16: "mpack_write_u16 w v m = (w', m') \<Longrightarrow> emitted (enc (MInt (uint v))) w m w' m'"
  by (rule emitted_encoded)
    (auto simp: length_enc_int mpack_write_u16_def enc_int_def encode_defs store_u8_eq word_le_def
      order_trans [OF uint_bounds(1)] order_trans [OF uint_bounds(2)] order_trans [OF uint_bounds(3)] split: if_splits)

lemma emitted_u32: "mpack_write_u32 w v m = (w', m') \<Longrightarrow> emitted (enc (MInt (uint v))) w m w' m'"
  by (rule emitted_encoded)
    (auto simp: length_enc_int mpack_write_u32_def enc_int_def encode_defs store_u8_eq word_le_def
      order_trans [OF uint_bounds(1)] order_trans [OF uint_bounds(2)] order_trans [OF uint_bounds(3)] split: if_splits)

lemma emitted_u64: "mpack_write_u64 w v m = (w', m') \<Longrightarrow> emitted (enc (MInt (uint v))) w m w' m'"
  by (rule emitted_encoded)
    (auto simp: length_enc_int mpack_write_u64_def enc_int_def encode_defs store_u8_eq word_le_def
      order_trans [OF uint_bounds(1)] order_trans [OF uint_bounds(2)] order_trans [OF uint_bounds(3)] split: if_splits)

lemma emitted_i64: "mpack_write_i64 w v m = (w', m') \<Longrightarrow> emitted (enc (MInt (sint v))) w m w' m'"
  by (rule emitted_encoded)
    (auto simp: length_enc_int mpack_write_i64_def enc_int_def encode_defs store_u8_eq
      scast_narrow split: if_splits)

lemma emitted_array:
  "mpack_start_array w n m = (w', m') \<Longrightarrow> emitted (enc_arr_head (unat n)) w m w' m'"
  by (rule emitted_encoded)
    (auto simp: mpack_start_array_def mpack_write_array_notrack_def enc_arr_head_def encode_defs
      store_u8_eq word_le_nat_alt split: if_splits)

lemma emitted_map:
  "mpack_start_map w n m = (w', m') \<Longrightarrow> emitted (enc_map_head (unat n)) w m w' m'"
  by (rule emitted_encoded)
    (auto simp: mpack_start_map_def mpack_write_map_notrack_def enc_map_head_def encode_defs
      store_u8_eq word_le_nat_alt split: if_splits)

lemma emitted_bin_head:
  "mpack_start_bin_notrack w n m = (w', m') \<Longrightarrow> emitted (enc_bin_head (unat n)) w m w' m'"
  by (rule emitted_encoded)
    (auto simp: mpack_start_bin_notrack_def enc_bin_head_def encode_defs
      store_u8_eq word_le_nat_alt split: if_splits)

lemma emitted_bin:
  assumes "mpack_write_bin w data m = (w', m')" and "length data < 2 ^ 32"
  shows "emitted (enc (MBin data)) w m w' m'"
proof -
  obtain w1 m1 where 1: "mpack_start_bin_notrack w (to_u32 (length data)) m = (w1, m1)"
    by fastforce
  with assms(1) have 2: "mpack_write_native w1 data m1 = (w', m')"
    by (simp add: mpack_write_bin_def)
  show ?thesis
    using emitted_trans [OF emitted_bin_head [OF 1] emitted_native [OF 2]] assms(2) by simp
qed

lemma u32_count:
  assumes "n < 2 ^ 32"
  shows "to_u32 n \<le> 31 \<longleftrightarrow> n \<le> 31" "to_u32 n \<le> 255 \<longleftrightarrow> n \<le> 255"
    and "to_u32 n \<le> 65535 \<longleftrightarrow> n \<le> 65535"
    and "(ucast (to_u32 n) :: byte) = of_nat n" "(ucast (to_u32 n) :: u16) = of_nat n"
  using assms by (simp_all add: word_le_nat_alt to_u32_def unat_of_nat unsigned_of_nat take_bit_nat_eq_self)

text \<open>A string is its head followed by its bytes, however the writer splits the two.\<close>

lemma emitted_head_native:
  assumes "length h \<le> 32" and "MPACK_WRITE_ENCODED w h m = (w1, m1)"
    and "mpack_write_native w1 data m1 = (w', m')"
  shows "emitted (h @ data) w m w' m'"
  using emitted_trans [OF emitted_encoded [OF assms(1,2)] emitted_native [OF assms(3)]] .

lemma length_enc_str_head: "length (enc_str_head n) \<le> 5"
  by (simp add: enc_str_head_def)

lemma emitted_str:
  assumes step: "mpack_write_str w data m = (w', m')" and len: "length data < 2 ^ 32"
  shows "emitted (enc (MStr data)) w m w' m'"
proof -
  let ?h = "enc_str_head (length data)"
  note u = u32_count [OF len]
  obtain w1 m1 where w1: "MPACK_WRITE_ENCODED w ?h m = (w1, m1)" by fastforce
  have whole: "emitted (?h @ data) w m (mpack_put w (?h @ data)) m"
    if "length (?h @ data) \<le> mpack_writer_buffer_left w"
    using that by (rule emitted_put)
  have split: "emitted (?h @ data) w m w' m'" if "mpack_write_native w1 data m1 = (w', m')"
    using emitted_head_native [OF _ w1 that] length_enc_str_head [of "length data"] by simp
  consider (fixstr) "length data \<le> 31" | (s8) "31 < length data" "length data \<le> 255"
    | (s16) "255 < length data" "length data \<le> 65535" | (s32) "65535 < length data"
    by linarith
  then have "emitted (?h @ data) w m w' m'"
  proof cases
    case fixstr
    then have h: "?h = mpack_encode_fixstr (of_nat (length data))"
      by (simp add: enc_str_head_def encode_defs store_u8_eq)
    have "MPACK_WRITE_ENCODED w (?h @ data) m = (w', m')"
      using step fixstr u
      by (simp add: mpack_write_str_def MPACK_WRITE_ENCODED_def h encode_defs Let_def
          split: if_splits prod.splits)
    then show ?thesis using fixstr by (intro emitted_encoded) (simp_all add: h encode_defs)
  next
    case s8
    then have h: "?h = mpack_encode_str8 (of_nat (length data))"
      by (simp add: enc_str_head_def encode_defs store_u8_eq)
    show ?thesis
    proof (cases "length data + 2 \<le> mpack_writer_buffer_left w")
      case True
      with step s8 u have "w' = mpack_put w (?h @ data)" "m' = m"
        by (simp_all add: mpack_write_str_def h)
      with True whole show ?thesis by (simp add: h encode_defs)
    next
      case False
      with step s8 u w1 show ?thesis by (intro split) (simp add: mpack_write_str_def h)
    qed
  next
    case s16
    then have "?h = mpack_encode_str16 (of_nat (length data))"
      by (simp add: enc_str_head_def encode_defs store_u8_eq)
    with step s16 u w1 show ?thesis by (intro split) (simp add: mpack_write_str_def)
  next
    case s32
    then have "?h = mpack_encode_str32 (to_u32 (length data))"
      by (simp add: enc_str_head_def encode_defs store_u8_eq to_u32_def)
    with step s32 u w1 show ?thesis by (intro split) (simp add: mpack_write_str_def)
  qed
  then show ?thesis by simp
qed

lemma emitted_cstr:
  assumes "mpack_write_cstr w s m = (w', m')" and "length s < 2 ^ 32"
  shows "emitted (enc (MStr s)) w m w' m'"
  using assms emitted_str [of w s m w' m'] by (simp add: mpack_write_cstr_def)

subsection \<open>A whole growable writer session\<close>

lemma init_growable:
  assumes "mpack_writer_init_growable m = (w, m')"
  shows "w_inv w" and "w_out w = []" and "w_used w = 0"
    and "w_error w = mpack_ok \<Longrightarrow>
           w_flush w = Growable_fn \<and> w_teardown w = Growable_fn \<and> live m' = live m + 1"
    and "w_error w \<noteq> mpack_ok \<Longrightarrow>
           w_flush w = No_fn \<and> w_teardown w = No_fn \<and> live m' = live m"
    and "nofail m \<Longrightarrow> w_error w = mpack_ok \<and> m' = mem_add 1 m"
proof -
  obtain ok m1 where ok: "malloc m = (ok, m1)" by fastforce
  have w: "w = (if ok then \<lparr>w_buffer = [], w_used = 0, w_size = 4096, w_flush = Growable_fn,
        w_teardown = Growable_fn, w_error = mpack_ok\<rparr>
      else mpack_writer_init_error mpack_error_memory)" and m': "m' = m1"
    using assms ok
    by (simp_all add: mpack_writer_init_growable_def mpack_writer_init_def
        mpack_writer_set_flush_def MPACK_BUFFER_SIZE_def MPACK_WRITER_MINIMUM_BUFFER_SIZE_def
        split: if_splits)
  show "w_inv w" "w_out w = []" "w_used w = 0"
    by (simp_all add: w w_inv_def w_out_def MPACK_BUFFER_SIZE_def mpack_writer_init_error_def)
  show "w_flush w = Growable_fn \<and> w_teardown w = Growable_fn \<and> live m' = live m + 1"
    if "w_error w = mpack_ok"
    using that malloc_live [OF ok] by (cases ok) (simp_all add: w m' mpack_writer_init_error_def)
  show "w_flush w = No_fn \<and> w_teardown w = No_fn \<and> live m' = live m" if "w_error w \<noteq> mpack_ok"
    using that malloc_live [OF ok] by (cases ok) (simp_all add: w m' mpack_writer_init_error_def)
  show "w_error w = mpack_ok \<and> m' = mem_add 1 m" if "nofail m"
    using ok that by (auto simp: w m' malloc_nofail)
qed

lemma destroy_growable:
  assumes inv: "w_inv w" and fl: "w_flush w = Growable_fn" "w_teardown w = Growable_fn"
    and d: "mpack_writer_destroy w m = (e, target, m')"
  shows "e = mpack_ok \<Longrightarrow> w_error w = mpack_ok \<and> target = Some (w_out w) \<and> live m' = live m"
    and "e \<noteq> mpack_ok \<Longrightarrow> target = None \<and> live m' = live m - 1"
    and "nofail m \<Longrightarrow> w_error w = mpack_ok \<Longrightarrow> e = mpack_ok \<and> m' = m"
    and "w_error w \<noteq> mpack_ok \<Longrightarrow> e = w_error w"
proof -
  have flush: "mpack_writer_call_flush w True (take (w_used w) (w_buffer w)) m = (w, m)"
    using inv fl by (auto simp: mpack_writer_call_flush_def mpack_growable_writer_flush_def w_inv_def)
  note defs = mpack_writer_destroy_def mpack_growable_writer_teardown_def flush w_out_def Let_def
  show "e = mpack_ok \<Longrightarrow> w_error w = mpack_ok \<and> target = Some (w_out w) \<and> live m' = live m"
    and "e \<noteq> mpack_ok \<Longrightarrow> target = None \<and> live m' = live m - 1"
    using d fl realloc_live [of "Some ()" m] by (auto simp: defs split: if_splits prod.splits)
  show "nofail m \<Longrightarrow> w_error w = mpack_ok \<Longrightarrow> e = mpack_ok \<and> m' = m"
    and "w_error w \<noteq> mpack_ok \<Longrightarrow> e = w_error w"
    using d fl by (auto simp: defs realloc_block_nofail split: if_splits prod.splits)
qed

text \<open>
  Initialise a growable writer, write, destroy: either every byte written is handed over in one
  fresh block, or nothing is and no block stays behind; with an allocator that does not fail and
  less than \<open>2 ^ 62\<close> bytes it is the former.
\<close>

lemma growable_session:
  assumes init: "mpack_writer_init_growable m = (w0, m0)"
    and em: "emitted bs w0 m0 w1 m1"
    and d: "mpack_writer_destroy w1 m1 = (e, target, m2)"
  shows "e = mpack_ok \<Longrightarrow> target = Some bs \<and> live m2 = live m + 1"
    and "e \<noteq> mpack_ok \<Longrightarrow> target = None \<and> live m2 = live m"
    and "nofail m \<Longrightarrow> length bs \<le> 2 ^ 62 \<Longrightarrow> e = mpack_ok \<and> m2 = mem_add 1 m"
proof -
  note I = init_growable [OF init]
  note E = emittedD [OF em I(1)]
  have A: "(e = mpack_ok \<longrightarrow> target = Some bs \<and> live m2 = live m + 1) \<and>
      (e \<noteq> mpack_ok \<longrightarrow> target = None \<and> live m2 = live m)"
  proof (cases "w_error w0 = mpack_ok")
    case True
    then have fl: "w_flush w1 = Growable_fn" "w_teardown w1 = Growable_fn"
      using I(4) E(3,4) by simp_all
    show ?thesis
      using destroy_growable [OF E(1) fl d] I(2,4) E(2,7) True by auto
  next
    case False
    with I(5) E(3,4,6) have "w_flush w1 = No_fn" "w_teardown w1 = No_fn" "w_error w1 \<noteq> mpack_ok"
      by simp_all
    with d I(5) E(2) False show ?thesis by (auto simp: mpack_writer_destroy_def)
  qed
  then show "e = mpack_ok \<Longrightarrow> target = Some bs \<and> live m2 = live m + 1"
    and "e \<noteq> mpack_ok \<Longrightarrow> target = None \<and> live m2 = live m"
    by auto
  show "e = mpack_ok \<and> m2 = mem_add 1 m" if "nofail m" "length bs \<le> 2 ^ 62"
  proof -
    have 0: "w_error w0 = mpack_ok" "m0 = mem_add 1 m" "w_flush w0 = Growable_fn"
        "w_teardown w0 = Growable_fn"
      using I(4,6) that by auto
    then have 1: "w_error w1 = mpack_ok" "m1 = m0"
      using E(8) I(3) that by simp_all
    have fl: "w_flush w1 = Growable_fn" "w_teardown w1 = Growable_fn"
      using E(3,4) 0 by simp_all
    show ?thesis
      using destroy_growable(3) [OF E(1) fl d] 0 1 that by simp
  qed
qed

end
