(* ===== verification/Mpack_Reader.thy ===== *)
theory Mpack_Reader
  imports MsgPack_Spec
begin

text \<open>
  The MPack reader (\<^verbatim>\<open>third_party/mpack/mpack-reader.c\<close> and the expect functions of
  \<^verbatim>\<open>mpack-expect.c\<close> that Haze calls). Every reader of Haze is made by
  \<^verbatim>\<open>mpack_reader_init_data\<close>, so it has no fill, skip, error or teardown function and the branches
  for them are left out. \<open>r_data\<close> is the bytes between \<^verbatim>\<open>reader->data\<close> and \<^verbatim>\<open>reader->end\<close>.
\<close>

unbundle bit_operations_syntax

subsection \<open>The reader\<close>

record mpack_reader =
  r_data :: "byte list"
  r_error :: mpack_error

definition mpack_reader_init_data :: "byte list \<Rightarrow> mpack_reader" where
  "mpack_reader_init_data data = \<lparr>r_data = data, r_error = mpack_ok\<rparr>"

text \<open>Flagging an error also drops the unread bytes (\<^verbatim>\<open>reader->end = reader->data\<close>).\<close>

definition mpack_reader_flag_error :: "mpack_reader \<Rightarrow> mpack_error \<Rightarrow> mpack_reader" where
  "mpack_reader_flag_error r e =
     (if r_error r = mpack_ok then r\<lparr>r_error := e, r_data := []\<rparr> else r)"

definition mpack_reader_destroy :: "mpack_reader \<Rightarrow> mpack_error" where
  "mpack_reader_destroy r = r_error r"

definition mpack_reader_remaining :: "mpack_reader \<Rightarrow> nat" where
  "mpack_reader_remaining r = (if r_error r \<noteq> mpack_ok then 0 else length (r_data r))"

definition mpack_reader_ensure :: "mpack_reader \<Rightarrow> nat \<Rightarrow> bool \<times> mpack_reader" where
  "mpack_reader_ensure r count =
     (if count \<le> length (r_data r) then (True, r)
      else (False, mpack_reader_flag_error r mpack_error_invalid))"

text \<open>Reading bytes into a caller's buffer: on failure the buffer is zeroed.\<close>

definition mpack_read_native :: "mpack_reader \<Rightarrow> nat \<Rightarrow> byte list \<times> mpack_reader" where
  "mpack_read_native r count =
     (if length (r_data r) < count then
        if r_error r \<noteq> mpack_ok then (replicate count 0, r)
        else (replicate count 0, mpack_reader_flag_error r mpack_error_invalid)
      else (take count (r_data r), r\<lparr>r_data := drop count (r_data r)\<rparr>))"

definition mpack_read_bytes :: "mpack_reader \<Rightarrow> nat \<Rightarrow> byte list \<times> mpack_reader" where
  "mpack_read_bytes r count = mpack_read_native r count"

definition mpack_skip_bytes :: "mpack_reader \<Rightarrow> nat \<Rightarrow> mpack_reader" where
  "mpack_skip_bytes r count =
     (if r_error r \<noteq> mpack_ok then r
      else if count \<le> length (r_data r) then r\<lparr>r_data := drop count (r_data r)\<rparr>
      else mpack_reader_flag_error r mpack_error_invalid)"

definition mpack_read_bytes_inplace :: "mpack_reader \<Rightarrow> nat \<Rightarrow> byte list option \<times> mpack_reader" where
  "mpack_read_bytes_inplace r count =
     (if r_error r \<noteq> mpack_ok then (None, r)
      else if count \<le> length (r_data r)
        then (Some (take count (r_data r)), r\<lparr>r_data := drop count (r_data r)\<rparr>)
      else
        let (ok, r) = mpack_reader_ensure r count
        in if \<not> ok then (None, r)
           else (Some (take count (r_data r)), r\<lparr>r_data := drop count (r_data r)\<rparr>))"

text \<open>\<^verbatim>\<open>mpack_read_bytes_alloc_impl\<close> with \<^verbatim>\<open>null_terminated\<close> set, the only way Haze reaches it;
  the terminator is implicit in the C string returned.\<close>

definition mpack_read_bytes_alloc_impl ::
  "mpack_reader \<Rightarrow> nat \<Rightarrow> mem \<Rightarrow> byte list option \<times> mpack_reader \<times> mem" where
  "mpack_read_bytes_alloc_impl r count m =
     (if r_error r \<noteq> mpack_ok then (None, r, m)
      else if 2 ^ 64 \<le> count + 1 then (None, mpack_reader_flag_error r mpack_error_memory, m)
      else
        let (ok, m) = malloc m
        in if \<not> ok then (None, mpack_reader_flag_error r mpack_error_memory, m)
           else
             let (data, r) = mpack_read_native r count
             in if r_error r \<noteq> mpack_ok then (None, r, free1 m)
                else (Some data, r, m))"

subsection \<open>Tags\<close>

text \<open>
  One multi-byte case of \<^verbatim>\<open>mpack_parse_tag\<close>: make sure the whole tag is there, then load it. The
  first component of the result is the tag's size, 0 on failure.
\<close>

definition mpack_parse_field ::
  "mpack_reader \<Rightarrow> nat \<Rightarrow> (byte list \<Rightarrow> mpack_tag) \<Rightarrow> nat \<times> mpack_tag \<times> mpack_reader" where
  "mpack_parse_field r n load_tag =
     (let (ok, r) = mpack_reader_ensure r n
      in if \<not> ok then (0, Tag_missing, r) else (n, load_tag (r_data r), r))"

definition mpack_parse_tag :: "mpack_reader \<Rightarrow> nat \<times> mpack_tag \<times> mpack_reader" where
  "mpack_parse_tag r =
     (let (ok, r) = mpack_reader_ensure r 1 in
      if \<not> ok then (0, Tag_missing, r)
      else
        let type = mpack_load_u8 (r_data r) in
        if type \<le> 0x7f then (1, Tag_uint (ucast type), r)
        else if 0xe0 \<le> type then (1, Tag_int (scast type), r)
        else if type \<le> 0x8f then (1, Tag_map (ucast (type AND NOT 0xf0)), r)
        else if type \<le> 0x9f then (1, Tag_array (ucast (type AND NOT 0xf0)), r)
        else if type \<le> 0xbf then (1, Tag_str (ucast (type AND NOT 0xe0)), r)
        else if type = 0xc0 then (1, Tag_nil, r)
        else if type = 0xc2 \<or> type = 0xc3 then (1, Tag_bool (type AND 1 \<noteq> 0), r)
        else if type = 0xc4 then
          mpack_parse_field r 2 (\<lambda>d. Tag_bin (ucast (mpack_load_u8 (drop 1 d))))
        else if type = 0xc5 then
          mpack_parse_field r 3 (\<lambda>d. Tag_bin (ucast (mpack_load_u16 (drop 1 d))))
        else if type = 0xc6 then
          mpack_parse_field r 5 (\<lambda>d. Tag_bin (mpack_load_u32 (drop 1 d)))
        else if type = 0xca then
          mpack_parse_field r 5 (\<lambda>d. Tag_float (mpack_load_u32 (drop 1 d)))
        else if type = 0xcb then
          mpack_parse_field r 9 (\<lambda>d. Tag_double (mpack_load_u64 (drop 1 d)))
        else if type = 0xcc then
          mpack_parse_field r 2 (\<lambda>d. Tag_uint (ucast (mpack_load_u8 (drop 1 d))))
        else if type = 0xcd then
          mpack_parse_field r 3 (\<lambda>d. Tag_uint (ucast (mpack_load_u16 (drop 1 d))))
        else if type = 0xce then
          mpack_parse_field r 5 (\<lambda>d. Tag_uint (ucast (mpack_load_u32 (drop 1 d))))
        else if type = 0xcf then
          mpack_parse_field r 9 (\<lambda>d. Tag_uint (mpack_load_u64 (drop 1 d)))
        else if type = 0xd0 then
          mpack_parse_field r 2 (\<lambda>d. Tag_int (scast (mpack_load_u8 (drop 1 d))))
        else if type = 0xd1 then
          mpack_parse_field r 3 (\<lambda>d. Tag_int (scast (mpack_load_u16 (drop 1 d))))
        else if type = 0xd2 then
          mpack_parse_field r 5 (\<lambda>d. Tag_int (scast (mpack_load_u32 (drop 1 d))))
        else if type = 0xd3 then
          mpack_parse_field r 9 (\<lambda>d. Tag_int (mpack_load_u64 (drop 1 d)))
        else if type = 0xd9 then
          mpack_parse_field r 2 (\<lambda>d. Tag_str (ucast (mpack_load_u8 (drop 1 d))))
        else if type = 0xda then
          mpack_parse_field r 3 (\<lambda>d. Tag_str (ucast (mpack_load_u16 (drop 1 d))))
        else if type = 0xdb then
          mpack_parse_field r 5 (\<lambda>d. Tag_str (mpack_load_u32 (drop 1 d)))
        else if type = 0xdc then
          mpack_parse_field r 3 (\<lambda>d. Tag_array (ucast (mpack_load_u16 (drop 1 d))))
        else if type = 0xdd then
          mpack_parse_field r 5 (\<lambda>d. Tag_array (mpack_load_u32 (drop 1 d)))
        else if type = 0xde then
          mpack_parse_field r 3 (\<lambda>d. Tag_map (ucast (mpack_load_u16 (drop 1 d))))
        else if type = 0xdf then
          mpack_parse_field r 5 (\<lambda>d. Tag_map (mpack_load_u32 (drop 1 d)))
        else if type = 0xc1 then
          (0, Tag_missing, mpack_reader_flag_error r mpack_error_invalid)
        else (0, Tag_missing, mpack_reader_flag_error r mpack_error_unsupported))"

definition mpack_read_tag :: "mpack_reader \<Rightarrow> mpack_tag \<times> mpack_reader" where
  "mpack_read_tag r =
     (if r_error r \<noteq> mpack_ok then (Tag_nil, r)
      else
        let (count, tag, r) = mpack_parse_tag r
        in if count = 0 then (Tag_nil, r)
           else (tag, r\<lparr>r_data := drop count (r_data r)\<rparr>))"

definition mpack_peek_tag :: "mpack_reader \<Rightarrow> mpack_tag \<times> mpack_reader" where
  "mpack_peek_tag r =
     (if r_error r \<noteq> mpack_ok then (Tag_nil, r)
      else
        let (count, tag, r) = mpack_parse_tag r
        in if count = 0 then (Tag_nil, r) else (tag, r))"

subsection \<open>General facts about reader steps\<close>

text \<open>
  What every reader step keeps: unread bytes never grow, an error is sticky, and an error leaves no
  unread bytes.
\<close>

definition r_inv :: "mpack_reader \<Rightarrow> bool" where
  "r_inv r \<longleftrightarrow> (r_error r \<noteq> mpack_ok \<longrightarrow> r_data r = [])"

definition r_step :: "mpack_reader \<Rightarrow> mpack_reader \<Rightarrow> bool" where
  "r_step r r' \<longleftrightarrow>
     (r_inv r \<longrightarrow> r_inv r') \<and> length (r_data r') \<le> length (r_data r)
   \<and> (r_error r \<noteq> mpack_ok \<longrightarrow> r_error r' = r_error r)"

lemma r_step_refl [simp]: "r_step r r"
  by (simp add: r_step_def)

lemma r_step_trans [trans]: "r_step a b \<Longrightarrow> r_step b c \<Longrightarrow> r_step a c"
  by (auto simp: r_step_def)

lemma r_step_flag [simp]: "r_step r (mpack_reader_flag_error r e)"
  by (auto simp: r_step_def mpack_reader_flag_error_def r_inv_def)

lemma flag_error_not_ok [simp]:
  "e \<noteq> mpack_ok \<Longrightarrow> r_error (mpack_reader_flag_error r e) \<noteq> mpack_ok"
  by (simp add: mpack_reader_flag_error_def)

lemma flag_error_errored [simp]:
  "r_error r \<noteq> mpack_ok \<Longrightarrow> mpack_reader_flag_error r e = r"
  by (simp add: mpack_reader_flag_error_def)

lemma r_inv_init [simp]: "r_inv (mpack_reader_init_data d)"
  by (simp add: r_inv_def mpack_reader_init_data_def)

lemma r_step_drop: "r_error r = mpack_ok \<Longrightarrow> r_step r (r\<lparr>r_data := drop n (r_data r)\<rparr>)"
  by (auto simp: r_step_def r_inv_def)

lemma r_step_native: "mpack_read_native r n = (bs, r') \<Longrightarrow> r_step r r' \<and> length bs = n"
  by (auto simp: mpack_read_native_def r_step_def r_inv_def mpack_reader_flag_error_def
      split: if_splits)

text \<open>What a tag parse may give: a tag with its size, all of it there, or a flagged error.\<close>

definition tag_res :: "mpack_reader \<Rightarrow> nat \<times> mpack_tag \<times> mpack_reader \<Rightarrow> bool" where
  "tag_res r x \<longleftrightarrow>
     (fst x = 0 \<longrightarrow> (\<exists>e. e \<noteq> mpack_ok \<and> snd (snd x) = mpack_reader_flag_error r e))
   \<and> (fst x \<noteq> 0 \<longrightarrow> snd (snd x) = r \<and> fst x \<le> length (r_data r))"

lemma tag_res_byte: "r_data r \<noteq> [] \<Longrightarrow> tag_res r (1, t, r)"
  by (cases "r_data r") (simp_all add: tag_res_def)

lemma tag_res_flag: "e \<noteq> mpack_ok \<Longrightarrow> tag_res r (0, t, mpack_reader_flag_error r e)"
  by (auto simp: tag_res_def)

lemma tag_res_field: "0 < k \<Longrightarrow> tag_res r (mpack_parse_field r k f)"
  by (auto simp: tag_res_def mpack_parse_field_def mpack_reader_ensure_def)

lemma tag_res_if: "tag_res r x \<Longrightarrow> tag_res r y \<Longrightarrow> tag_res r (if c then x else y)"
  by simp

lemma tag_res_parse: "tag_res r (mpack_parse_tag r)"
proof (cases "r_data r = []")
  case True
  then show ?thesis
    by (simp add: mpack_parse_tag_def mpack_reader_ensure_def tag_res_flag)
next
  case False
  then have "1 \<le> length (r_data r)" by (cases "r_data r") simp_all
  with False show ?thesis
    unfolding mpack_parse_tag_def mpack_reader_ensure_def Let_def
    by (simp only: if_True prod.case not_True_eq_False if_False)
      (intro tag_res_if tag_res_byte tag_res_field tag_res_flag; simp)
qed

lemma parse_tag_cases:
  assumes "mpack_parse_tag r = (n, t, r')"
  shows "(n = 0 \<longrightarrow> (\<exists>e. e \<noteq> mpack_ok \<and> r' = mpack_reader_flag_error r e))
       \<and> (n \<noteq> 0 \<longrightarrow> r' = r \<and> n \<le> length (r_data r))"
  using tag_res_parse [of r] assms by (simp add: tag_res_def)

lemma r_step_read_tag:
  assumes "mpack_read_tag r = (t, r')"
  shows "r_step r r'"
    and "r_error r' = mpack_ok \<Longrightarrow> r_error r = mpack_ok \<and> length (r_data r') < length (r_data r)"
    and "r_error r' \<noteq> mpack_ok \<Longrightarrow> t = Tag_nil"
  using assms parse_tag_cases [of r]
  by (auto simp: mpack_read_tag_def Let_def intro: r_step_drop split: if_splits prod.splits)

lemma peek_tag_cases:
  assumes "mpack_peek_tag r = (t, r')"
  shows "r' = r \<or> (\<exists>e. e \<noteq> mpack_ok \<and> r' = mpack_reader_flag_error r e \<and> t = Tag_nil)"
  using assms parse_tag_cases [of r]
  by (auto simp: mpack_peek_tag_def Let_def split: if_splits prod.splits)

subsection \<open>Reading back the specified encoding\<close>

abbreviation rd :: "byte list \<Rightarrow> mpack_reader" where
  "rd bs \<equiv> \<lparr>r_data = bs, r_error = mpack_ok\<rparr>"

lemma read_tag_byte:
  assumes "mpack_parse_tag (rd (b # rest)) = (1, t, rd (b # rest))"
  shows "mpack_read_tag (rd (b # rest)) = (t, rd rest)"
  using assms by (simp add: mpack_read_tag_def)

lemmas parse_defs = mpack_parse_tag_def mpack_parse_field_def mpack_reader_ensure_def
  mpack_load_u8_def Let_def

lemma read_tag_simple:
  "mpack_read_tag (rd (0xc0 # rest)) = (Tag_nil, rd rest)"
  "mpack_read_tag (rd (0xc2 # rest)) = (Tag_bool False, rd rest)"
  "mpack_read_tag (rd (0xc3 # rest)) = (Tag_bool True, rd rest)"
  "mpack_read_tag (rd (0xca # mpack_store_u32 f @ rest)) = (Tag_float f, rd rest)"
  "mpack_read_tag (rd (0xcb # mpack_store_u64 d @ rest)) = (Tag_double d, rd rest)"
  by (simp_all add: mpack_read_tag_def parse_defs)

lemma of_int_byte:
  "0 \<le> i \<Longrightarrow> i < 256 \<Longrightarrow> uint (of_int i :: byte) = i"
  by (simp add: uint_word_of_int_eq take_bit_int_eq_self)

lemma ucast_of_int:
  assumes "0 \<le> i" "i < 2 ^ LENGTH('a)"
  shows "(ucast (of_int i :: 'a::len word) :: 'b::len word) = of_int i"
  using assms by (simp add: unsigned_of_int take_bit_int_eq_self)

lemma scast_of_int:
  assumes "- (2 ^ (LENGTH('a) - 1)) \<le> i" "i < 2 ^ (LENGTH('a) - 1)"
  shows "(scast (of_int i :: 'a::len word) :: 'b::len word) = of_int i"
  using assms by (simp add: signed_of_int signed_take_bit_int_eq_self)

lemma read_tag_uint:
  assumes "0 \<le> i" "i < 2 ^ 64"
  shows "mpack_read_tag (rd (enc_int i @ rest)) = (Tag_uint (of_int i), rd rest)"
proof -
  consider "i \<le> 127" | "127 < i" "i \<le> 255" | "255 < i" "i \<le> 65535"
    | "65535 < i" "i \<le> 4294967295" | "4294967295 < i"
    by linarith
  then show ?thesis
    using assms
    by cases (simp_all add: enc_int_def mpack_read_tag_def parse_defs word_le_def of_int_byte
        ucast_of_int mpack_store_u8_def)
qed

lemma read_tag_int:
  assumes "i < 0" "- (2 ^ 63) \<le> i"
  shows "mpack_read_tag (rd (enc_int i @ rest)) = (Tag_int (of_int i), rd rest)"
proof -
  consider "- 32 \<le> i" | "- 128 \<le> i" "i < - 32" | "- 32768 \<le> i" "i < - 128"
    | "- 2147483648 \<le> i" "i < - 32768" | "i < - 2147483648"
    by linarith
  then show ?thesis
  proof cases
    case 1
    have "uint (of_int i :: byte) = i + 256"
      using 1 assms mod_pos_pos_trivial [of "i + 256" 256]
      by (simp add: uint_word_of_int_eq take_bit_eq_mod)
    with 1 assms show ?thesis
      by (simp add: enc_int_def mpack_read_tag_def parse_defs word_le_def scast_of_int)
  qed (use assms in \<open>simp_all add: enc_int_def mpack_read_tag_def parse_defs scast_of_int
      mpack_store_u8_def\<close>)
qed

text \<open>The heads of strings, binaries, arrays and maps.\<close>

lemma head_nibbles:
  "n \<le> 15 \<Longrightarrow> (ucast ((0x80 OR of_nat n :: byte) AND NOT 0xf0) :: u32) = of_nat n
     \<and> (0x80 OR of_nat n :: byte) \<le> 0x8f \<and> \<not> (0x80 OR of_nat n :: byte) \<le> 0x7f
     \<and> \<not> 0xe0 \<le> (0x80 OR of_nat n :: byte)"
  "n \<le> 15 \<Longrightarrow> (ucast ((0x90 OR of_nat n :: byte) AND NOT 0xf0) :: u32) = of_nat n
     \<and> (0x90 OR of_nat n :: byte) \<le> 0x9f \<and> \<not> (0x90 OR of_nat n :: byte) \<le> 0x8f
     \<and> \<not> (0x90 OR of_nat n :: byte) \<le> 0x7f \<and> \<not> 0xe0 \<le> (0x90 OR of_nat n :: byte)"
  by (simp only: le_eq_less_or_eq less_Suc_eq numeral_nat pred_numeral_simps
      less_nat_zero_code; elim disjE; simp)+

lemma head_str_nibble:
  "n \<le> 31 \<Longrightarrow> (ucast ((0xa0 OR of_nat n :: byte) AND NOT 0xe0) :: u32) = of_nat n
     \<and> (0xa0 OR of_nat n :: byte) \<le> 0xbf \<and> \<not> (0xa0 OR of_nat n :: byte) \<le> 0x9f
     \<and> \<not> (0xa0 OR of_nat n :: byte) \<le> 0x8f \<and> \<not> (0xa0 OR of_nat n :: byte) \<le> 0x7f
     \<and> \<not> 0xe0 \<le> (0xa0 OR of_nat n :: byte) \<and> drop_bit 5 (0xa0 OR of_nat n :: byte) = 5"
  by (simp only: le_eq_less_or_eq less_Suc_eq numeral_nat pred_numeral_simps
      less_nat_zero_code; elim disjE; simp)

lemma of_nat_small:
  "n < 2 ^ LENGTH('a) \<Longrightarrow> (ucast (of_nat n :: 'a::len word) :: 'b::len word) = of_nat n"
  by (simp add: unsigned_of_nat take_bit_nat_eq_self)

lemma read_tag_str_head:
  assumes "n < 2 ^ 32"
  shows "mpack_read_tag (rd (enc_str_head n @ rest)) = (Tag_str (of_nat n), rd rest)"
proof -
  consider "n \<le> 31" | "31 < n" "n \<le> 255" | "255 < n" "n \<le> 65535" | "65535 < n"
    by linarith
  then show ?thesis
    using assms head_str_nibble [of n]
    by cases (simp_all add: enc_str_head_def mpack_read_tag_def parse_defs mpack_store_u8_def
        of_nat_small)
qed

lemma read_tag_bin_head:
  assumes "n < 2 ^ 32"
  shows "mpack_read_tag (rd (enc_bin_head n @ rest)) = (Tag_bin (of_nat n), rd rest)"
proof -
  consider "n \<le> 255" | "255 < n" "n \<le> 65535" | "65535 < n"
    by linarith
  then show ?thesis
    using assms
    by cases (simp_all add: enc_bin_head_def mpack_read_tag_def parse_defs mpack_store_u8_def
        of_nat_small)
qed

lemma read_tag_arr_head:
  assumes "n < 2 ^ 32"
  shows "mpack_read_tag (rd (enc_arr_head n @ rest)) = (Tag_array (of_nat n), rd rest)"
proof -
  consider "n \<le> 15" | "15 < n" "n \<le> 65535" | "65535 < n"
    by linarith
  then show ?thesis
    using assms head_nibbles(2) [of n]
    by cases (simp_all add: enc_arr_head_def mpack_read_tag_def parse_defs of_nat_small)
qed

lemma read_tag_map_head:
  assumes "n < 2 ^ 32"
  shows "mpack_read_tag (rd (enc_map_head n @ rest)) = (Tag_map (of_nat n), rd rest)"
proof -
  consider "n \<le> 15" | "15 < n" "n \<le> 65535" | "65535 < n"
    by linarith
  then show ?thesis
    using assms head_nibbles(1) [of n]
    by cases (simp_all add: enc_map_head_def mpack_read_tag_def parse_defs of_nat_small)
qed

lemma read_native_append [simp]:
  "mpack_read_native (rd (s @ rest)) (length s) = (s, rd rest)"
  by (simp add: mpack_read_native_def)

lemma read_bytes_append [simp]:
  "mpack_read_bytes (rd (s @ rest)) (length s) = (s, rd rest)"
  by (simp add: mpack_read_bytes_def)

lemma read_bytes_inplace_append [simp]:
  "mpack_read_bytes_inplace (rd (s @ rest)) (length s) = (Some s, rd rest)"
  by (simp add: mpack_read_bytes_inplace_def)

lemma peek_tag_of_read:
  "mpack_read_tag (rd bs) = (t, rd rest) \<Longrightarrow> mpack_peek_tag (rd bs) = (t, rd bs)"
  using parse_tag_cases [of "rd bs"]
  by (auto simp: mpack_read_tag_def mpack_peek_tag_def mpack_reader_flag_error_def Let_def
      split: prod.splits if_splits)

end
