(* ===== verification/Mpack_Expect.thy ===== *)
theory Mpack_Expect
  imports Mpack_Reader
begin

text \<open>
  \<^verbatim>\<open>mpack_discard\<close> of \<^verbatim>\<open>mpack-reader.c\<close> and the expect functions of
  \<^verbatim>\<open>third_party/mpack/mpack-expect.c\<close> that Haze calls, with the lemmas that they read back the
  specified encoding and never move the reader backwards.
\<close>

unbundle bit_operations_syntax

subsection \<open>Discarding an element\<close>

text \<open>
  The loop keeps a count of the elements still to drop. Every successful tag read consumes at least
  one byte, which is the termination argument.
\<close>

lemma skip_bytes_length: "length (r_data (mpack_skip_bytes r n)) \<le> length (r_data r)"
  by (simp add: mpack_skip_bytes_def mpack_reader_flag_error_def)

lemma read_tag_shorter:
  "r_error (snd (mpack_read_tag r)) = mpack_ok \<Longrightarrow>
   length (r_data (snd (mpack_read_tag r))) < length (r_data r)"
  using r_step_read_tag(2) [of r "fst (mpack_read_tag r)" "snd (mpack_read_tag r)"] by simp

function mpack_discard_loop :: "nat \<Rightarrow> mpack_reader \<Rightarrow> mpack_reader" where
  "mpack_discard_loop remaining r =
     (if remaining = 0 then r
      else
        let remaining = remaining - 1; v = mpack_read_tag r; r' = snd v in
        if r_error r' \<noteq> mpack_ok then r'
        else (case fst v of
            Tag_str l \<Rightarrow>
              (let r'' = mpack_skip_bytes r' (unat l)
               in if r_error r'' \<noteq> mpack_ok then r'' else mpack_discard_loop remaining r'')
          | Tag_bin l \<Rightarrow>
              (let r'' = mpack_skip_bytes r' (unat l)
               in if r_error r'' \<noteq> mpack_ok then r'' else mpack_discard_loop remaining r'')
          | Tag_array n \<Rightarrow>
              (if 2 ^ 64 \<le> remaining + unat n then mpack_reader_flag_error r' mpack_error_too_big
               else mpack_discard_loop (remaining + unat n) r')
          | Tag_map n \<Rightarrow>
              (if 2 ^ 64 \<le> unat n * 2 \<or> 2 ^ 64 \<le> remaining + unat n * 2
               then mpack_reader_flag_error r' mpack_error_too_big
               else mpack_discard_loop (remaining + unat n * 2) r')
          | _ \<Rightarrow> mpack_discard_loop remaining r'))"
  by pat_completeness auto
termination
  by (relation "measure (\<lambda>(_, r). length (r_data r))")
    (auto intro: read_tag_shorter order.strict_trans1 [OF skip_bytes_length])

declare mpack_discard_loop.simps [simp del]

definition mpack_discard :: "mpack_reader \<Rightarrow> mpack_reader" where
  "mpack_discard r = mpack_discard_loop 1 r"

subsection \<open>Expect functions\<close>

definition mpack_expect_native_u8 :: "mpack_reader \<Rightarrow> byte \<times> mpack_reader" where
  "mpack_expect_native_u8 r =
     (if r_error r \<noteq> mpack_ok then (0, r)
      else
        let (ok, r) = mpack_reader_ensure r 1
        in if \<not> ok then (0, r)
           else (mpack_load_u8 (r_data r), r\<lparr>r_data := drop 1 (r_data r)\<rparr>))"

definition mpack_expect_native_u16 :: "mpack_reader \<Rightarrow> u16 \<times> mpack_reader" where
  "mpack_expect_native_u16 r =
     (if r_error r \<noteq> mpack_ok then (0, r)
      else
        let (ok, r) = mpack_reader_ensure r 2
        in if \<not> ok then (0, r)
           else (mpack_load_u16 (r_data r), r\<lparr>r_data := drop 2 (r_data r)\<rparr>))"

definition mpack_expect_native_u32 :: "mpack_reader \<Rightarrow> u32 \<times> mpack_reader" where
  "mpack_expect_native_u32 r =
     (if r_error r \<noteq> mpack_ok then (0, r)
      else
        let (ok, r) = mpack_reader_ensure r 4
        in if \<not> ok then (0, r)
           else (mpack_load_u32 (r_data r), r\<lparr>r_data := drop 4 (r_data r)\<rparr>))"

definition mpack_expect_type_byte :: "mpack_reader \<Rightarrow> byte \<times> mpack_reader" where
  "mpack_expect_type_byte r = mpack_expect_native_u8 r"

definition mpack_expect_u8 :: "mpack_reader \<Rightarrow> byte \<times> mpack_reader" where
  "mpack_expect_u8 r =
     (let (var, r) = mpack_read_tag r; fail = (0, mpack_reader_flag_error r mpack_error_type)
      in case var of
           Tag_uint u \<Rightarrow> if u \<le> 255 then (ucast u, r) else fail
         | Tag_int i \<Rightarrow> if 0 \<le> sint i \<and> sint i \<le> 255 then (ucast i, r) else fail
         | _ \<Rightarrow> fail)"

definition mpack_expect_u32 :: "mpack_reader \<Rightarrow> u32 \<times> mpack_reader" where
  "mpack_expect_u32 r =
     (let (var, r) = mpack_read_tag r; fail = (0, mpack_reader_flag_error r mpack_error_type)
      in case var of
           Tag_uint u \<Rightarrow> if u \<le> 0xFFFFFFFF then (ucast u, r) else fail
         | Tag_int i \<Rightarrow> if 0 \<le> sint i \<and> sint i \<le> 0xFFFFFFFF then (ucast i, r) else fail
         | _ \<Rightarrow> fail)"

definition mpack_expect_u64 :: "mpack_reader \<Rightarrow> u64 \<times> mpack_reader" where
  "mpack_expect_u64 r =
     (let (var, r) = mpack_read_tag r; fail = (0, mpack_reader_flag_error r mpack_error_type)
      in case var of
           Tag_uint u \<Rightarrow> (u, r)
         | Tag_int i \<Rightarrow> if 0 \<le> sint i then (i, r) else fail
         | _ \<Rightarrow> fail)"

definition mpack_expect_i64 :: "mpack_reader \<Rightarrow> u64 \<times> mpack_reader" where
  "mpack_expect_i64 r =
     (let (var, r) = mpack_read_tag r; fail = (0, mpack_reader_flag_error r mpack_error_type)
      in case var of
           Tag_uint u \<Rightarrow> if u \<le> 0x7FFFFFFFFFFFFFFF then (u, r) else fail
         | Tag_int i \<Rightarrow> (i, r)
         | _ \<Rightarrow> fail)"

definition mpack_expect_float_strict :: "mpack_reader \<Rightarrow> u32 \<times> mpack_reader" where
  "mpack_expect_float_strict r =
     (let (var, r) = mpack_read_tag r
      in case var of
           Tag_float f \<Rightarrow> (f, r)
         | _ \<Rightarrow> (0, mpack_reader_flag_error r mpack_error_type))"

text \<open>
  The conversion \<^verbatim>\<open>(double)f\<close> on bit patterns: sign, exponent and fraction are widened, a
  subnormal float becomes a normal double, a NaN stays a NaN and is made quiet.
\<close>

fun top_bit :: "nat \<Rightarrow> nat" where
  "top_bit n = (if n \<le> 1 then 0 else Suc (top_bit (n div 2)))"

declare top_bit.simps [simp del]

definition float_to_double :: "u32 \<Rightarrow> u64" where
  "float_to_double f =
     (let sign = push_bit 32 (ucast (f AND 0x80000000) :: u64);
          ex = unat (drop_bit 23 f AND 0xFF);
          frac = unat (f AND 0x7FFFFF)
      in if ex = 255 then
           sign OR 0x7FF0000000000000 OR
             (if frac = 0 then 0 else 0x8000000000000 OR of_nat (frac * 2 ^ 29))
         else if ex = 0 then
           (if frac = 0 then sign
            else let k = top_bit frac
                 in sign OR of_nat ((k + 874) * 2 ^ 52) OR of_nat ((frac - 2 ^ k) * 2 ^ (52 - k)))
         else sign OR of_nat ((ex + 896) * 2 ^ 52) OR of_nat (frac * 2 ^ 29))"

definition mpack_expect_double_strict :: "mpack_reader \<Rightarrow> u64 \<times> mpack_reader" where
  "mpack_expect_double_strict r =
     (let (var, r) = mpack_read_tag r
      in case var of
           Tag_float f \<Rightarrow> (float_to_double f, r)
         | Tag_double d \<Rightarrow> (d, r)
         | _ \<Rightarrow> (0, mpack_reader_flag_error r mpack_error_type))"

definition mpack_expect_uint_match :: "mpack_reader \<Rightarrow> u64 \<Rightarrow> mpack_reader" where
  "mpack_expect_uint_match r value =
     (let (v, r) = mpack_expect_u64 r
      in if v \<noteq> value then mpack_reader_flag_error r mpack_error_type else r)"

definition mpack_expect_nil :: "mpack_reader \<Rightarrow> mpack_reader" where
  "mpack_expect_nil r =
     (let (type, r) = mpack_expect_type_byte r
      in if type \<noteq> 0xc0 then mpack_reader_flag_error r mpack_error_type else r)"

definition mpack_expect_bool :: "mpack_reader \<Rightarrow> bool \<times> mpack_reader" where
  "mpack_expect_bool r =
     (let (type, r) = mpack_expect_type_byte r;
          r = (if type AND NOT 1 \<noteq> 0xc2 then mpack_reader_flag_error r mpack_error_type else r)
      in (type AND 1 \<noteq> 0, r))"

definition mpack_expect_array :: "mpack_reader \<Rightarrow> u32 \<times> mpack_reader" where
  "mpack_expect_array r =
     (let (var, r) = mpack_read_tag r
      in case var of
           Tag_array n \<Rightarrow> (n, r)
         | _ \<Rightarrow> (0, mpack_reader_flag_error r mpack_error_type))"

definition mpack_expect_array_range :: "mpack_reader \<Rightarrow> u32 \<Rightarrow> u32 \<Rightarrow> u32 \<times> mpack_reader" where
  "mpack_expect_array_range r min_value max_value =
     (let (val, r) = mpack_expect_array r
      in if r_error r \<noteq> mpack_ok then (min_value, r)
         else if val < min_value \<or> max_value < val
           then (min_value, mpack_reader_flag_error r mpack_error_type)
         else (val, r))"

definition mpack_expect_array_max :: "mpack_reader \<Rightarrow> u32 \<Rightarrow> u32 \<times> mpack_reader" where
  "mpack_expect_array_max r max_count = mpack_expect_array_range r 0 max_count"

definition mpack_expect_str :: "mpack_reader \<Rightarrow> u32 \<times> mpack_reader" where
  "mpack_expect_str r =
     (let (type, r) = mpack_expect_type_byte r in
      if drop_bit 5 type = 5 then (ucast (type AND NOT 0xe0), r)
      else if type = 0xd9 then (let (n, r) = mpack_expect_native_u8 r in (ucast n, r))
      else if type = 0xda then (let (n, r) = mpack_expect_native_u16 r in (ucast n, r))
      else if type = 0xdb then mpack_expect_native_u32 r
      else (0, mpack_reader_flag_error r mpack_error_type))"

definition mpack_expect_str_max :: "mpack_reader \<Rightarrow> u32 \<Rightarrow> u32 \<times> mpack_reader" where
  "mpack_expect_str_max r maxsize =
     (let (len, r) = mpack_expect_str r
      in if maxsize < len then (0, mpack_reader_flag_error r mpack_error_too_big) else (len, r))"

definition mpack_expect_bin :: "mpack_reader \<Rightarrow> u32 \<times> mpack_reader" where
  "mpack_expect_bin r =
     (let (var, r) = mpack_read_tag r
      in case var of
           Tag_bin n \<Rightarrow> (n, r)
         | _ \<Rightarrow> (0, mpack_reader_flag_error r mpack_error_type))"

definition mpack_expect_cstr_alloc_unchecked ::
  "mpack_reader \<Rightarrow> nat \<Rightarrow> mem \<Rightarrow> byte list option \<times> mpack_reader \<times> mem" where
  "mpack_expect_cstr_alloc_unchecked r maxsize m =
     (if maxsize < 1 then (None, mpack_reader_flag_error r mpack_error_bug, m)
      else
        let maxsize = min maxsize (2 ^ 32 - 1);
            (len, r) = mpack_expect_str_max r (to_u32 maxsize - 1)
        in mpack_read_bytes_alloc_impl r (unat len) m)"

definition mpack_expect_cstr_alloc ::
  "mpack_reader \<Rightarrow> nat \<Rightarrow> mem \<Rightarrow> byte list option \<times> mpack_reader \<times> mem" where
  "mpack_expect_cstr_alloc r maxsize m =
     (let (str, r, m) = mpack_expect_cstr_alloc_unchecked r maxsize m
      in case str of
           Some s \<Rightarrow>
             if \<not> mpack_str_check_no_null s
             then (None, mpack_reader_flag_error r mpack_error_type, free1 m)
             else (Some s, r, m)
         | None \<Rightarrow> (None, r, m))"

subsection \<open>Every expect function is a reader step\<close>

named_theorems r_steps \<open>reader functions only consume, and errors are sticky\<close>

lemma r_step_skip [r_steps]: "r_step r (mpack_skip_bytes r n)"
  by (auto simp: mpack_skip_bytes_def intro: r_step_drop)

lemma r_step_tag [r_steps]: "r_step r (snd (mpack_read_tag r))"
  using r_step_read_tag(1) by (metis prod.collapse)

lemma r_step_read_bytes [r_steps]: "r_step r (snd (mpack_read_bytes r n))"
  unfolding mpack_read_bytes_def using r_step_native by (metis prod.collapse)

lemma r_step_flag_trans: "r_step r r' \<Longrightarrow> r_step r (mpack_reader_flag_error r' e)"
  by (rule r_step_trans [OF _ r_step_flag])

lemma r_step_discard_loop: "r_step r (mpack_discard_loop n r)"
proof (induction n r rule: mpack_discard_loop.induct)
  case (1 n r)
  note t = r_step_tag [of r]
  show ?case
  proof (cases "n = 0 \<or> r_error (snd (mpack_read_tag r)) \<noteq> mpack_ok")
    case True
    then show ?thesis using t by (subst mpack_discard_loop.simps) (auto simp: Let_def)
  next
    case False
    let ?r = "snd (mpack_read_tag r)"
    have bytes: "r_step r (if r_error (mpack_skip_bytes ?r k) \<noteq> mpack_ok then mpack_skip_bytes ?r k
        else mpack_discard_loop (n - 1) (mpack_skip_bytes ?r k))"
      if "r_error (mpack_skip_bytes ?r k) = mpack_ok \<Longrightarrow>
        r_step (mpack_skip_bytes ?r k) (mpack_discard_loop (n - 1) (mpack_skip_bytes ?r k))" for k
      using that r_step_trans [OF t r_step_skip] by (auto intro: r_step_trans)
    have ok: "n \<noteq> 0" "r_error ?r = mpack_ok" using False by auto
    note IH = 1 [OF ok(1) refl refl refl, simplified, OF ok(2)]
    show ?thesis
    proof (cases "fst (mpack_read_tag r)")
      case (Tag_str l)
      with ok show ?thesis
        using bytes [of "unat l"] IH(8) [OF Tag_str]
        by (subst mpack_discard_loop.simps) (simp add: Let_def split: if_splits)
    next
      case (Tag_bin l)
      with ok show ?thesis
        using bytes [of "unat l"] IH(9) [OF Tag_bin]
        by (subst mpack_discard_loop.simps) (simp add: Let_def split: if_splits)
    qed (use ok t IH in \<open>auto simp: mpack_discard_loop.simps [of n r] Let_def
        intro: r_step_trans r_step_flag_trans\<close>)
  qed
qed

lemma r_step_discard [r_steps]: "r_step r (mpack_discard r)"
  by (simp add: mpack_discard_def r_step_discard_loop)

lemma r_step_ensure: "r_step r (snd (mpack_reader_ensure r n))"
  by (simp add: mpack_reader_ensure_def)

lemma r_step_expect_natives [r_steps]:
  "r_step r (snd (mpack_expect_native_u8 r))"
  "r_step r (snd (mpack_expect_native_u16 r))"
  "r_step r (snd (mpack_expect_native_u32 r))"
  "r_step r (snd (mpack_expect_type_byte r))"
  by (auto simp: mpack_expect_native_u8_def mpack_expect_native_u16_def
      mpack_expect_native_u32_def mpack_expect_type_byte_def mpack_reader_ensure_def
      intro: r_step_drop [of r "Suc 0", simplified] r_step_drop)

lemma r_step_expects [r_steps]:
  "r_step r (snd (mpack_expect_u8 r))"
  "r_step r (snd (mpack_expect_u32 r))"
  "r_step r (snd (mpack_expect_u64 r))"
  "r_step r (snd (mpack_expect_i64 r))"
  "r_step r (snd (mpack_expect_float_strict r))"
  "r_step r (snd (mpack_expect_double_strict r))"
  "r_step r (snd (mpack_expect_array r))"
  "r_step r (snd (mpack_expect_bin r))"
  using r_step_tag [of r]
  by (auto simp: mpack_expect_u8_def mpack_expect_u32_def mpack_expect_u64_def
      mpack_expect_i64_def mpack_expect_float_strict_def mpack_expect_double_strict_def
      mpack_expect_array_def mpack_expect_bin_def Let_def intro: r_step_flag_trans
      split: prod.splits mpack_tag.splits)

lemma r_step_expect_simple [r_steps]:
  "r_step r (mpack_expect_nil r)"
  "r_step r (snd (mpack_expect_bool r))"
  "r_step r (mpack_expect_uint_match r v)"
  using r_step_expect_natives(4) [of r] r_step_expects(3) [of r]
  by (auto simp: mpack_expect_nil_def mpack_expect_bool_def mpack_expect_uint_match_def Let_def
      intro: r_step_flag_trans split: prod.splits)

lemma r_step_expect_array_max [r_steps]: "r_step r (snd (mpack_expect_array_max r n))"
  using r_step_expects(7) [of r]
  by (auto simp: mpack_expect_array_max_def mpack_expect_array_range_def Let_def
      intro: r_step_flag_trans split: prod.splits)

lemma r_step_expect_str [r_steps]: "r_step r (snd (mpack_expect_str r))"
proof -
  obtain b r1 where b: "mpack_expect_type_byte r = (b, r1)" by fastforce
  then have 1: "r_step r r1" using r_step_expect_natives(4) [of r] by simp
  show ?thesis
    using r_step_trans [OF 1 r_step_expect_natives(1)] r_step_trans [OF 1 r_step_expect_natives(2)]
      r_step_trans [OF 1 r_step_expect_natives(3)] 1
    by (auto simp: mpack_expect_str_def b Let_def intro: r_step_flag_trans split: prod.splits)
qed

lemma r_step_expect_str_max [r_steps]: "r_step r (snd (mpack_expect_str_max r n))"
  using r_step_expect_str [of r]
  by (auto simp: mpack_expect_str_max_def Let_def intro: r_step_flag_trans split: prod.splits)

lemma r_step_peek [r_steps]: "r_step r (snd (mpack_peek_tag r))"
  using peek_tag_cases [of r "fst (mpack_peek_tag r)" "snd (mpack_peek_tag r)"] by auto

subsection \<open>Reading back the specified encoding\<close>

lemma expect_u8_enc:
  assumes "0 \<le> i" "i \<le> 255"
  shows "mpack_expect_u8 (rd (enc_int i @ rest)) = (of_int i, rd rest)"
  using assms read_tag_uint [of i rest]
  by (simp add: mpack_expect_u8_def word_le_def uint_word_of_int_eq take_bit_int_eq_self
      unsigned_of_int)

lemma expect_u32_enc:
  assumes "0 \<le> i" "i < 2 ^ 32"
  shows "mpack_expect_u32 (rd (enc_int i @ rest)) = (of_int i, rd rest)"
  using assms read_tag_uint [of i rest]
  by (simp add: mpack_expect_u32_def word_le_def uint_word_of_int_eq take_bit_int_eq_self
      unsigned_of_int)

lemma expect_u64_enc:
  assumes "0 \<le> i" "i < 2 ^ 64"
  shows "mpack_expect_u64 (rd (enc_int i @ rest)) = (of_int i, rd rest)"
  using assms read_tag_uint [of i rest] by (simp add: mpack_expect_u64_def)

lemma expect_i64_enc:
  assumes "- (2 ^ 63) \<le> i" "i < 2 ^ 63"
  shows "mpack_expect_i64 (rd (enc_int i @ rest)) = (of_int i, rd rest)"
proof (cases "0 \<le> i")
  case True
  with assms show ?thesis
    using read_tag_uint [of i rest]
    by (simp add: mpack_expect_i64_def word_le_def uint_word_of_int_eq take_bit_int_eq_self)
next
  case False
  with assms show ?thesis
    using read_tag_int [of i rest] by (simp add: mpack_expect_i64_def)
qed

lemma expect_floats_enc:
  "mpack_expect_float_strict (rd (0xca # mpack_store_u32 f @ rest)) = (f, rd rest)"
  "mpack_expect_double_strict (rd (0xcb # mpack_store_u64 d @ rest)) = (d, rd rest)"
  by (simp_all add: mpack_expect_float_strict_def mpack_expect_double_strict_def read_tag_simple)

lemma expect_array_enc:
  "n < 2 ^ 32 \<Longrightarrow> mpack_expect_array (rd (enc_arr_head n @ rest)) = (of_nat n, rd rest)"
  by (simp add: mpack_expect_array_def read_tag_arr_head)

lemma expect_array_max_enc:
  assumes "n \<le> unat k"
  shows "mpack_expect_array_max (rd (enc_arr_head n @ rest)) k = (of_nat n, rd rest)"
proof -
  have n: "n < 2 ^ 32" using le_less_trans [OF assms unat_u32_lt] by simp
  then show ?thesis
    using assms
    by (simp add: mpack_expect_array_max_def mpack_expect_array_range_def expect_array_enc
        word_less_nat_alt unat_of_nat)
qed

lemma expect_bin_enc:
  "n < 2 ^ 32 \<Longrightarrow> mpack_expect_bin (rd (enc_bin_head n @ rest)) = (of_nat n, rd rest)"
  by (simp add: mpack_expect_bin_def read_tag_bin_head)

lemmas native_defs = mpack_expect_type_byte_def mpack_expect_native_u8_def
  mpack_expect_native_u16_def mpack_expect_native_u32_def mpack_reader_ensure_def
  mpack_load_u8_def

lemma expect_nil_enc: "mpack_expect_nil (rd (0xc0 # rest)) = rd rest"
  by (simp add: mpack_expect_nil_def native_defs)

lemma expect_bool_enc:
  "mpack_expect_bool (rd ((if b then 0xc3 else 0xc2) # rest)) = (b, rd rest)"
  by (cases b) (simp_all add: mpack_expect_bool_def native_defs)

lemma expect_str_enc:
  assumes "n < 2 ^ 32"
  shows "mpack_expect_str (rd (enc_str_head n @ rest)) = (of_nat n, rd rest)"
proof -
  consider "n \<le> 31" | "31 < n" "n \<le> 255" | "255 < n" "n \<le> 65535" | "65535 < n"
    by linarith
  then show ?thesis
    using assms head_str_nibble [of n]
    by cases (simp_all add: enc_str_head_def mpack_expect_str_def native_defs mpack_store_u8_def
        of_nat_small)
qed

lemma expect_str_max_enc:
  assumes "n \<le> unat k"
  shows "mpack_expect_str_max (rd (enc_str_head n @ rest)) k = (of_nat n, rd rest)"
proof -
  have n: "n < 2 ^ 32" using le_less_trans [OF assms unat_u32_lt] by simp
  then show ?thesis
    using assms
    by (simp add: mpack_expect_str_max_def expect_str_enc word_less_nat_alt unat_of_nat)
qed

lemma skip_bytes_append [simp]: "mpack_skip_bytes (rd (s @ rest)) (length s) = rd rest"
  by (simp add: mpack_skip_bytes_def)

text \<open>Dropping elements drops exactly their encodings.\<close>

lemma length_le_enc_list: "length vs \<le> length (enc_list vs)"
proof (induction vs)
  case (Cons v vs)
  then show ?case using enc_nonempty [of v] by (cases "enc v") simp_all
qed simp

lemma read_tag_enc_int:
  "mval_ok (MInt i) \<Longrightarrow> mpack_read_tag (rd (enc_int i @ rest)) =
     (if 0 \<le> i then Tag_uint (of_int i) else Tag_int (of_int i), rd rest)"
  using read_tag_uint [of i rest] read_tag_int [of i rest] by simp

lemma discard_loop_enc_list:
  assumes "list_all mval_ok vs" and "length (enc_list vs) < 2 ^ 64"
  shows "mpack_discard_loop (length vs) (rd (enc_list vs @ rest)) = rd rest"
  using assms
proof (induction "length (enc_list vs)" arbitrary: vs rule: less_induct)
  case less
  show ?case
  proof (cases vs)
    case Nil
    then show ?thesis by (simp add: mpack_discard_loop.simps)
  next
    case (Cons v us)
    have IH: "mpack_discard_loop (length us) (rd (enc_list us @ rest)) = rd rest"
      using less Cons enc_nonempty [of v] by (intro less.hyps) auto
    note simps = mpack_discard_loop.simps [of "Suc (length us)"] Cons read_tag_simple Let_def
    show ?thesis
    proof (cases v)
      case (MArr ws)
      let ?n = "length ws"
      have "length (enc_list (ws @ us)) < length (enc_list vs)"
        using Cons MArr enc_heads_nonempty(3) [of ?n] by (simp add: enc_MArr del: enc.simps)
      then have A: "mpack_discard_loop (length (ws @ us)) (rd (enc_list (ws @ us) @ rest)) = rd rest"
        using less.prems Cons MArr by (intro less.hyps) simp_all
      have "length us + ?n < 2 ^ 64"
        using less.prems(2) Cons MArr length_le_enc_list [of "ws @ us"]
        by (simp add: enc_MArr del: enc.simps)
      moreover have "mpack_read_tag (rd (enc_arr_head ?n @ enc_list (ws @ us) @ rest)) =
          (Tag_array (of_nat ?n), rd (enc_list (ws @ us) @ rest))"
        and n: "unat (of_nat ?n :: u32) = ?n"
        using less.prems Cons MArr by (simp_all add: read_tag_arr_head unat_of_nat)
      ultimately have "mpack_discard_loop (Suc (length us))
            (rd (enc_arr_head ?n @ enc_list (ws @ us) @ rest)) =
          mpack_discard_loop (length us + ?n) (rd (enc_list (ws @ us) @ rest))"
        by (subst mpack_discard_loop.simps) (simp add: Let_def n)
      with A show ?thesis
        by (simp add: Cons MArr enc_MArr add.commute del: enc.simps)
    next
      case (MStr s)
      with less.prems Cons IH show ?thesis
        using read_tag_str_head [of "length s" "s @ enc_list us @ rest"]
        by (simp add: simps unat_of_nat)
    next
      case (MBin s)
      with less.prems Cons IH show ?thesis
        using read_tag_bin_head [of "length s" "s @ enc_list us @ rest"]
        by (simp add: simps unat_of_nat)
    next
      case (MInt i)
      with less.prems Cons IH show ?thesis
        using read_tag_enc_int [of i "enc_list us @ rest"] by (simp add: simps)
    qed (use less.prems Cons IH in \<open>simp_all add: simps\<close>)
  qed
qed

text \<open>
  C25: \<^verbatim>\<open>mpack_discard\<close> on data that starts with the encoding of a value (nested arrays included)
  drops exactly that encoding: the reader stays without error in front of the bytes that follow.
\<close>

theorem mpack_discard_exact:
  assumes "mval_ok v" and "length (enc v) < 2 ^ 64"
  shows "mpack_discard (mpack_reader_init_data (enc v @ rest)) = mpack_reader_init_data rest"
  using discard_loop_enc_list [of "[v]" rest] assms
  by (simp add: mpack_discard_def mpack_reader_init_data_def)

theorem mpack_discard_exact_witness:
  "mpack_discard (mpack_reader_init_data
     (enc (MArr [MStr [1, 2], MArr [MInt (- 5), MNil]]) @ [7])) = mpack_reader_init_data [7]"
  by (rule mpack_discard_exact)
    (simp_all add: enc_arr_head_def enc_str_head_def enc_int_def)

end
