(* ===== verification/Haze_Marshal.thy ===== *)
theory Haze_Marshal
  imports Haze_Object_Laws Mpack_Writer Mpack_Expect
begin

text \<open>
  The static helpers of \<^verbatim>\<open>source/api/proto/Response.c\<close> and \<^verbatim>\<open>Request.c\<close> that turn an object into
  MessagePack and back. \<^verbatim>\<open>Request.c\<close> carries its own copy of the marshaller; both are modelled and
  shown equal.
\<close>

unbundle bit_operations_syntax

subsection \<open>Marshalling\<close>

text \<open>The \<^verbatim>\<open>(uint32_t)\<close> cast of a length.\<close>

definition cast_u32 :: "nat \<Rightarrow> nat" where
  "cast_u32 n = unat (to_u32 n)"

lemma cast_u32_small [simp]: "n < 2 ^ 32 \<Longrightarrow> cast_u32 n = n"
  by (simp add: cast_u32_def)

fun ObjectMarshalMPack :: "Object option \<Rightarrow> mpack_writer \<Rightarrow> mem \<Rightarrow> (mpack_writer \<times> mem) option"
and ObjectMarshalMPack_loop ::
  "Object option list \<Rightarrow> mpack_writer \<Rightarrow> mem \<Rightarrow> (mpack_writer \<times> mem) option" where
  "ObjectMarshalMPack None w m = Some (mpack_write_nil w m)"
| "ObjectMarshalMPack (Some (Object v sz)) w m =
     (case v of
        V_NIL \<Rightarrow> Some (mpack_write_nil w m)
      | V_BOOL b \<Rightarrow> Some (mpack_write_bool w b m)
      | V_INT i \<Rightarrow> Some (mpack_write_int w i m)
      | V_UINT u \<Rightarrow> Some (mpack_write_uint w u m)
      | V_FLOAT f \<Rightarrow> Some (mpack_write_float w f m)
      | V_DOUBLE d \<Rightarrow> Some (mpack_write_double w d m)
      | V_STR None \<Rightarrow> Some (mpack_write_nil w m)
      | V_STR (Some s) \<Rightarrow>
          (case read_cstr s (cast_u32 sz) of
             None \<Rightarrow> None
           | Some bs \<Rightarrow> Some (mpack_write_str w bs m))
      | V_BIN None \<Rightarrow> Some (mpack_write_nil w m)
      | V_BIN (Some rb) \<Rightarrow>
          (case RawBufferData (Some rb) of
             None \<Rightarrow> Some (mpack_write_nil w m)
           | Some d \<Rightarrow>
               (case read_block d (cast_u32 (RawBufferLen (Some rb))) of
                  None \<Rightarrow> None
                | Some bs \<Rightarrow> Some (mpack_write_bin w bs m)))
      | V_ARRAY None \<Rightarrow> Some (mpack_write_nil w m)
      | V_ARRAY (Some (ObjectArray objs cap)) \<Rightarrow>
          (let (w, m) = mpack_start_array w (to_u32 (length objs)) m
           in ObjectMarshalMPack_loop objs w m)
      | _ \<Rightarrow> Some (mpack_write_nil w m))"
| "ObjectMarshalMPack_loop [] w m = Some (w, m)"
| "ObjectMarshalMPack_loop (x # xs) w m =
     (case ObjectMarshalMPack x w m of
        None \<Rightarrow> None
      | Some (w, m) \<Rightarrow> ObjectMarshalMPack_loop xs w m)"

fun RequestObjectMarshalMPack ::
  "Object option \<Rightarrow> mpack_writer \<Rightarrow> mem \<Rightarrow> (mpack_writer \<times> mem) option"
and RequestObjectMarshalMPack_loop ::
  "Object option list \<Rightarrow> mpack_writer \<Rightarrow> mem \<Rightarrow> (mpack_writer \<times> mem) option" where
  "RequestObjectMarshalMPack None w m = Some (mpack_write_nil w m)"
| "RequestObjectMarshalMPack (Some (Object v sz)) w m =
     (case v of
        V_NIL \<Rightarrow> Some (mpack_write_nil w m)
      | V_BOOL b \<Rightarrow> Some (mpack_write_bool w b m)
      | V_INT i \<Rightarrow> Some (mpack_write_int w i m)
      | V_UINT u \<Rightarrow> Some (mpack_write_uint w u m)
      | V_FLOAT f \<Rightarrow> Some (mpack_write_float w f m)
      | V_DOUBLE d \<Rightarrow> Some (mpack_write_double w d m)
      | V_STR None \<Rightarrow> Some (mpack_write_nil w m)
      | V_STR (Some s) \<Rightarrow>
          (case read_cstr s (cast_u32 sz) of
             None \<Rightarrow> None
           | Some bs \<Rightarrow> Some (mpack_write_str w bs m))
      | V_BIN None \<Rightarrow> Some (mpack_write_nil w m)
      | V_BIN (Some rb) \<Rightarrow>
          (case RawBufferData (Some rb) of
             None \<Rightarrow> Some (mpack_write_nil w m)
           | Some d \<Rightarrow>
               (case read_block d (cast_u32 (RawBufferLen (Some rb))) of
                  None \<Rightarrow> None
                | Some bs \<Rightarrow> Some (mpack_write_bin w bs m)))
      | V_ARRAY None \<Rightarrow> Some (mpack_write_nil w m)
      | V_ARRAY (Some (ObjectArray objs cap)) \<Rightarrow>
          (let (w, m) = mpack_start_array w (to_u32 (length objs)) m
           in RequestObjectMarshalMPack_loop objs w m)
      | _ \<Rightarrow> Some (mpack_write_nil w m))"
| "RequestObjectMarshalMPack_loop [] w m = Some (w, m)"
| "RequestObjectMarshalMPack_loop (x # xs) w m =
     (case RequestObjectMarshalMPack x w m of
        None \<Rightarrow> None
      | Some (w, m) \<Rightarrow> RequestObjectMarshalMPack_loop xs w m)"

text \<open>A marshalling step that is defined and emits given bytes.\<close>

definition emits :: "byte list \<Rightarrow> mpack_writer \<Rightarrow> mem \<Rightarrow> (mpack_writer \<times> mem) option \<Rightarrow> bool" where
  "emits bs w m r \<longleftrightarrow> (\<exists>w' m'. r = Some (w', m') \<and> emitted bs w m w' m')"

lemma emits_SomeI: "emitted bs w m (fst r) (snd r) \<Longrightarrow> emits bs w m (Some r)"
  by (cases r) (simp add: emits_def)

lemma emits_nil: "emits [0xc0] w m (Some (mpack_write_nil w m))"
  using emitted_nil [of w m, OF prod.collapse [symmetric]] by (intro emits_SomeI) simp

lemma emits_scalars:
  "emits (enc (MBool b)) w m (Some (mpack_write_bool w b m))"
  "emits (enc (MInt (sint i))) w m (Some (mpack_write_int w i m))"
  "emits (enc (MInt (uint i))) w m (Some (mpack_write_uint w i m))"
  "emits (enc (MFloat f)) w m (Some (mpack_write_float w f m))"
  "emits (enc (MDouble d)) w m (Some (mpack_write_double w d m))"
  unfolding mpack_write_int_def mpack_write_uint_def
  by (intro emits_SomeI emitted_bool emitted_i64 emitted_u64 emitted_float emitted_double;
      simp)+

lemma emits_blobs:
  "length s < 2 ^ 32 \<Longrightarrow> emits (enc (MStr s)) w m (Some (mpack_write_str w s m))"
  "length s < 2 ^ 32 \<Longrightarrow> emits (enc (MBin s)) w m (Some (mpack_write_bin w s m))"
  by (intro emits_SomeI emitted_str emitted_bin; simp)+

lemma emits_bindI:
  assumes "emits a w m r" and "\<And>w1 m1. r = Some (w1, m1) \<Longrightarrow> emits b w1 m1 (f w1 m1)"
  shows "emits (a @ b) w m (case r of None \<Rightarrow> None | Some (w, m) \<Rightarrow> f w m)"
proof -
  obtain w1 m1 where 1: "r = Some (w1, m1)" "emitted a w m w1 m1"
    using assms(1) by (auto simp: emits_def)
  with assms(2) obtain w2 m2 where "f w1 m1 = Some (w2, m2)" "emitted b w1 m1 w2 m2"
    by (auto simp: emits_def)
  with 1 show ?thesis by (auto simp: emits_def intro: emitted_trans)
qed

lemma marshal_emits:
  "obj_wf x \<Longrightarrow> mval_ok (obj_abs x) \<Longrightarrow> emits (enc (obj_abs x)) w m (ObjectMarshalMPack x w m)"
  "list_all obj_wf xs \<Longrightarrow> list_all (\<lambda>x. mval_ok (obj_abs x)) xs \<Longrightarrow>
   emits (enc_list (map obj_abs xs)) w m (ObjectMarshalMPack_loop xs w m)"
proof (induction x w m and xs w m rule: ObjectMarshalMPack_ObjectMarshalMPack_loop.induct)
  case (1 w m)
  show ?case by (simp add: emits_nil)
next
  case (2 v sz w m)
  show ?case
  proof (cases v)
    case (V_STR s)
    with 2 show ?thesis
      using emits_nil emits_blobs(1) by (cases s) simp_all
  next
    case (V_BIN b)
    show ?thesis
    proof (cases "\<exists>rb d. b = Some rb \<and> rb_data rb = Some d")
      case True
      then obtain rb d where b: "b = Some rb" "rb_data rb = Some d" by auto
      have "rb_len rb \<le> length d"
        using 2(2) V_BIN b by (auto simp: rb_canon_def rb_ok_def)
      moreover from this have "rb_len rb < 2 ^ 32"
        using 2(3) V_BIN b by (simp add: rb_bytes_def)
      ultimately show ?thesis
        using V_BIN b emits_blobs(2) [of "take (rb_len rb) d" w m]
        by (simp add: RawBufferData_def RawBufferLen_def read_block_def rb_bytes_def)
    next
      case False
      then show ?thesis
        using V_BIN by (cases b) (auto simp: RawBufferData_def emits_nil)
    qed
  next
    case (V_ARRAY a)
    show ?thesis
    proof (cases a)
      case None
      then show ?thesis using V_ARRAY by (simp add: emits_nil)
    next
      case (Some arr)
      obtain objs cap where arr: "arr = ObjectArray objs cap" by (cases arr)
      obtain w1 m1 where s: "mpack_start_array w (to_u32 (length objs)) m = (w1, m1)" by fastforce
      have e: "emitted (enc_arr_head (length objs)) w m w1 m1"
        using emitted_array [OF s] 2(3) V_ARRAY Some arr by simp
      have "emits (enc_list (map obj_abs objs)) w1 m1 (ObjectMarshalMPack_loop objs w1 m1)"
        using 2 V_ARRAY Some arr s by (auto simp: list_all_iff)
      with e s V_ARRAY Some arr show ?thesis
        by (auto simp: emits_def enc_list_def intro: emitted_trans)
    qed
  qed (use emits_nil emits_scalars in \<open>simp_all del: enc.simps add: enc.simps(1)\<close>)
next
  case (3 w m)
  then show ?case by (simp add: emits_def emitted_refl)
next
  case (4 x xs w m)
  show ?case
    using emits_bindI [OF 4(1), of "enc_list (map obj_abs xs)" "ObjectMarshalMPack_loop xs"] 4 by auto
qed

lemma request_marshal_eq:
  "RequestObjectMarshalMPack x w m = ObjectMarshalMPack x w m"
  "RequestObjectMarshalMPack_loop xs w m = ObjectMarshalMPack_loop xs w m"
  by (induction x w m and xs w m rule: ObjectMarshalMPack_ObjectMarshalMPack_loop.induct)
    (auto split: ObjectValue.split option.split ObjectArray.split prod.split)

subsection \<open>Unmarshalling\<close>

text \<open>
  \<^verbatim>\<open>ObjectUnmarshalMPack\<close> recurses on nested arrays without a limit, so the model carries fuel for
  the nesting depth. A run ends with a result (\<open>Inr\<close>), with undefined behaviour, or without fuel; the
  last cannot happen once the fuel exceeds the number of unread bytes (\<open>unmarshal_has_fuel\<close>).
\<close>

datatype fault = Undefined | No_fuel

fun ObjectUnmarshalMPack ::
  "nat \<Rightarrow> mpack_reader \<Rightarrow> mem \<Rightarrow> fault + (Object option \<times> mpack_reader \<times> mem)"
and ObjectUnmarshalMPack_loop ::
  "nat \<Rightarrow> nat \<Rightarrow> ObjectArray option \<Rightarrow> mpack_reader \<Rightarrow> mem \<Rightarrow>
   fault + (ObjectArray option \<times> mpack_reader \<times> mem)" where
  "ObjectUnmarshalMPack 0 r m = Inl No_fuel"
| "ObjectUnmarshalMPack (Suc fuel) r m =
     (let (tag, r) = mpack_read_tag r in
      if r_error r \<noteq> mpack_ok then Inr (None, r, m)
      else (case tag of
          Tag_nil \<Rightarrow> (let (ob, m) = ObjectCreateNil m in Inr (ob, r, m))
        | Tag_bool b \<Rightarrow> (let (ob, m) = ObjectCreateBool b m in Inr (ob, r, m))
        | Tag_int i \<Rightarrow> (let (ob, m) = ObjectCreateInt i m in Inr (ob, r, m))
        | Tag_uint u \<Rightarrow> (let (ob, m) = ObjectCreateUInt u m in Inr (ob, r, m))
        | Tag_float f \<Rightarrow> (let (ob, m) = ObjectCreateFloat f m in Inr (ob, r, m))
        | Tag_double d \<Rightarrow> (let (ob, m) = ObjectCreateDouble d m in Inr (ob, r, m))
        | Tag_str len \<Rightarrow>
            (let (ok, m) = malloc m in
             if \<not> ok then Inr (None, r, m)
             else if len + 1 = 0 then Inl Undefined
             else
               let (buff, r) = mpack_read_bytes r (unat len);
                   (ob, m) = ObjectCreateStr (Some (until_nul buff)) m
               in Inr (ob, r, free1 m))
        | Tag_bin len \<Rightarrow>
            (let (ok, m) = malloc m in
             if \<not> ok then Inr (None, r, m)
             else
               let (buff, r) = mpack_read_bytes r (unat len);
                   (ob, m) = ObjectNew m
               in if ob = None then Inr (None, r, free1 m)
                  else
                    let (rb, m) = RawBufferNew (Some buff) (unat len) m
                    in Inr (Some (Object (V_BIN rb) (unat len)), r, free1 m))
        | Tag_array count \<Rightarrow>
            (let (arr, m) = ObjectArrayCreate m in
             case ObjectUnmarshalMPack_loop fuel (unat count) arr r m of
               Inl e \<Rightarrow> Inl e
             | Inr (arr, r, m) \<Rightarrow>
                 (let (ob, m) = ObjectNew m
                  in Inr (if ob = None then None else Some (Object (V_ARRAY arr) 0), r, m)))
        | _ \<Rightarrow> (let (ob, m) = ObjectCreateNil m in Inr (ob, r, m))))"
| "ObjectUnmarshalMPack_loop fuel 0 arr r m = Inr (arr, r, m)"
| "ObjectUnmarshalMPack_loop fuel (Suc count) arr r m =
     (case ObjectUnmarshalMPack fuel r m of
        Inl e \<Rightarrow> Inl e
      | Inr (child, r, m) \<Rightarrow>
          (let (arr, m) =
                 (if child = None then (arr, m)
                  else let (_, arr, m) = ObjectArrayAppend arr child m in (arr, m))
           in ObjectUnmarshalMPack_loop fuel count arr r m))"

text \<open>A run that had fuel, and moved the reader forward only.\<close>

definition fueled :: "mpack_reader \<Rightarrow> fault + ('a \<times> mpack_reader \<times> mem) \<Rightarrow> bool" where
  "fueled r res \<longleftrightarrow> (case res of Inl e \<Rightarrow> e = Undefined | Inr (_, r', _) \<Rightarrow> r_step r r')"

lemma fueled_Inr [simp]: "fueled r (Inr (x, r', m')) = r_step r r'"
  and fueled_Inl [simp]: "fueled r (Inl e) = (e = Undefined)"
  by (simp_all add: fueled_def)

lemma unmarshal_has_fuel:
  "length (r_data r) < fuel \<Longrightarrow> fueled r (ObjectUnmarshalMPack fuel r m)"
  "length (r_data r) < fuel \<Longrightarrow> fueled r (ObjectUnmarshalMPack_loop fuel n arr r m)"
proof (induction fuel r m and fuel n arr r m
    rule: ObjectUnmarshalMPack_ObjectUnmarshalMPack_loop.induct)
  case (2 fuel r m)
  obtain tag r1 where t: "mpack_read_tag r = (tag, r1)" by fastforce
  note T = r_step_read_tag [OF t]
  show ?case
  proof (cases "r_error r1 = mpack_ok")
    case False
    with t T(1) show ?thesis by simp
  next
    case ok: True
    show ?thesis
    proof (cases tag)
      case (Tag_array count)
      obtain arr m1 where c: "ObjectArrayCreate m = (arr, m1)" by fastforce
      have "fueled r1 (ObjectUnmarshalMPack_loop fuel (unat count) arr r1 m1)"
        using 2 T(2) [OF ok] t ok Tag_array c by auto
      with t ok Tag_array c T(1) show ?thesis
        by (auto split: sum.split prod.split simp: fueled_def intro: r_step_trans)
    next
      case (Tag_str len)
      with t ok T(1) show ?thesis
        using r_step_read_bytes [of r1 "unat len"]
        by (auto split: prod.split intro: r_step_trans)
    next
      case (Tag_bin len)
      with t ok T(1) show ?thesis
        using r_step_read_bytes [of r1 "unat len"]
        by (auto split: prod.split intro: r_step_trans)
    qed (use t ok T(1) in \<open>auto split: prod.split\<close>)
  qed
next
  case (4 fuel count arr r m)
  show ?case
  proof (cases "ObjectUnmarshalMPack fuel r m")
    case (Inl e)
    with 4 show ?thesis by simp
  next
    case (Inr b)
    obtain child r1 m1 where b: "b = (child, r1, m1)" by (metis prod_cases3)
    have s: "r_step r r1" using 4(1,3) Inr b by simp
    then have "length (r_data r1) < fuel" using 4(3) by (simp add: r_step_def)
    then have L: "fueled r1 (ObjectUnmarshalMPack_loop fuel count a' r1 m2)"
      if "(a', m2) = (if child = None then (arr, m1)
            else let (_, arr, m) = ObjectArrayAppend arr child m1 in (arr, m))" for a' m2
      using 4(2) [OF Inr b [symmetric] refl refl that] by simp
    show ?thesis
      using L Inr b s
      by (auto simp: fueled_def split: sum.splits prod.splits if_splits intro: r_step_trans)
  qed
qed simp_all

subsection \<open>Reading back what was written\<close>

lemma create_nofail [alloc_simps]:
  "nofail m \<Longrightarrow> create_with ob m = (Some ob, mem_add 1 m)"
  by (simp add: create_with_def ObjectNew_nofail)

lemmas create_defs = ObjectCreateNil_def ObjectCreateBool_def ObjectCreateInt_def
  ObjectCreateUInt_def ObjectCreateFloat_def ObjectCreateDouble_def

lemma ObjectCreateStr_nofail [alloc_simps]:
  "nofail m \<Longrightarrow> ObjectCreateStr (Some s) m = (Some (Object (V_STR (Some s)) (length s)), mem_add 2 m)"
  by (simp add: ObjectCreateStr_def ObjectNew_nofail strdup_nofail)

lemma ObjectArrayCreate_nofail [alloc_simps]:
  "nofail m \<Longrightarrow> ObjectArrayCreate m = (Some (ObjectArray [] (cap_for 0)), mem_add 2 m)"
  using ObjectArrayCreate_cases [of m "fst (ObjectArrayCreate m)" "snd (ObjectArrayCreate m)"]
  by (metis prod.collapse)

text \<open>A read that succeeds: the object of the given value, and the reader in front of the rest.\<close>

definition reads ::
  "mval \<Rightarrow> byte list \<Rightarrow> mem \<Rightarrow> fault + (Object option \<times> mpack_reader \<times> mem) \<Rightarrow> bool" where
  "reads v rest m res \<longleftrightarrow>
     (\<exists>ob k. res = Inr (Some ob, rd rest, mem_add k m) \<and> obj_wf (Some ob)
        \<and> obj_abs (Some ob) = v)"

lemma readsI:
  "res = Inr (Some ob, rd rest, mem_add k m) \<Longrightarrow> obj_wf (Some ob) \<Longrightarrow> obj_abs (Some ob) = v \<Longrightarrow>
   reads v rest m res"
  by (auto simp: reads_def)

lemma unmarshal_loop_reads:
  assumes elem: "\<And>v rest m. v \<in> set vs \<Longrightarrow> nofail m \<Longrightarrow>
      reads (mval_recv v) rest m (ObjectUnmarshalMPack fuel (rd (enc v @ rest)) m)"
    and "nofail m" "arr_wf (Some a)"
  shows "\<exists>a' k. ObjectUnmarshalMPack_loop fuel (length vs) (Some a) (rd (enc_list vs @ rest)) m
           = Inr (Some a', rd rest, mem_add k m) \<and> arr_wf (Some a')
         \<and> map obj_abs (arr_objects a') = map obj_abs (arr_objects a) @ map mval_recv vs"
  using assms
proof (induction vs arbitrary: a m)
  case Nil
  then show ?case by (auto intro: exI [of _ 0])
next
  case (Cons v vs)
  have "reads (mval_recv v) (enc_list vs @ rest) m
      (ObjectUnmarshalMPack fuel (rd (enc v @ enc_list vs @ rest)) m)"
    using Cons.prems by simp
  then obtain ob k where u: "ObjectUnmarshalMPack fuel (rd (enc v @ enc_list vs @ rest)) m
      = Inr (Some ob, rd (enc_list vs @ rest), mem_add k m)"
    and ob: "obj_wf (Some ob)" "obj_abs (Some ob) = mval_recv v"
    by (auto simp: reads_def)
  obtain ok r m1 where ap: "ObjectArrayAppend (Some a) (Some ob) (mem_add k m) = (ok, r, m1)"
    by (metis prod_cases3)
  from ap Cons.prems(3) ob(1) obtain a1 where a1: "r = Some a1" "arr_wf r"
      "arr_objects a1 = (if ok then arr_objects a @ [copy_obj (Some ob)] else arr_objects a)"
      "ok" "m1 = mem_add (obj_blocks (copy_obj (Some ob)) + k) m"
    using Cons.prems(2) by (elim ObjectArrayAppend_wf) auto
  have "\<exists>a' k'. ObjectUnmarshalMPack_loop fuel (length vs) (Some a1) (rd (enc_list vs @ rest)) m1
           = Inr (Some a', rd rest, mem_add k' m1) \<and> arr_wf (Some a')
         \<and> map obj_abs (arr_objects a') = map obj_abs (arr_objects a1) @ map mval_recv vs"
    using Cons.prems a1 by (intro Cons.IH) auto
  then obtain a' k' where "ObjectUnmarshalMPack_loop fuel (length vs) (Some a1) (rd (enc_list vs @ rest)) m1
           = Inr (Some a', rd rest, mem_add k' m1)" "arr_wf (Some a')"
         "map obj_abs (arr_objects a') = map obj_abs (arr_objects a1) @ map mval_recv vs"
    by blast
  then show ?case
    using u ap a1 ob abs_copy(1) [OF ob(1)] by auto
qed

lemma unmarshal_reads_int:
  assumes "mval_ok (MInt i)" "nofail m"
  shows "reads (mval_recv (MInt i)) rest m (ObjectUnmarshalMPack (Suc f) (rd (enc (MInt i) @ rest)) m)"
proof (cases "0 \<le> i")
  case True
  with assms show ?thesis
    using read_tag_uint [of i rest]
    by (auto simp: create_defs create_nofail uint_word_of_int_eq take_bit_int_eq_self intro!: readsI)
next
  case False
  with assms show ?thesis
    using read_tag_int [of i rest]
    by (auto simp: create_defs create_nofail signed_of_int signed_take_bit_int_eq_self intro!: readsI)
qed

lemma unmarshal_reads_str:
  assumes "mval_ok (MStr s)" "mval_short (MStr s)" "nofail m"
  shows "reads (mval_recv (MStr s)) rest m (ObjectUnmarshalMPack (Suc f) (rd (enc (MStr s) @ rest)) m)"
proof -
  have "(of_nat (length s) :: u32) + 1 \<noteq> 0" and n: "unat (of_nat (length s) :: u32) = length s"
    using assms by (auto simp: unat_of_nat word_unat_eq_iff unat_word_ariths)
  with assms show ?thesis
    using read_tag_str_head [of "length s" "s @ rest"]
    by (auto simp: alloc_simps mem_simps intro!: readsI)
qed

lemma unmarshal_reads_bin:
  assumes "mval_ok (MBin s)" "nofail m"
  shows "reads (mval_recv (MBin s)) rest m (ObjectUnmarshalMPack (Suc f) (rd (enc (MBin s) @ rest)) m)"
proof -
  have "unat (of_nat (length s) :: u32) = length s"
    using assms by (auto simp: unat_of_nat)
  with assms show ?thesis
    using read_tag_bin_head [of "length s" "s @ rest"]
    by (auto simp: alloc_simps mem_simps RawBufferNew_nofail rb_canon_def rb_ok_def rb_bytes_def
        intro!: readsI)
qed

text \<open>An array, once its elements are read with one unit of fuel less.\<close>

lemma unmarshal_reads_array:
  assumes elem: "\<And>v rest m. v \<in> set vs \<Longrightarrow> nofail m \<Longrightarrow>
      reads (mval_recv v) rest m (ObjectUnmarshalMPack f (rd (enc v @ rest)) m)"
    and "length vs < 2 ^ 32" "nofail m"
  shows "reads (mval_recv (MArr vs)) rest m (ObjectUnmarshalMPack (Suc f) (rd (enc (MArr vs) @ rest)) m)"
proof -
  have n: "unat (of_nat (length vs) :: u32) = length vs"
    using assms(2) by (simp add: unat_of_nat)
  have "\<exists>a' k. ObjectUnmarshalMPack_loop f (length vs) (Some (ObjectArray [] (cap_for 0)))
        (rd (enc_list vs @ rest)) (mem_add 2 m)
      = Inr (Some a', rd rest, mem_add k (mem_add 2 m)) \<and> arr_wf (Some a')
      \<and> map obj_abs (arr_objects a') = [] @ map mval_recv vs"
    using unmarshal_loop_reads [of vs f "mem_add 2 m" "ObjectArray [] (cap_for 0)" rest] assms
    by (auto simp: cap_for_pos)
  then obtain a' k where l: "ObjectUnmarshalMPack_loop f (length vs) (Some (ObjectArray [] (cap_for 0)))
        (rd (enc_list vs @ rest)) (mem_add 2 m) = Inr (Some a', rd rest, mem_add (k + 2) m)"
      "arr_wf (Some a')" "map obj_abs (arr_objects a') = map mval_recv vs"
    by auto
  with n assms(2,3) show ?thesis
    using read_tag_arr_head [of "length vs" "enc_list vs @ rest"]
    by (cases a') (auto simp: alloc_simps enc_MArr simp del: enc.simps intro!: readsI)
qed

lemma unmarshal_reads:
  assumes "mval_ok v" "mval_short v" "nofail m" "length (enc v) \<le> fuel"
  shows "reads (mval_recv v) rest m (ObjectUnmarshalMPack fuel (rd (enc v @ rest)) m)"
  using assms
proof (induction v arbitrary: fuel rest m)
  case MNil
  then show ?case
    by (cases fuel) (auto simp: read_tag_simple create_defs create_nofail intro: readsI)
next
  case (MBool b)
  then show ?case
    by (cases fuel; cases b) (auto simp: read_tag_simple create_defs create_nofail intro: readsI)
next
  case (MInt i)
  then show ?case
    using enc_int_nonempty [of i] unmarshal_reads_int by (cases fuel) auto
next
  case (MFloat f)
  then show ?case
    by (cases fuel) (auto simp: read_tag_simple create_defs create_nofail intro: readsI)
next
  case (MDouble d)
  then show ?case
    by (cases fuel) (auto simp: read_tag_simple create_defs create_nofail intro: readsI)
next
  case (MStr s)
  then obtain f where "fuel = Suc f" by (cases fuel) auto
  with MStr show ?case using unmarshal_reads_str by simp
next
  case (MBin s)
  then obtain f where "fuel = Suc f" by (cases fuel) auto
  with MBin show ?case using unmarshal_reads_bin by simp
next
  case (MArr vs)
  then obtain f where f: "fuel = Suc f" by (cases fuel) auto
  have "length (enc v) \<le> f" if "v \<in> set vs" for v
    using enc_element_shorter [OF that] MArr.prems(4) f by simp
  with MArr f show ?case
    using unmarshal_reads_array [of vs f m rest] by (auto simp: list_all_iff)
qed

end
