(* ===== verification/Haze_Result.thy ===== *)
theory Haze_Result
  imports Haze_Prelude
begin

text \<open>
  The two result types: \<^verbatim>\<open>source/Result.h\<close>, whose message is never owned, and
  \<^verbatim>\<open>source/audio/ResultAudio.h\<close>, whose message may be a heap block the caller releases.
\<close>

record Result =
  res_success :: bool
  res_msg :: "byte list option"

definition ResultOk :: Result where
  "ResultOk = \<lparr>res_success = True, res_msg = None\<rparr>"

definition ResultMsgE :: "byte list \<Rightarrow> Result" where
  "ResultMsgE msg = \<lparr>res_success = False, res_msg = Some msg\<rparr>"

definition ResultErr :: "byte list \<Rightarrow> Result" where
  "ResultErr msg = \<lparr>res_success = False, res_msg = Some msg\<rparr>"

definition ResultIsOk :: "Result \<Rightarrow> bool" where
  "ResultIsOk res = res_success res"

record ResultAudio =
  ra_success :: bool
  ra_msg :: "byte list option"
  ra_owned :: bool

definition ResultAudioStrdup :: "byte list \<Rightarrow> mem \<Rightarrow> byte list option \<times> mem" where
  "ResultAudioStrdup src m = (let (ok, m) = malloc m in if \<not> ok then (None, m) else (Some src, m))"

definition ResultAudioOk :: ResultAudio where
  "ResultAudioOk = \<lparr>ra_success = True, ra_msg = None, ra_owned = False\<rparr>"

definition ResultAudioErr :: "byte list option \<Rightarrow> ResultAudio" where
  "ResultAudioErr msg = \<lparr>ra_success = False, ra_msg = msg, ra_owned = False\<rparr>"

text \<open>\<open>text\<close> is the formatted message; \<^verbatim>\<open>vsnprintf\<close> into 256 bytes keeps its first 255.\<close>

definition ResultAudioErrF :: "byte list \<Rightarrow> mem \<Rightarrow> ResultAudio \<times> mem" where
  "ResultAudioErrF text m =
     (let (msg, m) = ResultAudioStrdup (take 255 text) m
      in (\<lparr>ra_success = False, ra_msg = msg, ra_owned = True\<rparr>, m))"

definition ResultAudioIsOk :: "ResultAudio \<Rightarrow> bool" where
  "ResultAudioIsOk r = ra_success r"

definition ResultAudioFree :: "ResultAudio \<Rightarrow> mem \<Rightarrow> ResultAudio \<times> mem" where
  "ResultAudioFree r m =
     (if ra_owned r \<and> ra_msg r \<noteq> None then (r\<lparr>ra_msg := None, ra_owned := False\<rparr>, free1 m)
      else (r, m))"

text \<open>The blocks a result owns.\<close>

definition ra_blocks :: "ResultAudio \<Rightarrow> int" where
  "ra_blocks r = of_bool (ra_owned r \<and> ra_msg r \<noteq> None)"

lemma ResultAudioStrdup_eq: "ResultAudioStrdup = strdup"
  by (auto simp: ResultAudioStrdup_def strdup_def fun_eq_iff split: prod.split)

lemma ra_blocks_simps [simp]:
  "ra_blocks ResultAudioOk = 0" "ra_blocks (ResultAudioErr msg) = 0"
  by (simp_all add: ra_blocks_def ResultAudioOk_def ResultAudioErr_def)

lemma ResultAudioErrF_live:
  "ResultAudioErrF text m = (r, m') \<Longrightarrow> \<not> ra_success r \<and> live m' = live m + ra_blocks r"
  using strdup_live [of "take 255 text" m]
  by (auto simp: ResultAudioErrF_def ResultAudioStrdup_eq ra_blocks_def split: prod.splits)

lemma ResultAudioFree_live:
  "live (snd (ResultAudioFree r m)) = live m - ra_blocks r"
  by (simp add: ResultAudioFree_def ra_blocks_def)

end
