(* ===== verification/Haze_Response.thy ===== *)
theory Haze_Response
  imports Haze_Marshal Haze_Result
begin

text \<open>
  \<^verbatim>\<open>source/api/proto/Response.c\<close>: MessagePack-RPC responses, their constructors, and their
  encoding \<^verbatim>\<open>[type, msgid, error, result]\<close>. A function that can run into undefined behaviour
  returns an option; the error and result objects are owned by the response.
\<close>

unbundle bit_operations_syntax

definition HAZE_RPC_REQUEST :: u32 where "HAZE_RPC_REQUEST = 0"
definition HAZE_RPC_RESPONSE :: u32 where "HAZE_RPC_RESPONSE = 1"
definition HAZE_RPC_NOTIFICATION :: u32 where "HAZE_RPC_NOTIFICATION = 2"

record Response =
  rsp_type :: u32
  rsp_msgid :: u32
  rsp_error :: "Object option"
  rsp_result :: "Object option"

definition ResponseNew :: "mem \<Rightarrow> Response option \<times> mem" where
  "ResponseNew m =
     (let (ok, m) = malloc m in
      if \<not> ok then (None, m)
      else (Some \<lparr>rsp_type = HAZE_RPC_RESPONSE, rsp_msgid = 0, rsp_error = None, rsp_result = None\<rparr>, m))"

definition ResponseSetResultObject ::
  "Response option \<Rightarrow> Object option \<Rightarrow> mem \<Rightarrow> bool \<times> Response option \<times> mem" where
  "ResponseSetResultObject s result m =
     (case s of
        None \<Rightarrow> (False, None, m)
      | Some r \<Rightarrow> (True, Some (r\<lparr>rsp_result := result\<rparr>), ObjectFree (rsp_result r) m))"

definition ResponseSetErrorObject ::
  "Response option \<Rightarrow> Object option \<Rightarrow> mem \<Rightarrow> bool \<times> Response option \<times> mem" where
  "ResponseSetErrorObject s err m =
     (case s of
        None \<Rightarrow> (False, None, m)
      | Some r \<Rightarrow> (True, Some (r\<lparr>rsp_error := err\<rparr>), ObjectFree (rsp_error r) m))"

definition ResponseSetMsgId :: "Response option \<Rightarrow> u32 \<Rightarrow> bool \<times> Response option" where
  "ResponseSetMsgId s msgid =
     (case s of None \<Rightarrow> (False, None) | Some r \<Rightarrow> (True, Some (r\<lparr>rsp_msgid := msgid\<rparr>)))"

definition ResponseMarshal :: "Response option \<Rightarrow> mem \<Rightarrow> (RawBuffer option \<times> mem) option" where
  "ResponseMarshal s m =
     (case s of
        None \<Rightarrow> Some (None, m)
      | Some s \<Rightarrow>
          (let (w, m) = mpack_writer_init_growable m;
               (w, m) = mpack_start_array w 4 m;
               (w, m) = mpack_write_u8 w (ucast (rsp_type s)) m;
               (w, m) = mpack_write_u32 w (rsp_msgid s) m
           in do {
             (w, m) \<leftarrow> ObjectMarshalMPack (rsp_error s) w m;
             (w, m) \<leftarrow> ObjectMarshalMPack (rsp_result s) w m;
             let (err, data, m) = mpack_writer_destroy w m;
             if err \<noteq> mpack_ok then Some (None, free_opt data m)
             else
               let (buffer, m) = RawBufferNew data (case data of None \<Rightarrow> 0 | Some d \<Rightarrow> length d) m
               in Some (buffer, free_opt data m)
           }))"

definition ResponseFree :: "Response option \<Rightarrow> mem \<Rightarrow> bool \<times> mem" where
  "ResponseFree s m =
     (case s of
        None \<Rightarrow> (False, m)
      | Some r \<Rightarrow> (True, free1 (ObjectFree (rsp_result r) (ObjectFree (rsp_error r) m))))"

text \<open>The end of a field that may be nil: a nil object is released and the field stays \<^verbatim>\<open>NULL\<close>.\<close>

definition drop_nil :: "Object option \<Rightarrow> mem \<Rightarrow> Object option \<times> mem" where
  "drop_nil ob m =
     (if ob \<noteq> None \<and> ObjectGetType ob = OBJ_NIL then (None, ObjectFree ob m) else (ob, m))"

text \<open>The body after the envelope and the header were read (steps 3 and 4 of the source).\<close>

definition ResponseUnmarshal_fields ::
  "nat \<Rightarrow> Response \<Rightarrow> mpack_reader \<Rightarrow> mem \<Rightarrow> (Response option \<times> mem) option" where
  "ResponseUnmarshal_fields fuel rs r m =
     (case ObjectUnmarshalMPack fuel r m of
        Inl _ \<Rightarrow> None
      | Inr (err, r, m) \<Rightarrow>
          (if r_error r \<noteq> mpack_ok
           then Some (None, snd (ResponseFree (Some (rs\<lparr>rsp_error := err\<rparr>)) m))
           else
             let (err, m) = drop_nil err m; rs = rs\<lparr>rsp_error := err\<rparr>
             in case ObjectUnmarshalMPack fuel r m of
                  Inl _ \<Rightarrow> None
                | Inr (result, r, m) \<Rightarrow>
                    (if r_error r \<noteq> mpack_ok
                     then Some (None, snd (ResponseFree (Some (rs\<lparr>rsp_result := result\<rparr>)) m))
                     else
                       let (result, m) = drop_nil result m
                       in Some (Some (rs\<lparr>rsp_result := result\<rparr>), m))))"

definition ResponseUnmarshal :: "RawBuffer option \<Rightarrow> mem \<Rightarrow> (Response option \<times> mem) option" where
  "ResponseUnmarshal b m =
     (if RawBufferLen b = 0 then Some (None, m)
      else
        (case RawBufferData b of
           None \<Rightarrow> None
         | Some d \<Rightarrow>
             (case read_block d (RawBufferLen b) of
                None \<Rightarrow> None
              | Some bs \<Rightarrow>
                  (let r = mpack_reader_init_data bs;
                       (count, r) = mpack_expect_array r
                   in if r_error r \<noteq> mpack_ok \<or> count \<noteq> 4 then Some (None, m)
                      else
                        let (rs, m) = ResponseNew m
                        in case rs of
                             None \<Rightarrow> Some (None, m)
                           | Some rs \<Rightarrow>
                               (let (ty, r) = mpack_expect_u8 r;
                                    rs = rs\<lparr>rsp_type := ucast ty\<rparr>
                                in if r_error r \<noteq> mpack_ok \<or> rsp_type rs \<noteq> HAZE_RPC_RESPONSE
                                   then Some (None, snd (ResponseFree (Some rs) m))
                                   else
                                     let (msgid, r) = mpack_expect_u32 r;
                                         rs = rs\<lparr>rsp_msgid := msgid\<rparr>
                                     in if r_error r \<noteq> mpack_ok
                                        then Some (None, snd (ResponseFree (Some rs) m))
                                        else ResponseUnmarshal_fields (Suc (length bs)) rs r m)))))"

subsection \<open>Constructors\<close>

definition ResponseCreateString :: "u32 \<Rightarrow> byte list option \<Rightarrow> mem \<Rightarrow> Response option \<times> mem" where
  "ResponseCreateString msgid result m =
     (let (resp, m) = ResponseNew m in
      if resp = None then (None, m)
      else
        let (_, resp) = ResponseSetMsgId resp msgid;
            (ob, m) = ObjectCreateStr result m;
            (_, resp, m) = ResponseSetResultObject resp ob m
        in (resp, m))"

definition ResponseCreateError :: "u32 \<Rightarrow> byte list option \<Rightarrow> mem \<Rightarrow> Response option \<times> mem" where
  "ResponseCreateError msgid err m =
     (let (resp, m) = ResponseNew m in
      case resp of
        None \<Rightarrow> (None, m)
      | Some r \<Rightarrow>
          (let r = r\<lparr>rsp_type := HAZE_RPC_RESPONSE, rsp_msgid := msgid\<rparr>;
               (ob, m) = (case err of
                   Some e \<Rightarrow> ObjectCreateStr (Some e) m
                 | None \<Rightarrow> ObjectCreateNil m)
           in (Some (r\<lparr>rsp_error := ob\<rparr>), m)))"

text \<open>The loop over the \<^verbatim>\<open>NULL\<close>-terminated vector; the appended objects are copied, the originals
  stay behind.\<close>

fun append_strs :: "byte list list \<Rightarrow> ObjectArray option \<Rightarrow> mem \<Rightarrow> ObjectArray option \<times> mem" where
  "append_strs [] arr m = (arr, m)"
| "append_strs (v # vs) arr m =
     (let (ob, m) = ObjectCreateStr (Some v) m;
          (_, arr, m) = ObjectArrayAppend arr ob m
      in append_strs vs arr m)"

definition ResponseCreateStrArrayResult ::
  "u32 \<Rightarrow> byte list list option \<Rightarrow> mem \<Rightarrow> Response option \<times> mem" where
  "ResponseCreateStrArrayResult msgid values m =
     (case values of
        None \<Rightarrow> (None, m)
      | Some vs \<Rightarrow>
          (let (resp, m) = ResponseNew m in
           if resp = None then (None, m)
           else
             let (arr, m) = ObjectArrayCreate m in
             if arr = None then (None, free1 m)
             else
               let (arr, m) = append_strs vs arr m;
                   (array_obj, m) = ObjectNew m
               in if array_obj = None then (None, free1 (ObjectArrayFree arr m))
                  else
                    let (_, resp) = ResponseSetMsgId resp msgid;
                        (_, resp, m) = ResponseSetResultObject resp (Some (Object (V_ARRAY arr) 0)) m
                    in (resp, m)))"

definition ResponseCreateNilResult :: "u32 \<Rightarrow> mem \<Rightarrow> Response option \<times> mem" where
  "ResponseCreateNilResult msgid m =
     (let (resp, m) = ResponseNew m;
          (_, resp) = ResponseSetMsgId resp msgid;
          (ob, m) = ObjectCreateNil m;
          (_, resp, m) = ResponseSetResultObject resp ob m
      in (resp, m))"

definition ResponseCreateResult :: "u32 \<Rightarrow> Result \<Rightarrow> mem \<Rightarrow> Response option \<times> mem" where
  "ResponseCreateResult msgid res m =
     (let (resp, m) = ResponseNew m in
      if resp = None then (None, m)
      else
        let (_, resp) = ResponseSetMsgId resp msgid in
        if ResultIsOk res then
          (let (ob, m) = ObjectCreateNil m;
               (_, resp, m) = ResponseSetResultObject resp ob m
           in (resp, m))
        else
          (let (ob, m) = ObjectCreateStr (res_msg res) m;
               (_, resp, m) = ResponseSetResultObject resp ob m
           in (resp, m)))"

definition ResponseCreateInt :: "u32 \<Rightarrow> u64 \<Rightarrow> mem \<Rightarrow> Response option \<times> mem" where
  "ResponseCreateInt msgid v m =
     (let (resp, m) = ResponseNew m in
      if resp = None then (None, m)
      else
        let (_, resp) = ResponseSetMsgId resp msgid;
            (ob, m) = ObjectCreateInt v m;
            (_, resp, m) = ResponseSetResultObject resp ob m
        in (resp, m))"

definition ResponseCreateResultAudio :: "u32 \<Rightarrow> ResultAudio \<Rightarrow> mem \<Rightarrow> Response option \<times> mem" where
  "ResponseCreateResultAudio msgid res m =
     (let (r, m) =
            (if ra_success res then ResponseCreateNilResult msgid m
             else ResponseCreateError msgid (ra_msg res) m);
          (_, m) = ResultAudioFree res m
      in (r, m))"

definition ResponseCreateOk :: "u32 \<Rightarrow> mem \<Rightarrow> Response option \<times> mem" where
  "ResponseCreateOk msgid m =
     ResponseCreateResult msgid \<lparr>res_success = True, res_msg = Some (cstr '''')\<rparr> m"

subsection \<open>Marshalling\<close>

definition rsp_wf :: "Response \<Rightarrow> bool" where
  "rsp_wf s \<longleftrightarrow> obj_wf (rsp_error s) \<and> obj_wf (rsp_result s)"

definition rsp_abs :: "Response \<Rightarrow> mval" where
  "rsp_abs s = MArr [MInt (uint (ucast (rsp_type s) :: byte)), MInt (uint (rsp_msgid s)),
                     obj_abs (rsp_error s), obj_abs (rsp_result s)]"

text \<open>The end every marshaller shares: a finished growable writer is copied into a fresh buffer.\<close>

lemma finish_copy:
  assumes init: "mpack_writer_init_growable m = (w0, m0)" and em: "emitted bs w0 m0 w1 m1"
    and d: "mpack_writer_destroy w1 m1 = (e, data, m2)" and ne: "bs \<noteq> []"
    and r: "(r, m') = (if e \<noteq> mpack_ok then (None, free_opt data m2)
        else (let (buffer, m) = RawBufferNew data (case data of None \<Rightarrow> 0 | Some d \<Rightarrow> length d) m2
              in (buffer, free_opt data m)))"
  shows "(r = None \<and> live m' = live m
          \<or> r = Some \<lparr>rb_data = Some bs, rb_len = length bs\<rparr> \<and> live m' = live m + 2)
       \<and> (nofail m \<and> length bs \<le> 2 ^ 62 \<longrightarrow> r \<noteq> None \<and> m' = mem_add 2 m)"
proof (cases "e = mpack_ok")
  case False
  with growable_session [OF init em d] r show ?thesis
    by (auto simp: free_opt_def)
next
  case True
  note S = growable_session [OF init em d]
  obtain b m3 where b: "RawBufferNew (Some bs) (length bs) m2 = (b, m3)" by fastforce
  have rm: "r = b" "m' = free1 m3"
    using r True S(1) b by (auto simp: free_opt_def split: prod.splits)
  have "nofail m \<and> length bs \<le> 2 ^ 62 \<Longrightarrow> b \<noteq> None \<and> m3 = mem_add 3 m"
    using S(3) b ne by (auto simp: RawBufferNew_nofail)
  moreover from b have "b = None \<and> live m3 = live m2
      \<or> b = Some \<lparr>rb_data = Some bs, rb_len = length bs\<rparr> \<and> live m3 = live m2 + 2"
    using ne by (cases rule: RawBufferNew_cases) auto
  ultimately show ?thesis
    using S(1) True rm by (auto simp: free1_def)
qed

lemma Suc_4: "Suc (Suc (Suc (Suc 0))) = 4" and Suc_3: "Suc (Suc (Suc 0)) = 3"
  by simp_all

lemma ResponseMarshal_cases:
  assumes wf: "rsp_wf s" and ok: "mval_ok (obj_abs (rsp_error s))" "mval_ok (obj_abs (rsp_result s))"
  shows "\<exists>r m'. ResponseMarshal (Some s) m = Some (r, m')
      \<and> (r = None \<and> live m' = live m
         \<or> r = Some \<lparr>rb_data = Some (enc (rsp_abs s)), rb_len = length (enc (rsp_abs s))\<rparr>
           \<and> live m' = live m + 2)
      \<and> (nofail m \<and> length (enc (rsp_abs s)) \<le> 2 ^ 62 \<longrightarrow> r \<noteq> None \<and> m' = mem_add 2 m)"
proof -
  obtain w0 m0 where 0: "mpack_writer_init_growable m = (w0, m0)" by fastforce
  obtain w1 m1 where 1: "mpack_start_array w0 4 m0 = (w1, m1)" by fastforce
  obtain w2 m2 where 2: "mpack_write_u8 w1 (ucast (rsp_type s)) m1 = (w2, m2)" by fastforce
  obtain w3 m3 where 3: "mpack_write_u32 w2 (rsp_msgid s) m2 = (w3, m3)" by fastforce
  obtain w4 m4 where 4: "ObjectMarshalMPack (rsp_error s) w3 m3 = Some (w4, m4)"
      "emitted (enc (obj_abs (rsp_error s))) w3 m3 w4 m4"
    using marshal_emits(1) [of "rsp_error s" w3 m3] wf ok by (auto simp: emits_def rsp_wf_def)
  obtain w5 m5 where 5: "ObjectMarshalMPack (rsp_result s) w4 m4 = Some (w5, m5)"
      "emitted (enc (obj_abs (rsp_result s))) w4 m4 w5 m5"
    using marshal_emits(1) [of "rsp_result s" w4 m4] wf ok by (auto simp: emits_def rsp_wf_def)
  obtain e data m6 where 6: "mpack_writer_destroy w5 m5 = (e, data, m6)" by (metis prod_cases3)
  have em: "emitted (enc (rsp_abs s)) w0 m0 w5 m5"
    using emitted_trans [OF emitted_array [OF 1] emitted_trans [OF emitted_u8 [OF 2]
          emitted_trans [OF emitted_u32 [OF 3] emitted_trans [OF 4(2) 5(2)]]]]
    by (simp add: rsp_abs_def Suc_4)
  define res where "res = (if e \<noteq> mpack_ok then (None, free_opt data m6)
        else (let (buffer, m) = RawBufferNew data (case data of None \<Rightarrow> 0 | Some d \<Rightarrow> length d) m6
              in (buffer, free_opt data m)))"
  have "ResponseMarshal (Some s) m = Some res"
    using 0 1 2 3 4(1) 5(1) 6 by (auto simp: ResponseMarshal_def res_def split: prod.split)
  moreover note finish_copy [OF 0 em 6 enc_nonempty, of "fst res" "snd res"]
  ultimately show ?thesis by (cases res) (simp add: res_def)
qed

lemma wf_exact:
  "obj_wf x \<Longrightarrow> mval_exact (obj_abs x)"
  "arr_wf a \<Longrightarrow> mval_exact (arr_abs a)"
proof (induction x and a rule: obj_wf_arr_wf.induct)
  case (2 v sz)
  then show ?case
    by (cases v) (auto simp: rb_canon_def rb_bytes_def rb_ok_def split: option.splits)
qed (auto simp: list_all_iff)

lemma drop_nil_abs:
  assumes "drop_nil ob m = (ob', m')"
  shows "obj_abs ob' = obj_abs ob" and "obj_wf ob \<Longrightarrow> obj_wf ob'" and "nofail m \<Longrightarrow> nofail m'"
proof -
  have "obj_abs ob = MNil" if "ObjectGetType ob = OBJ_NIL"
    using that
  proof (cases ob)
    case (Some x)
    with that show ?thesis by (cases x; cases "obj_value x") (auto simp: ObjectGetType_def)
  qed simp
  then show "obj_abs ob' = obj_abs ob" "obj_wf ob \<Longrightarrow> obj_wf ob'" "nofail m \<Longrightarrow> nofail m'"
    using assms by (auto simp: drop_nil_def free_add split: if_splits)
qed

lemma ResponseUnmarshal_fields_reads:
  assumes "mval_ok e" "mval_short e" "mval_ok v" "mval_short v" "nofail m"
    and "length (enc e @ enc v @ rest) < fuel"
  shows "\<exists>rs' m'. ResponseUnmarshal_fields fuel rs (rd (enc e @ enc v @ rest)) m = Some (Some rs', m')
      \<and> rsp_type rs' = rsp_type rs \<and> rsp_msgid rs' = rsp_msgid rs \<and> rsp_wf rs'
      \<and> obj_abs (rsp_error rs') = mval_recv e \<and> obj_abs (rsp_result rs') = mval_recv v"
proof -
  obtain eo k where e: "ObjectUnmarshalMPack fuel (rd (enc e @ enc v @ rest)) m
        = Inr (Some eo, rd (enc v @ rest), mem_add k m)" "obj_wf (Some eo)" "obj_abs (Some eo) = mval_recv e"
    using unmarshal_reads [of e m fuel "enc v @ rest"] assms by (auto simp: reads_def)
  obtain eo' m1 where d1: "drop_nil (Some eo) (mem_add k m) = (eo', m1)" by fastforce
  note D1 = drop_nil_abs [OF d1]
  have "reads (mval_recv v) rest m1 (ObjectUnmarshalMPack fuel (rd (enc v @ rest)) m1)"
    using assms D1(3) by (intro unmarshal_reads) auto
  then obtain vo k2 where v: "ObjectUnmarshalMPack fuel (rd (enc v @ rest)) m1
        = Inr (Some vo, rd rest, mem_add k2 m1)" "obj_wf (Some vo)" "obj_abs (Some vo) = mval_recv v"
    by (auto simp: reads_def)
  obtain vo' m2 where d2: "drop_nil (Some vo) (mem_add k2 m1) = (vo', m2)" by fastforce
  note D2 = drop_nil_abs [OF d2]
  show ?thesis
    using e v d1 d2 D1 D2 by (auto simp: ResponseUnmarshal_fields_def rsp_wf_def)
qed

text \<open>Reading any encoded response back.\<close>

lemma ResponseUnmarshal_reads:
  fixes rest :: "byte list"
  assumes "mval_ok e" "mval_short e" "mval_ok v" "mval_short v" "nofail m" "0 \<le> i" "i < 2 ^ 32"
  defines "bs \<equiv> enc (MArr [MInt 1, MInt i, e, v]) @ rest"
  shows "\<exists>s m'. ResponseUnmarshal (Some \<lparr>rb_data = Some bs, rb_len = length bs\<rparr>) m = Some (Some s, m')
      \<and> rsp_type s = HAZE_RPC_RESPONSE \<and> rsp_msgid s = of_int i \<and> rsp_wf s
      \<and> obj_abs (rsp_error s) = mval_recv e \<and> obj_abs (rsp_result s) = mval_recv v"
proof -
  have bs: "bs = enc_arr_head 4 @ enc_int 1 @ enc_int i @ enc e @ enc v @ rest"
    by (simp add: bs_def Suc_4)
  have r: "mpack_reader_init_data bs = rd bs"
    by (simp add: mpack_reader_init_data_def)
  have 1: "mpack_expect_array (rd bs) = (4, rd (enc_int 1 @ enc_int i @ enc e @ enc v @ rest))"
    using expect_array_enc [of 4] by (simp add: bs)
  have 2: "mpack_expect_u8 (rd (enc_int 1 @ enc_int i @ enc e @ enc v @ rest)) =
      (1, rd (enc_int i @ enc e @ enc v @ rest))"
    using expect_u8_enc [of 1] by simp
  have 3: "mpack_expect_u32 (rd (enc_int i @ enc e @ enc v @ rest)) =
      (of_int i, rd (enc e @ enc v @ rest))"
    using expect_u32_enc [of i] assms by simp
  have ne: "length bs \<noteq> 0" by (simp add: bs)
  have len: "length (enc e @ enc v @ rest) < Suc (length bs)"
    by (simp add: bs)
  show ?thesis
    using ResponseUnmarshal_fields_reads [OF assms(1-4) _ len, of "mem_add 1 m"
        "\<lparr>rsp_type = 1, rsp_msgid = of_int i, rsp_error = None, rsp_result = None\<rparr>"] assms(5) ne
    by (simp add: ResponseUnmarshal_def RawBufferLen_def RawBufferData_def r 1 2 3 ResponseNew_def
        malloc_nofail HAZE_RPC_RESPONSE_def del: append_is_Nil_conv)
qed

subsection \<open>Properties\<close>

text \<open>
  C23: Whatever the allocator does, marshalling a well-formed response is defined and ends in one of
  two ways: \<^verbatim>\<open>NULL\<close> with no block left allocated, or a buffer that holds exactly the MessagePack
  encoding of \<^verbatim>\<open>[type, msgid, error, result]\<close> with its two blocks; with no allocation failure (and
  at most \<open>2 ^ 62\<close> bytes) it is the latter.
\<close>

theorem response_marshal_all_or_nothing:
  assumes "rsp_wf s" and "mval_ok (obj_abs (rsp_error s))" "mval_ok (obj_abs (rsp_result s))"
  shows "\<exists>r m'. ResponseMarshal (Some s) m = Some (r, m')
      \<and> (r = None \<and> live m' = live m
         \<or> r = Some \<lparr>rb_data = Some (enc (rsp_abs s)), rb_len = length (enc (rsp_abs s))\<rparr>
           \<and> live m' = live m + 2)
      \<and> (nofail m \<and> length (enc (rsp_abs s)) \<le> 2 ^ 62 \<longrightarrow> r \<noteq> None)"
  using ResponseMarshal_cases [OF assms, of m] by blast

theorem response_marshal_all_or_nothing_witness:
  "\<exists>r m'. ResponseMarshal (Some \<lparr>rsp_type = 1, rsp_msgid = 7, rsp_error = None,
        rsp_result = Some (Object (V_INT 5) 8)\<rparr>) \<lparr>outcomes = [True, True, False], live = 0\<rparr> = Some (r, m')
     \<and> (r = None \<and> live m' = 0 \<or> r \<noteq> None \<and> live m' = 2)"
  using response_marshal_all_or_nothing [of "\<lparr>rsp_type = 1, rsp_msgid = 7, rsp_error = None,
        rsp_result = Some (Object (V_INT 5) 8)\<rparr>" "\<lparr>outcomes = [True, True, False], live = 0\<rparr>"]
  by (auto simp: rsp_wf_def)

text \<open>
  C10: A response survives the wire: marshalling and unmarshalling again gives a response of the same
  type and message id whose error and result stand for the same values (nested arrays included).
\<close>

theorem response_roundtrip:
  assumes wf: "rsp_wf s" "rsp_type s = HAZE_RPC_RESPONSE"
    and ok: "mval_ok (obj_abs (rsp_error s))" "mval_ok (obj_abs (rsp_result s))"
    and short: "mval_short (obj_abs (rsp_error s))" "mval_short (obj_abs (rsp_result s))"
    and m: "nofail m" "length (enc (rsp_abs s)) \<le> 2 ^ 62"
  shows "\<exists>b m1 s' m2. ResponseMarshal (Some s) m = Some (Some b, m1)
      \<and> ResponseUnmarshal (Some b) m1 = Some (Some s', m2)
      \<and> rsp_type s' = rsp_type s \<and> rsp_msgid s' = rsp_msgid s
      \<and> obj_abs (rsp_error s') = obj_abs (rsp_error s)
      \<and> obj_abs (rsp_result s') = obj_abs (rsp_result s)"
proof -
  let ?bs = "enc (rsp_abs s)"
  have M: "ResponseMarshal (Some s) m =
      Some (Some \<lparr>rb_data = Some ?bs, rb_len = length ?bs\<rparr>, mem_add 2 m)"
    using ResponseMarshal_cases [OF wf(1) ok, of m] m by auto
  have "rsp_abs s = MArr [MInt 1, MInt (uint (rsp_msgid s)), obj_abs (rsp_error s), obj_abs (rsp_result s)]"
    using wf(2) by (simp add: rsp_abs_def HAZE_RPC_RESPONSE_def)
  then have "\<exists>s' m'. ResponseUnmarshal (Some \<lparr>rb_data = Some ?bs, rb_len = length ?bs\<rparr>) (mem_add 2 m)
        = Some (Some s', m')
      \<and> rsp_type s' = HAZE_RPC_RESPONSE \<and> rsp_msgid s' = rsp_msgid s \<and> rsp_wf s'
      \<and> obj_abs (rsp_error s') = obj_abs (rsp_error s)
      \<and> obj_abs (rsp_result s') = obj_abs (rsp_result s)"
    using ResponseUnmarshal_reads [OF ok(1) short(1) ok(2) short(2), of "mem_add 2 m"
        "uint (rsp_msgid s)" "[]"] m wf(1) uint_lt2p [of "rsp_msgid s"]
    by (simp add: mval_recv_exact wf_exact rsp_wf_def del: enc.simps)
  with M wf(2) show ?thesis by auto
qed

theorem response_roundtrip_witness:
  "\<exists>b m1 s' m2. ResponseMarshal (Some \<lparr>rsp_type = 1, rsp_msgid = 7, rsp_error = None,
        rsp_result = Some (Object (V_ARRAY (Some (ObjectArray [Some (Object (V_INT 5) 8)] 8))) 0)\<rparr>)
        \<lparr>outcomes = [], live = 0\<rparr> = Some (Some b, m1)
     \<and> ResponseUnmarshal (Some b) m1 = Some (Some s', m2)
     \<and> rsp_type s' = 1 \<and> rsp_msgid s' = 7 \<and> obj_abs (rsp_error s') = MNil
     \<and> obj_abs (rsp_result s') = MArr [MInt 5]"
  using response_roundtrip [of "\<lparr>rsp_type = 1, rsp_msgid = 7, rsp_error = None,
        rsp_result = Some (Object (V_ARRAY (Some (ObjectArray [Some (Object (V_INT 5) 8)] 8))) 0)\<rparr>"
        "\<lparr>outcomes = [], live = 0\<rparr>"]
  by (simp add: rsp_wf_def HAZE_RPC_RESPONSE_def nofail_def rsp_abs_def enc_arr_head_def enc_int_def)

text \<open>
  The head of a string of \<open>2 ^ 32 - 1\<close> bytes, inside any number of arrays: the 32-bit \<^verbatim>\<open>len + 1\<close> wraps to 0.
\<close>

definition wrap_head :: "nat \<Rightarrow> byte list" where
  "wrap_head d = replicate d 0x91 @ [0xdb, 0xff, 0xff, 0xff, 0xff]"

lemma unmarshal_wrap_head:
  assumes "nofail m" "d < fuel"
  shows "ObjectUnmarshalMPack fuel (rd (wrap_head d @ rest)) m = Inl Undefined"
  using assms
proof (induction d arbitrary: fuel m)
  case 0
  then show ?case
    by (cases fuel) (simp_all add: wrap_head_def mpack_read_tag_def parse_defs mpack_load_u32_def malloc_nofail)
next
  case (Suc d)
  then obtain k where k: "fuel = Suc k" "d < k" by (cases fuel) auto
  have "mpack_read_tag (rd (wrap_head (Suc d) @ rest)) = (Tag_array 1, rd (wrap_head d @ rest))"
    using read_tag_arr_head [of 1 "wrap_head d @ rest"] by (simp add: wrap_head_def enc_arr_head_def)
  then show ?case using k Suc.IH [of "mem_add 2 m" k] Suc.prems(1) by (simp add: ObjectArrayCreate_nofail)
qed

lemma ResponseUnmarshal_wrap:
  fixes rest :: "byte list" and d :: nat
  assumes "nofail m" "0 \<le> i" "i < 2 ^ 32" "pre = [] \<or> (\<exists>e. pre = enc e \<and> mval_ok e \<and> mval_short e)"
  defines "bs \<equiv> enc_arr_head 4 @ enc_int 1 @ enc_int i @ pre @ wrap_head d @ rest"
  shows "ResponseUnmarshal (Some \<lparr>rb_data = Some bs, rb_len = length bs\<rparr>) m = None"
proof -
  let ?w = "wrap_head d @ rest"
  have 1: "mpack_expect_array (mpack_reader_init_data bs) = (4, rd (enc_int 1 @ enc_int i @ pre @ ?w))"
    using expect_array_enc [of 4] by (simp add: bs_def mpack_reader_init_data_def)
  have 2: "mpack_expect_u8 (rd (enc_int 1 @ enc_int i @ pre @ ?w)) = (1, rd (enc_int i @ pre @ ?w))"
    using expect_u8_enc [of 1] by simp
  have 3: "mpack_expect_u32 (rd (enc_int i @ pre @ ?w)) = (of_int i, rd (pre @ ?w))"
    using expect_u32_enc [of i] assms(2,3) by simp
  have ne: "length bs \<noteq> 0" by (simp add: bs_def)
  have len: "d < Suc (length bs)" "length pre \<le> Suc (length bs)" by (simp_all add: bs_def wrap_head_def)
  have F: "ResponseUnmarshal_fields (Suc (length bs)) q (rd (pre @ ?w)) (mem_add 1 m) = None" for q
  proof (cases "pre = []")
    case True
    then show ?thesis using unmarshal_wrap_head [OF _ len(1), of "mem_add 1 m" rest] assms(1)
      by (simp add: ResponseUnmarshal_fields_def del: ObjectUnmarshalMPack.simps)
  next
    case False
    then obtain e where e: "pre = enc e" "mval_ok e" "mval_short e" using assms(4) by auto
    have "reads (mval_recv e) ?w (mem_add 1 m) (ObjectUnmarshalMPack (Suc (length bs)) (rd (enc e @ ?w)) (mem_add 1 m))"
      by (rule unmarshal_reads [OF e(2,3)]) (use assms(1) len(2) e(1) in simp_all)
    then obtain x k where x: "ObjectUnmarshalMPack (Suc (length bs)) (rd (enc e @ ?w)) (mem_add 1 m) = Inr (x, rd ?w, mem_add k (mem_add 1 m))"
      unfolding reads_def by blast
    have "nofail (snd (drop_nil x (mem_add k (mem_add 1 m))))"
      using assms(1) by (simp add: drop_nil_def free_add)
    then show ?thesis
      using x e(1) unmarshal_wrap_head [OF _ len(1), of _ rest]
      by (simp add: ResponseUnmarshal_fields_def case_prod_beta del: ObjectUnmarshalMPack.simps)
  qed
  show ?thesis
    using F assms(1) ne
    by (simp add: ResponseUnmarshal_def RawBufferLen_def RawBufferData_def 1 2 3 ResponseNew_def malloc_nofail
        HAZE_RPC_RESPONSE_def)
qed

text \<open>
  C40: A response whose error or result field is a string of announced length \<open>2 ^ 32 - 1\<close>, alone or inside any number of
  arrays, makes \<^verbatim>\<open>ResponseUnmarshal\<close> run into undefined behaviour when no allocation fails, whatever the message id and
  whatever bytes follow, none included: the 32-bit \<^verbatim>\<open>len + 1\<close> wraps to 0, and the read clears \<open>2 ^ 32 - 1\<close> bytes of a
  block of size 0.
\<close>

theorem response_unmarshal_length_wrap:
  assumes "nofail m" "0 \<le> i" "i < 2 ^ 32" "pre = [] \<or> (\<exists>e. pre = enc e \<and> mval_ok e \<and> mval_short e)"
    and "bs = enc_arr_head 4 @ enc_int 1 @ enc_int i @ pre @ replicate d 0x91 @ [0xdb, 0xff, 0xff, 0xff, 0xff] @ rest"
  shows "ResponseUnmarshal (Some \<lparr>rb_data = Some bs, rb_len = length bs\<rparr>) m = None"
  using ResponseUnmarshal_wrap [OF assms(1-4), of d rest] by (simp add: assms(5) wrap_head_def)

theorem response_unmarshal_length_wrap_witness:
  "ResponseUnmarshal (Some \<lparr>rb_data = Some [0x94, 1, 7, 0xc0, 0x91, 0xdb, 0xff, 0xff, 0xff, 0xff, 42], rb_len = 11\<rparr>)
     \<lparr>outcomes = [], live = 0\<rparr> = None"
proof -
  have "pre = [] \<or> (\<exists>e. pre = enc e \<and> mval_ok e \<and> mval_short e)" if "pre = [0xc0]" for pre
    using that by (intro disjI2 exI [of _ MNil]) simp
  from response_unmarshal_length_wrap [OF _ _ _ this [OF refl] refl, of "\<lparr>outcomes = [], live = 0\<rparr>" 7 1 "[42]"] show ?thesis
    by (simp add: nofail_def enc_arr_head_def enc_int_def eval_nat_numeral)
qed

subsection \<open>Constructors\<close>

text \<open>A response made for a given request, with the blocks it holds.\<close>

definition rsp_blocks :: "Response option \<Rightarrow> int" where
  "rsp_blocks s = (case s of None \<Rightarrow> 0 | Some r \<Rightarrow> 1 + obj_blocks (rsp_error r) + obj_blocks (rsp_result r))"

definition rsp_plain :: "Response option \<Rightarrow> bool" where
  "rsp_plain s = (case s of None \<Rightarrow> True | Some r \<Rightarrow> obj_plain (rsp_error r) \<and> obj_plain (rsp_result r))"

lemma ResponseFree_live:
  "rsp_plain s \<Longrightarrow> live (snd (ResponseFree s m)) = live m - rsp_blocks s"
  by (auto simp: ResponseFree_def rsp_plain_def rsp_blocks_def free_add plain_freed split: option.splits)

lemma ResponseNew_cases:
  "ResponseNew m = (r, m') \<Longrightarrow>
     (r = None \<and> live m' = live m \<and> \<not> nofail m
      \<or> r = Some \<lparr>rsp_type = HAZE_RPC_RESPONSE, rsp_msgid = 0, rsp_error = None, rsp_result = None\<rparr>
        \<and> live m' = live m + 1 \<and> (nofail m \<longrightarrow> nofail m'))"
  using malloc_live [of m] malloc_nofailD [of m]
  by (auto simp: ResponseNew_def malloc_nofail split: prod.splits if_splits)

lemma create_with_cases:
  "create_with ob m = (r, m') \<Longrightarrow>
     (r = None \<and> live m' = live m \<and> \<not> nofail m
      \<or> r = Some ob \<and> live m' = live m + 1 \<and> (nofail m \<longrightarrow> nofail m'))"
  by (auto simp: create_with_def dest: ObjectNew_cases split: prod.splits if_splits)

lemma ObjectCreateStr_cases:
  assumes "ObjectCreateStr str m = (r, m')"
  shows "r = None \<and> live m' = live m \<and> \<not> nofail m
    \<or> (\<exists>s. s = (case str of Some s \<Rightarrow> s | None \<Rightarrow> cstr ''NULL'')
        \<and> r = Some (Object (V_STR (Some s)) (length s)))
      \<and> live m' = live m + 2 \<and> (nofail m \<longrightarrow> nofail m')"
proof -
  obtain ob m1 where 1: "ObjectNew m = (ob, m1)" by fastforce
  obtain c m2 where 2: "strdup (case str of Some s \<Rightarrow> s | None \<Rightarrow> cstr ''NULL'') m1 = (c, m2)"
    by fastforce
  show ?thesis
    using assms ObjectNew_cases [OF 1] strdup_live [OF 2] strdup_result [OF 2] 1 2
    by (auto simp: ObjectCreateStr_def strdup_nofail split: if_splits option.splits)
qed

text \<open>
  What a constructor delivers under any allocator: \<^verbatim>\<open>NULL\<close> and nothing allocated, or a response with
  the message id, whose fields satisfy \<open>P\<close> when no allocation fails.
\<close>

definition created ::
  "u32 \<Rightarrow> (Object option \<Rightarrow> Object option \<Rightarrow> bool) \<Rightarrow> mem \<Rightarrow> Response option \<times> mem \<Rightarrow> bool" where
  "created msgid P m res \<longleftrightarrow>
     (let (r, m') = res in
      live m' = live m + rsp_blocks r \<and> rsp_plain r
    \<and> (case r of
         None \<Rightarrow> \<not> nofail m
       | Some s \<Rightarrow> rsp_type s = HAZE_RPC_RESPONSE \<and> rsp_msgid s = msgid
           \<and> (nofail m \<longrightarrow> nofail m' \<and> P (rsp_error s) (rsp_result s))))"

lemmas response_set_defs = ResponseSetMsgId_def ResponseSetResultObject_def
lemmas created_defs = created_def rsp_blocks_def rsp_plain_def

lemma ResponseCreateString_created:
  "created msgid (\<lambda>e r. e = None \<and> r = Some (Object (V_STR (Some s)) (length s))) m
     (ResponseCreateString msgid (Some s) m)"
proof -
  obtain r m1 where 1: "ResponseNew m = (r, m1)" by fastforce
  obtain ob m2 where 2: "ObjectCreateStr (Some s) m1 = (ob, m2)" by fastforce
  show ?thesis
    using ResponseNew_cases [OF 1] ObjectCreateStr_cases [OF 2]
    by (auto simp: created_defs ResponseCreateString_def response_set_defs 1 2)
qed

lemma ResponseCreateError_created:
  "created msgid (\<lambda>e r. r = None \<and> e = Some (case err of
       Some s \<Rightarrow> Object (V_STR (Some s)) (length s) | None \<Rightarrow> Object V_NIL 0)) m
     (ResponseCreateError msgid err m)"
proof -
  obtain r m1 where 1: "ResponseNew m = (r, m1)" by fastforce
  obtain ob m2 where 2: "ObjectCreateStr err m1 = (ob, m2)" by fastforce
  obtain n m3 where 3: "create_with (Object V_NIL 0) m1 = (n, m3)" by fastforce
  show ?thesis
    using ResponseNew_cases [OF 1] ObjectCreateStr_cases [OF 2] create_with_cases [OF 3] 2
    by (cases err) (auto simp: created_defs ResponseCreateError_def 1 3 create_defs)
qed

lemma ResponseCreateInt_created:
  "created msgid (\<lambda>e r. e = None \<and> r = Some (Object (V_INT v) 8)) m (ResponseCreateInt msgid v m)"
proof -
  obtain r m1 where 1: "ResponseNew m = (r, m1)" by fastforce
  obtain ob m2 where 2: "create_with (Object (V_INT v) 8) m1 = (ob, m2)" by fastforce
  show ?thesis
    using ResponseNew_cases [OF 1] create_with_cases [OF 2]
    by (auto simp: created_defs ResponseCreateInt_def response_set_defs 1 2 create_defs)
qed

lemma ResponseCreateResult_created:
  "created msgid (\<lambda>e r. e = None \<and> r = Some (if res_success res then Object V_NIL 0
       else let s = (case res_msg res of Some s \<Rightarrow> s | None \<Rightarrow> cstr ''NULL'')
            in Object (V_STR (Some s)) (length s))) m
     (ResponseCreateResult msgid res m)"
proof -
  obtain r m1 where 1: "ResponseNew m = (r, m1)" by fastforce
  obtain ob m2 where 2: "ObjectCreateStr (res_msg res) m1 = (ob, m2)" by fastforce
  obtain n m3 where 3: "create_with (Object V_NIL 0) m1 = (n, m3)" by fastforce
  show ?thesis
    using ResponseNew_cases [OF 1] ObjectCreateStr_cases [OF 2] create_with_cases [OF 3]
    by (auto simp: created_defs ResponseCreateResult_def response_set_defs 1 2 3 create_defs
        ResultIsOk_def Let_def)
qed

lemma created_balanced:
  "created msgid P m (r, m') \<Longrightarrow>
   live (snd (ResponseFree r m')) = live m \<and> (\<forall>s. r = Some s \<longrightarrow> rsp_msgid s = msgid)"
  by (auto simp: created_def ResponseFree_live)

lemma ResponseCreateNilResult_nofail:
  "nofail m \<Longrightarrow> ResponseCreateNilResult msgid m =
     (Some \<lparr>rsp_type = HAZE_RPC_RESPONSE, rsp_msgid = msgid, rsp_error = None,
            rsp_result = Some (Object V_NIL 0)\<rparr>, mem_add 2 m)"
  by (simp add: ResponseCreateNilResult_def ResponseNew_def malloc_nofail response_set_defs
      create_defs create_nofail)

lemma append_strs_spec:
  assumes "append_strs vs (Some a) m = (r, m')" and "nofail m" "arr_wf (Some a)"
    and "list_all no_nul vs" "arr_plain (Some a)"
  shows "\<exists>a'. r = Some a' \<and> arr_wf r \<and> arr_plain r \<and> nofail m'
     \<and> map obj_abs (arr_objects a') = map obj_abs (arr_objects a) @ map MStr vs
     \<and> live m' - arr_blocks r = live m - arr_blocks (Some a) + 2 * int (length vs)"
  using assms
proof (induction vs arbitrary: a m)
  case (Cons v vs)
  let ?ob = "Object (V_STR (Some v)) (length v)"
  obtain ok r1 m1 where ap: "ObjectArrayAppend (Some a) (Some ?ob) (mem_add 2 m) = (ok, r1, m1)"
    by (metis prod_cases3)
  have wf: "obj_wf (Some ?ob)" using Cons.prems by simp
  from ap Cons.prems(3) wf obtain a1 where a1: "r1 = Some a1" "arr_wf r1" "ok"
      "arr_objects a1 = arr_objects a @ [copy_obj (Some ?ob)]"
      "m1 = mem_add (obj_blocks (copy_obj (Some ?ob))) (mem_add 2 m)"
    using Cons.prems(2) by (elim ObjectArrayAppend_wf) auto
  have "append_strs vs (Some a1) m1 = (r, m')"
    using Cons.prems(1,2) ap a1 by (simp add: ObjectCreateStr_nofail)
  moreover have "arr_plain (Some a1)"
    using Cons.prems(5) a1 by (auto simp: arr_plain_eq)
  ultimately have "\<exists>a'. r = Some a' \<and> arr_wf r \<and> arr_plain r \<and> nofail m'
     \<and> map obj_abs (arr_objects a') = map obj_abs (arr_objects a1) @ map MStr vs
     \<and> live m' - arr_blocks r = live m1 - arr_blocks (Some a1) + 2 * int (length vs)"
    using Cons.prems a1 by (intro Cons.IH) auto
  then show ?case
    using a1 by (auto simp: arr_blocks_eq)
qed auto

lemma str_array_created:
  assumes "nofail m" and "list_all no_nul vs"
  shows "\<exists>s m'. ResponseCreateStrArrayResult msgid (Some vs) m = (Some s, m')
     \<and> rsp_msgid s = msgid \<and> rsp_type s = HAZE_RPC_RESPONSE \<and> rsp_error s = None \<and> obj_abs (rsp_result s) = MArr (map MStr vs)
     \<and> live (snd (ResponseFree (Some s) m')) = live m + 2 * int (length vs)"
proof -
  obtain r m1 where ap: "append_strs vs (Some (ObjectArray [] (cap_for 0))) (mem_add 3 m) = (r, m1)"
    by fastforce
  from append_strs_spec [OF this] assms obtain a where a: "r = Some a" "arr_wf r" "arr_plain r"
      "nofail m1" "map obj_abs (arr_objects a) = map MStr vs"
      "live m1 - arr_blocks r = live m + 1 + 2 * int (length vs)"
    by (auto simp: cap_for_pos)
  have "ResponseCreateStrArrayResult msgid (Some vs) m =
      (Some \<lparr>rsp_type = HAZE_RPC_RESPONSE, rsp_msgid = msgid, rsp_error = None,
             rsp_result = Some (Object (V_ARRAY r) 0)\<rparr>, mem_add 1 m1)"
    using assms ap a by (simp add: ResponseCreateStrArrayResult_def ResponseNew_def malloc_nofail
        ObjectArrayCreate_nofail ObjectNew_nofail response_set_defs)
  moreover have "arr_abs r = MArr (map MStr vs)"
    using a(1,5) by (cases a) simp
  ultimately show ?thesis
    using a by (auto simp: ResponseFree_live rsp_plain_def rsp_blocks_def)
qed

text \<open>
  \<^verbatim>\<open>ResponseCreateStrArrayResult\<close> answers with the array of the given strings, but every string
  object it appends is copied and the original never released: after freeing the response, two
  blocks per string stay allocated.
\<close>

theorem response_str_array_leaks:
  assumes "nofail m" and "list_all no_nul vs"
  shows "\<exists>s m'. ResponseCreateStrArrayResult msgid (Some vs) m = (Some s, m')
     \<and> rsp_msgid s = msgid \<and> rsp_error s = None \<and> obj_abs (rsp_result s) = MArr (map MStr vs)
     \<and> live (snd (ResponseFree (Some s) m')) = live m + 2 * int (length vs)"
  using str_array_created [OF assms, of msgid] by blast

theorem response_str_array_leaks_witness:
  "\<exists>s m'. ResponseCreateStrArrayResult 9 (Some [[65], [66, 67]]) \<lparr>outcomes = [], live = 0\<rparr> = (Some s, m')
     \<and> obj_abs (rsp_result s) = MArr [MStr [65], MStr [66, 67]]
     \<and> live (snd (ResponseFree (Some s) m')) = 4"
  using response_str_array_leaks [of "\<lparr>outcomes = [], live = 0\<rparr>" "[[65], [66, 67]]" 9]
  by (auto simp: nofail_def no_nul_def)

text \<open>
  What a constructor leaves: after \<^verbatim>\<open>ResponseFree\<close> of what it returned, \<open>k\<close> blocks more than before; and what it
  returned is a response with the id, or \<^verbatim>\<open>NULL\<close>, which takes a failed allocation.
\<close>

definition leaves :: "u32 \<Rightarrow> int \<Rightarrow> mem \<Rightarrow> Response option \<times> mem \<Rightarrow> bool" where
  "leaves msgid k m res \<longleftrightarrow>
     live (snd (ResponseFree (fst res) (snd res))) = live m + k \<and> (fst res = None \<longrightarrow> \<not> nofail m)
     \<and> (\<forall>x. fst res = Some x \<longrightarrow> rsp_msgid x = msgid \<and> rsp_type x = HAZE_RPC_RESPONSE)"

text \<open>\<^verbatim>\<open>ResponseCreateNilResult\<close> does not look at the response: without one it loses the nil object it makes.\<close>

definition nil_lost :: "mem \<Rightarrow> int" where
  "nil_lost m = of_bool (\<not> fst (malloc m) \<and> fst (malloc (snd (malloc m))))"

lemma created_leaves: "created msgid P m res \<Longrightarrow> leaves msgid 0 m res"
  by (cases res) (auto simp: created_def leaves_def ResponseFree_live split: option.splits)

lemma ResponseCreateString_leaves: "leaves msgid 0 m (ResponseCreateString msgid s m)"
proof -
  obtain r m1 where 1: "ResponseNew m = (r, m1)" by fastforce
  obtain ob m2 where 2: "ObjectCreateStr s m1 = (ob, m2)" by fastforce
  have "created msgid (\<lambda>e r. True) m (ResponseCreateString msgid s m)"
    using ResponseNew_cases [OF 1] ObjectCreateStr_cases [OF 2]
    by (auto simp: created_defs ResponseCreateString_def response_set_defs 1 2)
  then show ?thesis by (rule created_leaves)
qed

lemma ResponseCreateNilResult_leaves: "leaves msgid (nil_lost m) m (ResponseCreateNilResult msgid m)"
proof -
  obtain ok m1 where 1: "malloc m = (ok, m1)" by fastforce
  obtain ok2 m2 where 2: "malloc m1 = (ok2, m2)" by fastforce
  show ?thesis
    using malloc_live [OF 1] malloc_live [OF 2] malloc_nofailD [OF 1]
    by (cases ok; cases ok2) (auto simp: ResponseCreateNilResult_def ResponseNew_def create_defs create_with_def ObjectNew_def
        response_set_defs leaves_def nil_lost_def ResponseFree_def free_add 1 2)
qed

lemma ResponseCreateResultAudio_leaves:
  "leaves msgid ((if ra_success ra then nil_lost m else 0) - ra_blocks ra) m (ResponseCreateResultAudio msgid ra m)"
proof -
  define res where "res = (if ra_success ra then ResponseCreateNilResult msgid m else ResponseCreateError msgid (ra_msg ra) m)"
  have "leaves msgid (if ra_success ra then nil_lost m else 0) m res"
    using ResponseCreateNilResult_leaves [of msgid m] created_leaves [OF ResponseCreateError_created] by (simp add: res_def)
  moreover have "ResponseCreateResultAudio msgid ra m = (fst res, snd (ResultAudioFree ra (snd res)))"
    by (simp add: ResponseCreateResultAudio_def res_def [symmetric] case_prod_beta)
  ultimately show ?thesis
    by (auto simp: leaves_def ResponseFree_def ResultAudioFree_def ra_blocks_def free_add mem_simps split: option.splits)
qed

text \<open>
  C24: What the constructors of responses leave once their response is released, under any allocator. A response built by
  the string, error, integer, result or ok constructor carries the id it was given, and releasing it gives back every block
  the constructor allocated, also when the constructor fails half-way; \<^verbatim>\<open>NULL\<close> takes a failed allocation. The nil result
  loses one block when the response cannot be allocated but the nil object can. The audio result does the same for a
  success, and takes the message of the result with it. The string array result, when no allocation fails and the strings
  have no NUL, leaks two blocks per string.
\<close>

theorem response_constructors_balanced:
  "leaves msgid 0 m (ResponseCreateString msgid s m)
   \<and> leaves msgid 0 m (ResponseCreateError msgid e m)
   \<and> leaves msgid 0 m (ResponseCreateInt msgid v m)
   \<and> leaves msgid 0 m (ResponseCreateResult msgid res m)
   \<and> leaves msgid 0 m (ResponseCreateOk msgid m)
   \<and> leaves msgid (nil_lost m) m (ResponseCreateNilResult msgid m)
   \<and> leaves msgid ((if ra_success ra then nil_lost m else 0) - ra_blocks ra) m (ResponseCreateResultAudio msgid ra m)
   \<and> (nofail m \<and> list_all no_nul vs \<longrightarrow> leaves msgid (2 * int (length vs)) m (ResponseCreateStrArrayResult msgid (Some vs) m))"
proof (intro conjI impI)
  assume "nofail m \<and> list_all no_nul vs"
  then obtain x m' where "ResponseCreateStrArrayResult msgid (Some vs) m = (Some x, m')" "rsp_msgid x = msgid"
      "rsp_type x = HAZE_RPC_RESPONSE" "live (snd (ResponseFree (Some x) m')) = live m + 2 * int (length vs)"
    using str_array_created [of m vs msgid] by blast
  then show "leaves msgid (2 * int (length vs)) m (ResponseCreateStrArrayResult msgid (Some vs) m)"
    by (simp add: leaves_def)
qed (simp_all add: ResponseCreateOk_def ResponseCreateString_leaves ResponseCreateNilResult_leaves ResponseCreateResultAudio_leaves
    created_leaves [OF ResponseCreateError_created] created_leaves [OF ResponseCreateInt_created]
    created_leaves [OF ResponseCreateResult_created])

theorem response_constructors_balanced_witness:
  "leaves 3 0 \<lparr>outcomes = [True, True, False], live = 5\<rparr> (ResponseCreateError 3 (Some [65]) \<lparr>outcomes = [True, True, False], live = 5\<rparr>)
   \<and> leaves 3 1 \<lparr>outcomes = [False], live = 5\<rparr> (ResponseCreateNilResult 3 \<lparr>outcomes = [False], live = 5\<rparr>)
   \<and> leaves 3 2 \<lparr>outcomes = [], live = 5\<rparr> (ResponseCreateStrArrayResult 3 (Some [[65]]) \<lparr>outcomes = [], live = 5\<rparr>)"
  using response_constructors_balanced [of 3 "\<lparr>outcomes = [True, True, False], live = 5\<rparr>" None "Some [65]"]
    response_constructors_balanced [of 3 "\<lparr>outcomes = [False], live = 5\<rparr>"]
    response_constructors_balanced [of 3 "\<lparr>outcomes = [], live = 5\<rparr>", where vs = "[[65]]"]
  by (simp add: nil_lost_def malloc_def mem_add_def nofail_def no_nul_def)

end
