(* ===== verification/Client_Response.thy ===== *)
theory Client_Response
  imports Client_Object_Laws Haze_Response
begin

text \<open>
  \<^verbatim>\<open>clients/cpp/src/proto/Response.cpp\<close>, \<^verbatim>\<open>Response.hpp\<close> and \<^verbatim>\<open>MessagePackRPC.hpp\<close>: the responses of the C++
  client and their encoding with MPack. Exceptions are the \<open>Inl\<close> case of a result. The blocks whose size
  the peer announces (a string, a binary, the elements of an array) may be refused: \<open>alloc\<close> tells which
  requests succeed, and a refused one throws \<^verbatim>\<open>std::bad_alloc\<close>. Copies of data that is already there are
  assumed to succeed.
\<close>

unbundle bit_operations_syntax

subsection \<open>Message types\<close>

text \<open>\<^verbatim>\<open>enum class RPCType : uint8_t\<close>; a \<^verbatim>\<open>static_cast\<close> can give it any byte.\<close>

type_synonym RPCType = byte

definition RPCType_Request :: RPCType where "RPCType_Request = 0"
definition RPCType_Response :: RPCType where "RPCType_Response = 1"
definition RPCType_Notification :: RPCType where "RPCType_Notification = 2"

datatype RPCError =
    RPCError_None | MalformedRequest | ParseError | InvalidRequest | MethodNotFound | InvalidParams
  | InternalError | ServerError | Timeout | ConnectionClosed | RPCError_Unknown

subsection \<open>Objects on the wire\<close>

fun Client_ObjectMarshalMPack :: "ClientObject \<Rightarrow> mpack_writer \<Rightarrow> mem \<Rightarrow> cpp_exn + mpack_writer \<times> mem"
and Client_ObjectMarshalMPack_loop ::
  "ClientObject list \<Rightarrow> mpack_writer \<Rightarrow> mem \<Rightarrow> cpp_exn + mpack_writer \<times> mem" where
  "Client_ObjectMarshalMPack (ClientObject t v) w m =
     (case t of
        Ty_Und \<Rightarrow> Inr (mpack_write_nil w m)
      | Ty_Nil \<Rightarrow> Inr (mpack_write_nil w m)
      | Ty_Bool \<Rightarrow> bindE (get_bool v) (\<lambda>b. Inr (mpack_write_bool w b m))
      | Ty_Int \<Rightarrow> bindE (get_int64 v) (\<lambda>i. Inr (mpack_write_int w i m))
      | Ty_UInt \<Rightarrow> bindE (get_uint64 v) (\<lambda>u. Inr (mpack_write_uint w u m))
      | Ty_Float \<Rightarrow> bindE (get_float v) (\<lambda>f. Inr (mpack_write_float w f m))
      | Ty_Double \<Rightarrow> bindE (get_double v) (\<lambda>d. Inr (mpack_write_double w d m))
      | Ty_Str \<Rightarrow> bindE (get_string v) (\<lambda>s. Inr (mpack_write_str w (take (cast_u32 (length s)) s) m))
      | Ty_Bin \<Rightarrow> bindE (get_binary v) (\<lambda>s.
          if s \<noteq> [] then Inr (mpack_write_bin w (take (cast_u32 (length s)) s) m)
          else Inr (mpack_write_nil w m))
      | Ty_Array \<Rightarrow>
          (case v of
             alt_array arr \<Rightarrow>
               (let (w, m) = mpack_start_array w (to_u32 (length arr)) m
                in Client_ObjectMarshalMPack_loop arr w m)
           | _ \<Rightarrow> Inl Bad_variant_access)
      | Ty_Map \<Rightarrow> Inr (mpack_write_nil w m))"
| "Client_ObjectMarshalMPack_loop [] w m = Inr (w, m)"
| "Client_ObjectMarshalMPack_loop (x # xs) w m =
     bindE (Client_ObjectMarshalMPack x w m) (\<lambda>(w, m). Client_ObjectMarshalMPack_loop xs w m)"

text \<open>
  The decoder recurses on nested arrays without a limit; the fuel bounds the nesting and \<open>None\<close> means it
  ran out, which cannot happen once it exceeds the number of unread bytes (\<open>client_unmarshal_has_fuel\<close>).
  The loop does not stop at a reader error: it appends a nil per announced element.
\<close>

datatype cpp_request = Alloc_bytes nat | Alloc_objects nat

fun Client_ObjectUnmarshalMPack ::
  "(cpp_request \<Rightarrow> bool) \<Rightarrow> nat \<Rightarrow> mpack_reader \<Rightarrow> (cpp_exn + ClientObject \<times> mpack_reader) option"
and Client_ObjectUnmarshalMPack_loop ::
  "(cpp_request \<Rightarrow> bool) \<Rightarrow> nat \<Rightarrow> nat \<Rightarrow> ClientObject list \<Rightarrow> mpack_reader \<Rightarrow>
   (cpp_exn + ClientObject list \<times> mpack_reader) option" where
  "Client_ObjectUnmarshalMPack alloc 0 r = None"
| "Client_ObjectUnmarshalMPack alloc (Suc fuel) r =
     (let (tag, r) = mpack_read_tag r in
      if r_error r \<noteq> mpack_ok then Some (Inr (Object_CreateNil, r))
      else (case tag of
          Tag_nil \<Rightarrow> Some (Inr (Object_CreateNil, r))
        | Tag_bool b \<Rightarrow> Some (Inr (Object_CreateBool b, r))
        | Tag_int i \<Rightarrow> Some (Inr (Object_CreateInt i, r))
        | Tag_uint u \<Rightarrow> Some (Inr (Object_CreateUInt u, r))
        | Tag_float f \<Rightarrow> Some (Inr (Object_CreateFloat f, r))
        | Tag_double d \<Rightarrow> Some (Inr (Object_CreateDouble d, r))
        | Tag_str len \<Rightarrow>
            if \<not> alloc (Alloc_bytes (unat len)) then Some (Inl Bad_alloc)
            else (let (str, r) = mpack_read_bytes r (unat len) in Some (Inr (Object_CreateStr str, r)))
        | Tag_bin len \<Rightarrow>
            if \<not> alloc (Alloc_bytes (unat len)) then Some (Inl Bad_alloc)
            else (let (bin, r) = mpack_read_bytes r (unat len) in Some (Inr (Object_of_binary bin, r)))
        | Tag_array count \<Rightarrow>
            if \<not> alloc (Alloc_objects (unat count)) then Some (Inl Bad_alloc)
            else (case Client_ObjectUnmarshalMPack_loop alloc fuel (unat count) [] r of
                    None \<Rightarrow> None
                  | Some (Inl e) \<Rightarrow> Some (Inl e)
                  | Some (Inr (arr, r)) \<Rightarrow> Some (Inr (Object_of_array arr, r)))
        | _ \<Rightarrow> Some (Inr (Object_CreateNil, r))))"
| "Client_ObjectUnmarshalMPack_loop alloc fuel 0 arr r = Some (Inr (arr, r))"
| "Client_ObjectUnmarshalMPack_loop alloc fuel (Suc count) arr r =
     (case Client_ObjectUnmarshalMPack alloc fuel r of
        None \<Rightarrow> None
      | Some (Inl e) \<Rightarrow> Some (Inl e)
      | Some (Inr (child, r)) \<Rightarrow> Client_ObjectUnmarshalMPack_loop alloc fuel count (arr @ [child]) r)"

subsection \<open>The class\<close>

record ClientResponse =
  cr_type :: RPCType
  cr_msgid :: u32
  cr_error :: ClientObject
  cr_result :: ClientObject

definition Response_default :: ClientResponse where
  "Response_default =
     \<lparr>cr_type = RPCType_Response, cr_msgid = 0, cr_error = Object_CreateNil, cr_result = Object_CreateNil\<rparr>"

definition Response_make :: "u32 \<Rightarrow> RPCType \<Rightarrow> ClientResponse" where
  "Response_make msgid t =
     \<lparr>cr_type = t, cr_msgid = msgid, cr_error = Object_CreateNil, cr_result = Object_CreateNil\<rparr>"

definition Response_GetResult :: "ClientResponse \<Rightarrow> ClientObject" where "Response_GetResult rs = cr_result rs"
definition Response_GetError :: "ClientResponse \<Rightarrow> ClientObject" where "Response_GetError rs = cr_error rs"
definition Response_GetMsgId :: "ClientResponse \<Rightarrow> u32" where "Response_GetMsgId rs = cr_msgid rs"
definition Response_GetType :: "ClientResponse \<Rightarrow> RPCType" where "Response_GetType rs = cr_type rs"

definition Response_SetResult :: "ClientObject \<Rightarrow> ClientResponse \<Rightarrow> ClientResponse" where
  "Response_SetResult x rs = rs\<lparr>cr_result := x\<rparr>"
definition Response_SetError :: "ClientObject \<Rightarrow> ClientResponse \<Rightarrow> ClientResponse" where
  "Response_SetError x rs = rs\<lparr>cr_error := x\<rparr>"
definition Response_SetMsgId :: "u32 \<Rightarrow> ClientResponse \<Rightarrow> ClientResponse" where
  "Response_SetMsgId i rs = rs\<lparr>cr_msgid := i\<rparr>"
definition Response_SetType :: "RPCType \<Rightarrow> ClientResponse \<Rightarrow> ClientResponse" where
  "Response_SetType t rs = rs\<lparr>cr_type := t\<rparr>"

lemmas response_set_get_defs = Response_SetResult_def Response_SetError_def Response_SetMsgId_def
  Response_SetType_def Response_GetResult_def Response_GetError_def Response_GetMsgId_def Response_GetType_def

definition Response_Marshal :: "ClientResponse \<Rightarrow> mem \<Rightarrow> cpp_exn + byte list \<times> mem" where
  "Response_Marshal rs m =
     (let (w, m) = mpack_writer_init_growable m;
          (w, m) = mpack_start_array w 4 m;
          (w, m) = mpack_write_u8 w (cr_type rs) m;
          (w, m) = mpack_write_u32 w (cr_msgid rs) m
      in bindE (Client_ObjectMarshalMPack (cr_error rs) w m) (\<lambda>(w, m).
         bindE (Client_ObjectMarshalMPack (cr_result rs) w m) (\<lambda>(w, m).
           let (err, data, m) = mpack_writer_destroy w m in
           if err \<noteq> mpack_ok then Inr ([], free_opt data m)
           else Inr (case data of Some d \<Rightarrow> d | None \<Rightarrow> [], free_opt data m))))"

text \<open>A decoder step inside \<^verbatim>\<open>Unmarshal\<close>: an exception escapes, a reader error gives \<^verbatim>\<open>std::nullopt\<close>.\<close>

definition field_step ::
  "(cpp_exn + ClientObject \<times> mpack_reader) option \<Rightarrow>
   (ClientObject \<Rightarrow> mpack_reader \<Rightarrow> (cpp_exn + 'a option) option) \<Rightarrow> (cpp_exn + 'a option) option" where
  "field_step x f =
     (case x of
        None \<Rightarrow> None
      | Some (Inl e) \<Rightarrow> Some (Inl e)
      | Some (Inr (ob, r)) \<Rightarrow> if r_error r \<noteq> mpack_ok then Some (Inr None) else f ob r)"

definition Response_Unmarshal ::
  "(cpp_request \<Rightarrow> bool) \<Rightarrow> byte list \<Rightarrow> (cpp_exn + ClientResponse option) option" where
  "Response_Unmarshal alloc b =
     (if b = [] then Some (Inr None)
      else
        let r = mpack_reader_init_data b;
            (count, r) = mpack_expect_array r
        in if r_error r \<noteq> mpack_ok \<or> count \<noteq> 4 then Some (Inr None)
           else
             let rs = Response_default;
                 (raw_type, r) = mpack_expect_u8 r
             in if r_error r \<noteq> mpack_ok \<or> raw_type \<noteq> RPCType_Response then Some (Inr None)
                else
                  let rs = Response_SetType raw_type rs;
                      (i, r) = mpack_expect_u32 r;
                      rs = Response_SetMsgId i rs
                  in if r_error r \<noteq> mpack_ok then Some (Inr None)
                     else field_step (Client_ObjectUnmarshalMPack alloc (Suc (length b)) r) (\<lambda>err r.
                          field_step (Client_ObjectUnmarshalMPack alloc (Suc (length b)) r) (\<lambda>result r.
                            Some (Inr (Some (Response_SetResult result (Response_SetError err rs)))))))"

definition Response_CreateStrResult :: "u32 \<Rightarrow> byte list \<Rightarrow> ClientResponse" where
  "Response_CreateStrResult msgid result =
     (let r = Response_default;
          r = Response_SetMsgId msgid r;
          r = Response_SetType RPCType_Response r;
          r = Response_SetResult (Object_CreateStr result) r
      in Response_SetError Object_CreateNil r)"

definition Response_CreateError :: "u32 \<Rightarrow> byte list \<Rightarrow> ClientResponse" where
  "Response_CreateError msgid err =
     (let r = Response_default;
          r = Response_SetMsgId msgid r;
          r = Response_SetType RPCType_Response r;
          r = Response_SetError (Object_CreateStr err) r
      in Response_SetResult Object_CreateNil r)"

definition Response_CreateStrArrayResult :: "u32 \<Rightarrow> byte list list \<Rightarrow> ClientResponse" where
  "Response_CreateStrArrayResult msgid vec =
     (let r = Response_default;
          r = Response_SetMsgId msgid r;
          r = Response_SetType RPCType_Response r;
          arr = fold (\<lambda>str arr. arr @ [Object_CreateStr str]) vec [];
          r = Response_SetResult (Object_of_array arr) r
      in Response_SetError Object_CreateNil r)"

definition Response_CreateNilResult :: "u32 \<Rightarrow> ClientResponse" where
  "Response_CreateNilResult msgid =
     (let r = Response_default;
          r = Response_SetMsgId msgid r;
          r = Response_SetType RPCType_Response r;
          r = Response_SetResult Object_CreateNil r
      in Response_SetError Object_CreateNil r)"

subsection \<open>Decoding always ends\<close>

text \<open>A run that had fuel, and moved the reader forward only.\<close>

definition ran :: "mpack_reader \<Rightarrow> (cpp_exn + 'a \<times> mpack_reader) option \<Rightarrow> bool" where
  "ran r res \<longleftrightarrow> (case res of None \<Rightarrow> False | Some (Inl e) \<Rightarrow> e = Bad_alloc | Some (Inr (_, r')) \<Rightarrow> r_step r r')"

lemma ran_simps [simp]:
  "ran r (Some (Inr (x, r'))) = r_step r r'" "ran r (Some (Inl e)) = (e = Bad_alloc)" "\<not> ran r None"
  by (simp_all add: ran_def)

lemma ranE:
  assumes "ran r res"
  obtains "res = Some (Inl Bad_alloc)" | x r' where "res = Some (Inr (x, r'))" "r_step r r'"
  using assms by (auto simp: ran_def split: option.splits sum.splits)

lemma client_unmarshal_has_fuel:
  "length (r_data r) < fuel \<Longrightarrow> ran r (Client_ObjectUnmarshalMPack alloc fuel r)"
  "length (r_data r) < fuel \<Longrightarrow> ran r (Client_ObjectUnmarshalMPack_loop alloc fuel n arr r)"
proof (induction alloc fuel r and alloc fuel n arr r
    rule: Client_ObjectUnmarshalMPack_Client_ObjectUnmarshalMPack_loop.induct)
  case (2 alloc fuel r)
  obtain tag r1 where t: "mpack_read_tag r = (tag, r1)" by fastforce
  note T = r_step_read_tag [OF t]
  have bytes: "r_step r r2" if "mpack_read_bytes r1 n = (s, r2)" for n s r2
    using r_step_trans [OF T(1)] r_step_read_bytes [of r1 n] that by simp
  show ?case
  proof (cases "r_error r1 = mpack_ok")
    case ok: True
    show ?thesis
    proof (cases tag)
      case (Tag_array count)
      show ?thesis
      proof (cases "alloc (Alloc_objects (unat count))")
        case True
        then have "ran r1 (Client_ObjectUnmarshalMPack_loop alloc fuel (unat count) [] r1)"
          using 2 T(2) [OF ok] t ok Tag_array by auto
        then show ?thesis
          using t ok Tag_array T(1) True by (auto elim!: ranE intro: r_step_trans)
      qed (use t ok Tag_array in simp)
    qed (use t ok T(1) bytes in \<open>auto split: prod.split\<close>)
  qed (use t T(1) in simp)
next
  case (4 alloc fuel count arr r)
  from 4(1) [OF 4(3)] show ?case
  proof (cases rule: ranE)
    case (2 child r1)
    then have "length (r_data r1) < fuel" using 4(3) by (simp add: r_step_def)
    then have "ran r1 (Client_ObjectUnmarshalMPack_loop alloc fuel count (arr @ [child]) r1)"
      using 4(2) 2 by simp
    with 2 show ?thesis by (auto elim!: ranE intro: r_step_trans)
  qed simp
qed simp_all

subsection \<open>Reading back the specified encoding\<close>

text \<open>The object a value is read as: a non-negative integer always comes back unsigned.\<close>

fun cobj_of :: "mval \<Rightarrow> ClientObject" where
  "cobj_of MNil = Object_CreateNil"
| "cobj_of (MBool b) = Object_CreateBool b"
| "cobj_of (MInt i) = (if 0 \<le> i then Object_CreateUInt (of_int i) else Object_CreateInt (of_int i))"
| "cobj_of (MFloat f) = Object_CreateFloat f"
| "cobj_of (MDouble d) = Object_CreateDouble d"
| "cobj_of (MStr s) = Object_CreateStr s"
| "cobj_of (MBin s) = Object_of_binary s"
| "cobj_of (MArr vs) = Object_of_array (map cobj_of vs)"

text \<open>Memory for blocks no larger than the message.\<close>

definition roomy :: "(cpp_request \<Rightarrow> bool) \<Rightarrow> nat \<Rightarrow> bool" where
  "roomy alloc n \<longleftrightarrow> (\<forall>k \<le> n. alloc (Alloc_bytes k) \<and> alloc (Alloc_objects k))"

lemma roomy_mono: "roomy alloc n \<Longrightarrow> k \<le> n \<Longrightarrow> roomy alloc k"
  by (simp add: roomy_def)

lemma client_loop_reads:
  assumes "\<And>v rest. v \<in> set vs \<Longrightarrow> Client_ObjectUnmarshalMPack alloc fuel (rd (enc v @ rest)) = Some (Inr (cobj_of v, rd rest))"
  shows "Client_ObjectUnmarshalMPack_loop alloc fuel (length vs) arr (rd (enc_list vs @ rest)) =
    Some (Inr (arr @ map cobj_of vs, rd rest))"
  using assms by (induction vs arbitrary: arr) auto

lemma client_unmarshal_reads:
  assumes "mval_ok v" "roomy alloc (length (enc v))" "length (enc v) \<le> fuel"
  shows "Client_ObjectUnmarshalMPack alloc fuel (rd (enc v @ rest)) = Some (Inr (cobj_of v, rd rest))"
  using assms
proof (induction v arbitrary: fuel rest)
  case (MInt i)
  then obtain f where "fuel = Suc f" using enc_int_nonempty [of i] by (cases fuel) auto
  with MInt show ?case
    using read_tag_enc_int [of i rest] by simp
next
  case (MStr s)
  then obtain f where "fuel = Suc f" by (cases fuel) auto
  with MStr show ?case
    using read_tag_str_head [of "length s" "s @ rest"] by (simp add: unat_of_nat roomy_def)
next
  case (MBin s)
  then obtain f where "fuel = Suc f" by (cases fuel) auto
  with MBin show ?case
    using read_tag_bin_head [of "length s" "s @ rest"] by (simp add: unat_of_nat roomy_def)
next
  case (MArr vs)
  obtain f where f: "fuel = Suc f" using MArr by (cases fuel) auto
  have L: "length (enc (MArr vs)) = length (enc_arr_head (length vs)) + length (enc_list vs)"
    by (simp add: enc_MArr del: enc.simps)
  have h: "length (enc_list vs) \<le> f"
    using MArr.prems(3) f L enc_heads_nonempty(3) [of "length vs"] by (cases "enc_arr_head (length vs)") auto
  have elem: "Client_ObjectUnmarshalMPack alloc f (rd (enc v @ rest)) = Some (Inr (cobj_of v, rd rest))"
    if "v \<in> set vs" for v rest
    using that MArr.prems f L h enc_in_list [OF that]
    by (intro MArr.IH) (auto simp: list_all_iff intro: roomy_mono)
  note loop = client_loop_reads [of vs alloc f "[]" rest, OF elem, simplified]
  have "alloc (Alloc_objects (length vs))"
    using MArr.prems(2) L length_le_enc_list [of vs] by (simp add: roomy_def del: enc.simps)
  with MArr.prems(1) f loop show ?case
    using read_tag_arr_head [of "length vs" "enc_list vs @ rest"]
    by (simp add: unat_of_nat enc_MArr del: enc.simps)
qed (case_tac fuel; simp add: read_tag_simple)+

lemma Response_Unmarshal_reads:
  assumes "mval_ok e" "mval_ok x" and i: "0 \<le> i" "i < 2 ^ 32"
    and a: "roomy alloc (length (enc (MArr [MInt 1, MInt i, e, x])))"
  shows "Response_Unmarshal alloc (enc (MArr [MInt 1, MInt i, e, x]) @ rest) =
    Some (Inr (Some \<lparr>cr_type = RPCType_Response, cr_msgid = of_int i, cr_error = cobj_of e, cr_result = cobj_of x\<rparr>))"
proof -
  define b where "b = enc (MArr [MInt 1, MInt i, e, x]) @ rest"
  define fuel where "fuel = Suc (length b)"
  have b: "b = enc_arr_head 4 @ enc_int 1 @ enc_int i @ enc e @ enc x @ rest" "b \<noteq> []"
    by (simp_all add: b_def Suc_4)
  have u: "Client_ObjectUnmarshalMPack alloc fuel (rd (enc e @ enc x @ rest)) = Some (Inr (cobj_of e, rd (enc x @ rest)))"
    "Client_ObjectUnmarshalMPack alloc fuel (rd (enc x @ rest)) = Some (Inr (cobj_of x, rd rest))"
    by (rule client_unmarshal_reads; use assms(1,2) a in \<open>auto elim: roomy_mono simp: fuel_def b_def\<close>)+
  show ?thesis
    using expect_array_enc [of 4 "enc_int 1 @ enc_int i @ enc e @ enc x @ rest"]
      expect_u8_enc [of 1 "enc_int i @ enc e @ enc x @ rest"] expect_u32_enc [of i "enc e @ enc x @ rest"] i u b(2)
    unfolding b_def [symmetric] Response_Unmarshal_def fuel_def [symmetric]
    by (simp add: b(1) mpack_reader_init_data_def field_step_def RPCType_Response_def
        response_set_get_defs Response_default_def)
qed

subsection \<open>Writing\<close>

text \<open>The value an object stands for on the wire: a map is sent as nil, and so is an empty binary.\<close>

fun cobj_abs :: "ClientObject \<Rightarrow> mval" where
  "cobj_abs (ClientObject t v) =
     (case v of
        alt_bool b \<Rightarrow> MBool b
      | alt_int64 i \<Rightarrow> MInt (sint i)
      | alt_uint64 u \<Rightarrow> MInt (uint u)
      | alt_float f \<Rightarrow> MFloat f
      | alt_double d \<Rightarrow> MDouble d
      | alt_string s \<Rightarrow> MStr s
      | alt_binary s \<Rightarrow> if s = [] then MNil else MBin s
      | alt_array xs \<Rightarrow> MArr (map cobj_abs xs)
      | _ \<Rightarrow> MNil)"

definition emitsE :: "byte list \<Rightarrow> mpack_writer \<Rightarrow> mem \<Rightarrow> cpp_exn + mpack_writer \<times> mem \<Rightarrow> bool" where
  "emitsE bs w m r \<longleftrightarrow> (\<exists>w' m'. r = Inr (w', m') \<and> emitted bs w m w' m')"

lemma emitsE_emits: "emitsE bs w m (Inr p) \<longleftrightarrow> emits bs w m (Some p)"
  by (auto simp: emitsE_def emits_def)

lemma client_marshal_emits:
  "obj_typed x \<Longrightarrow> mval_ok (cobj_abs x) \<Longrightarrow> emitsE (enc (cobj_abs x)) w m (Client_ObjectMarshalMPack x w m)"
  "list_all obj_typed xs \<Longrightarrow> list_all (\<lambda>x. mval_ok (cobj_abs x)) xs \<Longrightarrow>
   emitsE (enc_list (map cobj_abs xs)) w m (Client_ObjectMarshalMPack_loop xs w m)"
proof (induction x w m and xs w m
    rule: Client_ObjectMarshalMPack_Client_ObjectMarshalMPack_loop.induct)
  case (1 t v w m)
  show ?case
  proof (cases v)
    case (alt_array xs)
    obtain w1 m1 where s: "mpack_start_array w (to_u32 (length xs)) m = (w1, m1)" by fastforce
    have "emitted (enc_arr_head (length xs)) w m w1 m1"
      using emitted_array [OF s] 1(3) alt_array by simp
    moreover have "emitsE (enc_list (map cobj_abs xs)) w1 m1 (Client_ObjectMarshalMPack_loop xs w1 m1)"
      using 1 alt_array s by (auto simp: list_all_iff)
    ultimately show ?thesis
      using 1(2) alt_array s by (auto simp: emitsE_def enc_list_def intro: emitted_trans)
  qed (use 1 emits_nil emits_scalars emits_blobs in
      \<open>auto simp: emitsE_emits get_defs simp del: enc.simps simp: enc.simps(1)\<close>)
next
  case (2 w m)
  then show ?case by (simp add: emitsE_def emitted_refl)
next
  case (3 x xs w m)
  then obtain w1 m1 where 1: "Client_ObjectMarshalMPack x w m = Inr (w1, m1)" "emitted (enc (cobj_abs x)) w m w1 m1"
    by (auto simp: emitsE_def)
  with 3(2) [OF 1(1) refl] 3(3,4) show ?case by (auto simp: emitsE_def intro: emitted_trans)
qed

text \<open>Marshalling a well-typed object never throws, whatever its size.\<close>

lemma client_marshal_returns:
  "obj_typed x \<Longrightarrow> \<exists>p. Client_ObjectMarshalMPack x w m = Inr p"
  "list_all obj_typed xs \<Longrightarrow> \<exists>p. Client_ObjectMarshalMPack_loop xs w m = Inr p"
proof (induction x w m and xs w m
    rule: Client_ObjectMarshalMPack_Client_ObjectMarshalMPack_loop.induct)
  case (1 t v w m)
  then show ?case by (cases v) (auto simp: get_defs split: prod.split)
next
  case (3 x xs w m)
  then obtain w1 m1 where 1: "Client_ObjectMarshalMPack x w m = Inr (w1, m1)" by fastforce
  with 3(2) [OF 1 refl] 3(3) show ?case by simp
qed simp_all

definition cr_typed :: "ClientResponse \<Rightarrow> bool" where
  "cr_typed rs \<longleftrightarrow> obj_typed (cr_error rs) \<and> obj_typed (cr_result rs)"

definition cr_abs :: "ClientResponse \<Rightarrow> mval" where
  "cr_abs rs = MArr [MInt (uint (cr_type rs)), MInt (uint (cr_msgid rs)), cobj_abs (cr_error rs), cobj_abs (cr_result rs)]"

lemma Response_Marshal_cases:
  assumes "cr_typed rs" "mval_ok (cr_abs rs)"
  shows "\<exists>bs m'. Response_Marshal rs m = Inr (bs, m') \<and> live m' = live m \<and> (bs = [] \<or> bs = enc (cr_abs rs))
    \<and> (nofail m \<and> length (enc (cr_abs rs)) \<le> 2 ^ 62 \<longrightarrow> bs = enc (cr_abs rs) \<and> m' = m)"
proof -
  have ok: "obj_typed (cr_error rs)" "obj_typed (cr_result rs)" "mval_ok (cobj_abs (cr_error rs))"
      "mval_ok (cobj_abs (cr_result rs))"
    using assms by (simp_all add: cr_typed_def cr_abs_def)
  obtain w0 m0 where 0: "mpack_writer_init_growable m = (w0, m0)" by fastforce
  obtain w1 m1 where 1: "mpack_start_array w0 4 m0 = (w1, m1)" by fastforce
  obtain w2 m2 where 2: "mpack_write_u8 w1 (cr_type rs) m1 = (w2, m2)" by fastforce
  obtain w3 m3 where 3: "mpack_write_u32 w2 (cr_msgid rs) m2 = (w3, m3)" by fastforce
  obtain w4 m4 where 4: "Client_ObjectMarshalMPack (cr_error rs) w3 m3 = Inr (w4, m4)"
      "emitted (enc (cobj_abs (cr_error rs))) w3 m3 w4 m4"
    using client_marshal_emits(1) [OF ok(1,3), of w3 m3] by (auto simp: emitsE_def)
  obtain w5 m5 where 5: "Client_ObjectMarshalMPack (cr_result rs) w4 m4 = Inr (w5, m5)"
      "emitted (enc (cobj_abs (cr_result rs))) w4 m4 w5 m5"
    using client_marshal_emits(1) [OF ok(2,4), of w4 m4] by (auto simp: emitsE_def)
  obtain e data m6 where 6: "mpack_writer_destroy w5 m5 = (e, data, m6)" by (metis prod_cases3)
  have em: "emitted (enc (cr_abs rs)) w0 m0 w5 m5"
    using emitted_trans [OF emitted_array [OF 1] emitted_trans [OF emitted_u8 [OF 2]
          emitted_trans [OF emitted_u32 [OF 3] emitted_trans [OF 4(2) 5(2)]]]]
    by (simp add: cr_abs_def Suc_4)
  note S = growable_session [OF 0 em 6]
  have R: "Response_Marshal rs m = (if e \<noteq> mpack_ok then Inr ([], free_opt data m6)
      else Inr (case data of Some d \<Rightarrow> d | None \<Rightarrow> [], free_opt data m6))"
    by (simp add: Response_Marshal_def 0 1 2 3 4 5 6)
  show ?thesis
  proof (cases "e = mpack_ok")
    case True
    with S(1,3) R show ?thesis by (auto simp: free_opt_def free1_def)
  next
    case False
    with S(2,3) R show ?thesis by (auto simp: free_opt_def)
  qed
qed

lemma Response_Marshal_returns:
  assumes "cr_typed rs"
  shows "\<exists>p. Response_Marshal rs m = Inr p"
proof -
  have T: "obj_typed (cr_error rs)" "obj_typed (cr_result rs)" using assms by (simp_all add: cr_typed_def)
  obtain w0 m0 where 0: "mpack_writer_init_growable m = (w0, m0)" by fastforce
  obtain w1 m1 where 1: "mpack_start_array w0 4 m0 = (w1, m1)" by fastforce
  obtain w2 m2 where 2: "mpack_write_u8 w1 (cr_type rs) m1 = (w2, m2)" by fastforce
  obtain w3 m3 where 3: "mpack_write_u32 w2 (cr_msgid rs) m2 = (w3, m3)" by fastforce
  obtain w4 m4 where 4: "Client_ObjectMarshalMPack (cr_error rs) w3 m3 = Inr (w4, m4)"
    using client_marshal_returns(1) [OF T(1)] by fastforce
  obtain w5 m5 where 5: "Client_ObjectMarshalMPack (cr_result rs) w4 m4 = Inr (w5, m5)"
    using client_marshal_returns(1) [OF T(2)] by fastforce
  show ?thesis
    by (cases "mpack_writer_destroy w5 m5") (simp add: Response_Marshal_def 0 1 2 3 4 5)
qed

subsection \<open>Between client and server\<close>

text \<open>
  C9: A reply crosses from server to client unchanged. Whatever well-formed response \<^verbatim>\<open>ResponseMarshal\<close> of
  the server encodes, \<^verbatim>\<open>Response::Unmarshal\<close> of the C++ client decodes to the same message id and to
  objects of the same values, also when more bytes follow in the buffer, provided the client gets memory for blocks no
  larger than the message.
\<close>

theorem client_decodes_server_response:
  assumes "rsp_wf s" "rsp_type s = HAZE_RPC_RESPONSE"
    and "mval_ok (obj_abs (rsp_error s))" "mval_ok (obj_abs (rsp_result s))"
    and "nofail m" "length (enc (rsp_abs s)) \<le> 2 ^ 62" "roomy alloc (length (enc (rsp_abs s)))"
  shows "\<exists>bs m'. ResponseMarshal (Some s) m = Some (Some \<lparr>rb_data = Some bs, rb_len = length bs\<rparr>, m')
    \<and> (\<forall>rest. Response_Unmarshal alloc (bs @ rest) =
        Some (Inr (Some \<lparr>cr_type = RPCType_Response, cr_msgid = rsp_msgid s,
          cr_error = cobj_of (obj_abs (rsp_error s)), cr_result = cobj_of (obj_abs (rsp_result s))\<rparr>)))"
proof -
  have abs: "rsp_abs s = MArr [MInt 1, MInt (uint (rsp_msgid s)), obj_abs (rsp_error s), obj_abs (rsp_result s)]"
    using assms(2) by (simp add: rsp_abs_def HAZE_RPC_RESPONSE_def)
  have "Response_Unmarshal alloc (enc (rsp_abs s) @ rest) =
      Some (Inr (Some \<lparr>cr_type = RPCType_Response, cr_msgid = rsp_msgid s,
          cr_error = cobj_of (obj_abs (rsp_error s)), cr_result = cobj_of (obj_abs (rsp_result s))\<rparr>))" for rest
    using Response_Unmarshal_reads [OF assms(3,4), of "uint (rsp_msgid s)" alloc rest] assms(7)
      uint_lt2p [of "rsp_msgid s"] by (simp add: abs del: enc.simps)
  then show ?thesis
    using ResponseMarshal_cases [OF assms(1,3,4), of m] assms(5,6) by auto
qed

theorem client_decodes_server_response_witness:
  "\<exists>bs m'. ResponseMarshal (Some \<lparr>rsp_type = 1, rsp_msgid = 7, rsp_error = None,
        rsp_result = Some (Object (V_ARRAY (Some (ObjectArray [Some (Object (V_INT 5) 8)] 8))) 0)\<rparr>)
        \<lparr>outcomes = [], live = 0\<rparr> = Some (Some \<lparr>rb_data = Some bs, rb_len = length bs\<rparr>, m')
    \<and> Response_Unmarshal (\<lambda>_. True) (bs @ [0xc0]) = Some (Inr (Some \<lparr>cr_type = 1, cr_msgid = 7,
        cr_error = Object_CreateNil, cr_result = Object_of_array [Object_CreateUInt 5]\<rparr>))"
  using client_decodes_server_response [of "\<lparr>rsp_type = 1, rsp_msgid = 7, rsp_error = None,
        rsp_result = Some (Object (V_ARRAY (Some (ObjectArray [Some (Object (V_INT 5) 8)] 8))) 0)\<rparr>"
        "\<lparr>outcomes = [], live = 0\<rparr>" "\<lambda>_. True"]
  by (auto simp: rsp_wf_def HAZE_RPC_RESPONSE_def RPCType_Response_def nofail_def rsp_abs_def roomy_def
      enc_arr_head_def enc_int_def)

text \<open>The objects that come back exactly as they were sent.\<close>

fun wire_exact :: "ClientObject \<Rightarrow> bool" where
  "wire_exact (ClientObject t v) =
     (case v of
        monostate \<Rightarrow> t = Ty_Nil
      | alt_int64 i \<Rightarrow> t = Ty_Int \<and> sint i < 0
      | alt_binary s \<Rightarrow> t = Ty_Bin \<and> s \<noteq> []
      | alt_array xs \<Rightarrow> t = Ty_Array \<and> list_all wire_exact xs
      | alt_map _ \<Rightarrow> False
      | _ \<Rightarrow> obj_typed (ClientObject t v))"

lemma cobj_roundtrip: "wire_exact x \<Longrightarrow> cobj_of (cobj_abs x) = x"
proof (induction x rule: wire_exact.induct)
  case (1 t v)
  then show ?case
    by (cases v) (auto simp: ctor_defs list_all_iff intro: map_idI)
qed

text \<open>
  C16: Round trips of the client's responses. A well-typed response encoded by \<^verbatim>\<open>Response::Marshal\<close> is
  decoded by the client's own \<^verbatim>\<open>Unmarshal\<close> and by the server's \<^verbatim>\<open>ResponseUnmarshal\<close>, with the same
  message id and the same values; error and result come back as the identical objects when they contain no map, no
  empty binary, no undefined object and no non-negative \<^verbatim>\<open>Int\<close> (those are read back as nil and \<^verbatim>\<open>UInt\<close>).
\<close>

theorem client_response_roundtrip:
  assumes "cr_typed rs" "cr_type rs = RPCType_Response"
    and "mval_ok (cobj_abs (cr_error rs))" "mval_ok (cobj_abs (cr_result rs))"
    and "mval_short (cobj_abs (cr_error rs))" "mval_short (cobj_abs (cr_result rs))"
    and "nofail m" "length (enc (cr_abs rs)) \<le> 2 ^ 62" "roomy alloc (length (enc (cr_abs rs)))"
  shows "\<exists>bs. Response_Marshal rs m = Inr (bs, m)
    \<and> Response_Unmarshal alloc bs = Some (Inr (Some (rs\<lparr>cr_error := cobj_of (cobj_abs (cr_error rs)),
         cr_result := cobj_of (cobj_abs (cr_result rs))\<rparr>)))
    \<and> (wire_exact (cr_error rs) \<and> wire_exact (cr_result rs) \<longrightarrow> Response_Unmarshal alloc bs = Some (Inr (Some rs)))
    \<and> (\<exists>s m'. ResponseUnmarshal (Some \<lparr>rb_data = Some bs, rb_len = length bs\<rparr>) m = Some (Some s, m')
         \<and> rsp_msgid s = cr_msgid rs \<and> obj_abs (rsp_error s) = mval_recv (cobj_abs (cr_error rs))
         \<and> obj_abs (rsp_result s) = mval_recv (cobj_abs (cr_result rs)))"
proof -
  let ?bs = "enc (cr_abs rs)"
  have abs: "cr_abs rs = MArr [MInt 1, MInt (uint (cr_msgid rs)), cobj_abs (cr_error rs), cobj_abs (cr_result rs)]"
    using assms(2) by (simp add: cr_abs_def RPCType_Response_def)
  have i: "0 \<le> uint (cr_msgid rs)" "uint (cr_msgid rs) < 2 ^ 32" using uint_lt2p [of "cr_msgid rs"] by simp_all
  have "mval_ok (cr_abs rs)" using assms(3,4) i by (auto simp: abs intro: order_trans [of _ 0])
  then have 1: "Response_Marshal rs m = Inr (?bs, m)"
    using Response_Marshal_cases [OF assms(1), of m] assms(7,8) by auto
  have 2: "Response_Unmarshal alloc ?bs = Some (Inr (Some (rs\<lparr>cr_error := cobj_of (cobj_abs (cr_error rs)),
         cr_result := cobj_of (cobj_abs (cr_result rs))\<rparr>)))"
    using Response_Unmarshal_reads [OF assms(3,4) i, of alloc "[]"] assms(2,9) by (simp add: abs del: enc.simps)
  have 3: "\<exists>s m'. ResponseUnmarshal (Some \<lparr>rb_data = Some ?bs, rb_len = length ?bs\<rparr>) m = Some (Some s, m')
         \<and> rsp_msgid s = cr_msgid rs \<and> obj_abs (rsp_error s) = mval_recv (cobj_abs (cr_error rs))
         \<and> obj_abs (rsp_result s) = mval_recv (cobj_abs (cr_result rs))"
    using ResponseUnmarshal_reads [OF assms(3,5,4,6,7) i, of "[]"] by (auto simp: abs simp del: enc.simps)
  show ?thesis
    using 1 2 3 by (auto simp: cobj_roundtrip simp del: enc.simps)
qed

theorem client_response_roundtrip_witness:
  "\<exists>bs. Response_Marshal (Response_CreateStrArrayResult 9 [[65], [66, 0, 67]]) \<lparr>outcomes = [], live = 3\<rparr> = Inr (bs, \<lparr>outcomes = [], live = 3\<rparr>)
     \<and> Response_Unmarshal (\<lambda>_. True) bs = Some (Inr (Some (Response_CreateStrArrayResult 9 [[65], [66, 0, 67]])))"
  using client_response_roundtrip [of "Response_CreateStrArrayResult 9 [[65], [66, 0, 67]]" "\<lparr>outcomes = [], live = 3\<rparr>" "\<lambda>_. True"]
  by (auto simp: Response_CreateStrArrayResult_def Response_default_def response_set_get_defs RPCType_Response_def
      cr_typed_def cr_abs_def roomy_def nofail_def ctor_defs enc_arr_head_def enc_int_def enc_str_head_def)

subsection \<open>Any input\<close>

lemma unmarshal_typed:
  "Client_ObjectUnmarshalMPack alloc fuel r = Some (Inr (x, r')) \<Longrightarrow> obj_typed x"
  "Client_ObjectUnmarshalMPack_loop alloc fuel n arr r = Some (Inr (xs, r')) \<Longrightarrow> list_all obj_typed arr \<Longrightarrow> list_all obj_typed xs"
proof (induction alloc fuel r and alloc fuel n arr r arbitrary: x r' and xs r'
    rule: Client_ObjectUnmarshalMPack_Client_ObjectUnmarshalMPack_loop.induct)
  case (2 alloc fuel r)
  obtain tag r1 where t: "mpack_read_tag r = (tag, r1)" by fastforce
  show ?case
  proof (cases "r_error r1 = mpack_ok")
    case True
    with 2 t show ?thesis
      by (cases tag) (auto simp: ctor_defs split: if_splits prod.splits option.splits sum.splits)
  qed (use 2 t in simp)
next
  case (4 alloc fuel count arr r)
  then show ?case by (auto split: option.splits sum.splits)
qed auto

text \<open>
  Everything the public interface can make: the constructors (the bare-type constructor only through
  \<^verbatim>\<open>Object()\<close> and \<^verbatim>\<open>CreateNil\<close>), the mutating methods, copies of elements, assignments through the
  pointers the getters return, and what the decoder makes of any bytes, whatever the allocator does.
\<close>

inductive built :: "ClientObject \<Rightarrow> bool" where
  built_default: "built Object_default"
| built_nil: "built Object_CreateNil"
| built_bool: "built (Object_of_bool b)"
| built_int: "built (Object_of_int64 i)"
| built_uint: "built (Object_of_uint64 u)"
| built_float: "built (Object_of_float f)"
| built_double: "built (Object_of_double d)"
| built_cstr: "built (Object_of_cstr c)"
| built_string: "built (Object_of_string s)"
| built_binary: "built (Object_of_binary bs)"
| built_array: "\<forall>x \<in> set xs. built x \<Longrightarrow> built (Object_of_array xs)"
| built_map: "\<forall>e \<in> set es. built (entry_key e) \<and> built (entry_value e) \<Longrightarrow> built (Object_of_map es)"
| built_append: "built ob \<Longrightarrow> built x \<Longrightarrow> Object_ArrayAppend ob x = (ok, ob') \<Longrightarrow> built ob'"
| built_remove: "built ob \<Longrightarrow> Object_ArrayRemove ob i = (ok, ob') \<Longrightarrow> built ob'"
| built_element: "built ob \<Longrightarrow> Object_ArrayGet ob i = Some (x, assign) \<Longrightarrow> built x"
| built_assign: "built ob \<Longrightarrow> built y \<Longrightarrow> Object_ArrayGet ob i = Some (x, assign) \<Longrightarrow> built (assign y)"
| built_set: "built ob \<Longrightarrow> built k \<Longrightarrow> built v \<Longrightarrow> Object_MapSet ob k v = Inr (ok, ob') \<Longrightarrow> built ob'"
| built_unset: "built ob \<Longrightarrow> built k \<Longrightarrow> Object_MapRemove ob k = Inr (ok, ob') \<Longrightarrow> built ob'"
| built_value: "built ob \<Longrightarrow> built k \<Longrightarrow> Object_MapGet ob k = Inr (Some (x, assign)) \<Longrightarrow> built x"
| built_reassign: "built ob \<Longrightarrow> built k \<Longrightarrow> built y \<Longrightarrow> Object_MapGet ob k = Inr (Some (x, assign)) \<Longrightarrow> built (assign y)"
| built_decoded: "Client_ObjectUnmarshalMPack alloc fuel r = Some (Inr (ob, r')) \<Longrightarrow> built ob"

lemma built_typed: "built ob \<Longrightarrow> obj_typed ob"
proof (induction rule: built.induct)
  case (built_array xs)
  then show ?case by (simp add: list_all_iff)
next
  case (built_map es)
  then show ?case by (simp add: list_all_iff entry_typed_iff)
qed (auto intro: typed_append typed_remove typed_set typed_unset
    dest: typed_array_get typed_map_get unmarshal_typed(1))

text \<open>
  C22: \<^verbatim>\<open>Response::Unmarshal\<close> is total: for every byte sequence it returns, with \<^verbatim>\<open>std::nullopt\<close> or with a
  response of type \<^verbatim>\<open>Response\<close> whose objects are well typed, or it throws \<^verbatim>\<open>std::bad_alloc\<close>, whatever the
  allocator grants.
\<close>

theorem client_unmarshal_total:
  "Response_Unmarshal alloc b = Some (Inr None)
   \<or> (\<exists>rs. Response_Unmarshal alloc b = Some (Inr (Some rs)) \<and> cr_type rs = RPCType_Response \<and> cr_typed rs)
   \<or> Response_Unmarshal alloc b = Some (Inl Bad_alloc)"
proof -
  obtain n r1 where 1: "mpack_expect_array (mpack_reader_init_data b) = (n, r1)" by fastforce
  obtain t r2 where 2: "mpack_expect_u8 r1 = (t, r2)" by fastforce
  obtain i r3 where 3: "mpack_expect_u32 r2 = (i, r3)" by fastforce
  have s: "r_step (mpack_reader_init_data b) r3"
    using r_step_trans [OF r_step_trans [OF r_step_expects(7) r_step_expects(1)] r_step_expects(2)]
    by (metis 1 2 3 snd_conv)
  then have len: "length (r_data r3) < Suc (length b)"
    by (simp add: r_step_def mpack_reader_init_data_def)
  let ?u = "Client_ObjectUnmarshalMPack alloc (Suc (length b))"
  note [simp del] = Client_ObjectUnmarshalMPack.simps
  have F: "field_step (?u r3) (\<lambda>e r. field_step (?u r) (\<lambda>x r. Some (Inr (Some (Response_SetResult x (Response_SetError e rs))))))
      \<in> {Some (Inr None), Some (Inl Bad_alloc)} \<union> {Some (Inr (Some q)) | q. cr_type q = cr_type rs \<and> cr_typed q}" for rs
    using client_unmarshal_has_fuel(1) [OF len, of alloc]
  proof (cases rule: ranE)
    case (2 e r4)
    have "length (r_data r4) < Suc (length b)" using 2(2) len by (simp add: r_step_def)
    from client_unmarshal_has_fuel(1) [OF this, of alloc] show ?thesis
      by (cases rule: ranE)
        (use 2 unmarshal_typed(1) in \<open>auto simp: field_step_def response_set_get_defs cr_typed_def\<close>)
  qed (simp add: field_step_def)
  show ?thesis
    using F [of "Response_SetMsgId i (Response_SetType RPCType_Response Response_default)"]
    by (auto simp: Response_Unmarshal_def 1 2 3 response_set_get_defs Response_default_def)
qed

lemma client_loop_errored:
  "r_error r \<noteq> mpack_ok \<Longrightarrow> Client_ObjectUnmarshalMPack_loop alloc (Suc f) n arr r = Some (Inr (arr @ replicate n Object_CreateNil, r))"
proof (induction n arbitrary: arr)
  case (Suc n)
  then show ?case by (simp add: mpack_read_tag_def replicate_append_same [symmetric])
qed simp

lemma client_loop_starved:
  assumes "0 < n"
  shows "Client_ObjectUnmarshalMPack_loop alloc (Suc f) n arr (rd []) =
    Some (Inr (arr @ replicate n Object_CreateNil, \<lparr>r_data = [], r_error = mpack_error_invalid\<rparr>))"
proof (cases n)
  case (Suc k)
  have t: "mpack_read_tag (rd []) = (Tag_nil, \<lparr>r_data = [], r_error = mpack_error_invalid\<rparr>)"
    by (simp add: mpack_read_tag_def mpack_parse_tag_def mpack_reader_ensure_def mpack_reader_flag_error_def)
  show ?thesis
    using client_loop_errored [of "\<lparr>r_data = [], r_error = mpack_error_invalid\<rparr>" alloc f k "arr @ [Object_CreateNil]"]
    by (simp add: Suc t)
qed (use assms in simp)

text \<open>
  C38: The size of an array is believed before a single element was seen: eight bytes announcing \<open>c\<close> elements
  make the client ask for room for \<open>c\<close> objects. When it is refused, \<^verbatim>\<open>std::bad_alloc\<close> leaves
  \<^verbatim>\<open>Unmarshal\<close>; when it is granted, the message is rejected only after \<open>c\<close> elements were filled in.
\<close>

theorem client_array_announcement:
  assumes "0 < c"
  shows "Response_Unmarshal alloc ([0x94, 1, 0, 0xdd] @ mpack_store_u32 c) =
    (if alloc (Alloc_objects (unat c)) then Some (Inr None) else Some (Inl Bad_alloc))"
proof -
  have c: "0 < unat c" using assms by (simp add: unat_gt_0)
  have t: "mpack_read_tag (rd (0xdd # mpack_store_u32 c)) = (Tag_array c, rd [])"
    using u32_field.load_store [of c "[]"] by (simp add: mpack_read_tag_def parse_defs)
  have u: "Client_ObjectUnmarshalMPack alloc 9 (rd (0xdd # mpack_store_u32 c)) =
      (if alloc (Alloc_objects (unat c))
       then Some (Inr (Object_of_array (replicate (unat c) Object_CreateNil), \<lparr>r_data = [], r_error = mpack_error_invalid\<rparr>))
       else Some (Inl Bad_alloc))"
    using client_loop_starved [OF c, of alloc 7 "[]"] by (simp add: t eval_nat_numeral)
  show ?thesis
    using u
    by (simp add: Response_Unmarshal_def mpack_reader_init_data_def mpack_expect_array_def mpack_expect_u8_def
        mpack_expect_u32_def mpack_read_tag_def parse_defs RPCType_Response_def field_step_def
        del: Client_ObjectUnmarshalMPack.simps)
qed

theorem client_array_announcement_witness:
  "Response_Unmarshal (\<lambda>q. q \<noteq> Alloc_objects 4294967295) [0x94, 1, 0, 0xdd, 0xff, 0xff, 0xff, 0xff]
     = Some (Inl Bad_alloc)"
  using client_array_announcement [of "0xffffffff" "\<lambda>q. q \<noteq> Alloc_objects 4294967295"]
  by (simp add: mpack_store_u32_def)

subsection \<open>Type soundness\<close>

text \<open>
  C14: Type soundness of the client's objects. Every object a program can build with the public constructors (the one from a
  bare type only as \<^verbatim>\<open>Object()\<close> and \<^verbatim>\<open>CreateNil\<close>), the mutating methods, the pointers the getters return and
  \<^verbatim>\<open>ObjectUnmarshalMPack\<close> on any bytes keeps tag and value in agreement, at every depth; so comparing, looking up, setting
  and removing map entries, and encoding a response never throw \<^verbatim>\<open>std::bad_variant_access\<close>.
\<close>

theorem client_type_soundness:
  assumes "built a" "built b" "built v"
  shows "obj_typed a
    \<and> (\<exists>r. Object_eq a b = Inr r) \<and> (\<exists>r. Object_ne a b = Inr r)
    \<and> (\<exists>r. Object_MapSet a b v = Inr r) \<and> (\<exists>r. Object_MapGet a b = Inr r)
    \<and> (\<exists>r. Object_MapGet_const a b = Inr r) \<and> (\<exists>r. Object_MapRemove a b = Inr r)
    \<and> (\<exists>p. Response_Marshal \<lparr>cr_type = t, cr_msgid = i, cr_error = a, cr_result = b\<rparr> m = Inr p)
    \<and> (\<forall>alloc f r x r'. Client_ObjectUnmarshalMPack alloc f r = Some (Inr (x, r')) \<longrightarrow> built x \<and> obj_typed x)"
proof -
  note T = built_typed [OF assms(1)] built_typed [OF assms(2)]
  obtain r where "Object_eq a b = Inr r" using eq_returns(1) [OF T] by blast
  then show ?thesis
    using T map_methods_return [OF T] Response_Marshal_returns [of "\<lparr>cr_type = t, cr_msgid = i, cr_error = a, cr_result = b\<rparr>" m]
    by (auto simp: Object_ne_def cr_typed_def simp del: Client_ObjectUnmarshalMPack.simps intro: built_decoded built_typed)
qed

theorem client_type_soundness_witness:
  "\<exists>r. Object_MapSet (Object_of_array [Object_CreateNil]) (Object_of_float 0x7FC00000) Object_default = Inr r"
  using client_type_soundness [of "Object_of_array [Object_CreateNil]" "Object_of_float 0x7FC00000" Object_default]
    built_array [of "[Object_CreateNil]"] built_nil built_float built_default by simp

end
