(* ===== verification/Haze_Float.thy ===== *)
theory Haze_Float
  imports Haze_Prelude
begin

text \<open>
  The part of C's floating-point arithmetic the audio code uses, on IEEE 754 bit patterns: decoding a
  pattern to an exact fraction, rounding a fraction to the nearest pattern (ties to even), and the
  operations built from the two. \<open>p\<close> is the precision (24 or 53 bits), \<open>w\<close> the exponent width
  (8 or 11 bits).
\<close>

datatype fval = NaN | Inf bool | Fin bool nat nat

fun log2_floor :: "nat \<Rightarrow> int" where
  "log2_floor n = (if n < 2 then 0 else 1 + log2_floor (n div 2))"

declare log2_floor.simps [simp del]

definition frac_log2 :: "nat \<Rightarrow> nat \<Rightarrow> int" where
  "frac_log2 n d =
     (let l = log2_floor n - log2_floor d
      in if d * 2 ^ nat l \<le> n * 2 ^ nat (- l) then l else l - 1)"

definition round_even :: "nat \<Rightarrow> nat \<Rightarrow> nat" where
  "round_even n d =
     (let q = n div d; r = 2 * (n mod d)
      in if d < r \<or> r = d \<and> odd q then q + 1 else q)"

definition fp_emin :: "nat \<Rightarrow> nat \<Rightarrow> int" where
  "fp_emin p w = 3 - 2 ^ (w - 1) - int p"

text \<open>The value of a pattern given as a number.\<close>

definition fp_decode :: "nat \<Rightarrow> nat \<Rightarrow> nat \<Rightarrow> fval" where
  "fp_decode p w pat =
     (let s = odd (pat div 2 ^ (p - 1 + w));
          x = pat div 2 ^ (p - 1) mod 2 ^ w;
          f = pat mod 2 ^ (p - 1)
      in if x = 2 ^ w - 1 then (if f = 0 then Inf s else NaN)
         else
           let m = (if x = 0 then f else 2 ^ (p - 1) + f);
               e = fp_emin p w + int (if x = 0 then 0 else x - 1)
           in Fin s (m * 2 ^ nat e) (2 ^ nat (- e)))"

definition fp_encode :: "nat \<Rightarrow> nat \<Rightarrow> fval \<Rightarrow> nat" where
  "fp_encode p w v =
     (let inf = (2 ^ w - 1) * 2 ^ (p - 1)
      in case v of
           NaN \<Rightarrow> inf + 2 ^ (p - 2)
         | Inf s \<Rightarrow> inf + of_bool s * 2 ^ (p - 1 + w)
         | Fin s n d \<Rightarrow>
             (let mag =
                 (if n = 0 then 0
                  else
                    let e = max (fp_emin p w) (frac_log2 n d - int (p - 1));
                        q = round_even (n * 2 ^ nat (- e)) (d * 2 ^ nat e)
                    in min inf (nat (e - fp_emin p w) * 2 ^ (p - 1) + q))
              in mag + of_bool s * 2 ^ (p - 1 + w)))"

definition f32_val :: "u32 \<Rightarrow> fval" where "f32_val f = fp_decode 24 8 (unat f)"
definition f32_of :: "fval \<Rightarrow> u32" where "f32_of v = of_nat (fp_encode 24 8 v)"
definition f64_val :: "u64 \<Rightarrow> fval" where "f64_val f = fp_decode 53 11 (unat f)"
definition f64_of :: "fval \<Rightarrow> u64" where "f64_of v = of_nat (fp_encode 53 11 v)"

fun fval_mul :: "fval \<Rightarrow> fval \<Rightarrow> fval" where
  "fval_mul (Fin s n d) (Fin t k e) = Fin (s \<noteq> t) (n * k) (d * e)"
| "fval_mul (Inf s) (Inf t) = Inf (s \<noteq> t)"
| "fval_mul (Inf s) (Fin t k e) = (if k = 0 then NaN else Inf (s \<noteq> t))"
| "fval_mul (Fin s n d) (Inf t) = (if n = 0 then NaN else Inf (s \<noteq> t))"
| "fval_mul _ _ = NaN"

fun fval_div :: "fval \<Rightarrow> fval \<Rightarrow> fval" where
  "fval_div (Fin s n d) (Fin t k e) =
     (if k = 0 then (if n = 0 then NaN else Inf (s \<noteq> t)) else Fin (s \<noteq> t) (n * e) (d * k))"
| "fval_div (Inf s) (Fin t k e) = Inf (s \<noteq> t)"
| "fval_div (Fin s n d) (Inf t) = Fin (s \<noteq> t) 0 1"
| "fval_div _ _ = NaN"

text \<open>The comparison \<^verbatim>\<open><\<close>, false when an operand is not a number.\<close>

fun fval_less :: "fval \<Rightarrow> fval \<Rightarrow> bool" where
  "fval_less (Fin s n d) (Fin t k e) =
     ((if s then - int n else int n) * int e < (if t then - int k else int k) * int d)"
| "fval_less (Inf s) (Inf t) = (s \<and> \<not> t)"
| "fval_less (Inf s) (Fin _ _ _) = s"
| "fval_less (Fin _ _ _) (Inf t) = (\<not> t)"
| "fval_less _ _ = False"

text \<open>Conversion to \<^verbatim>\<open>uint64_t\<close>: the integral part; out of range it is undefined (\<open>None\<close>).\<close>

fun fval_to_u64 :: "fval \<Rightarrow> u64 option" where
  "fval_to_u64 (Fin s n d) =
     (let t = n div d in if s \<and> t \<noteq> 0 \<or> 2 ^ 64 \<le> t then None else Some (of_nat t))"
| "fval_to_u64 _ = None"

text \<open>Conversions from unsigned integers and from \<^verbatim>\<open>float\<close> to \<^verbatim>\<open>double\<close>.\<close>

definition f32_of_nat :: "nat \<Rightarrow> u32" where "f32_of_nat n = f32_of (Fin False n 1)"
definition f64_of_nat :: "nat \<Rightarrow> u64" where "f64_of_nat n = f64_of (Fin False n 1)"
definition f64_of_f32 :: "u32 \<Rightarrow> u64" where "f64_of_f32 f = f64_of (f32_val f)"

definition f32_mul :: "u32 \<Rightarrow> u32 \<Rightarrow> u32" where "f32_mul a b = f32_of (fval_mul (f32_val a) (f32_val b))"
definition f32_div :: "u32 \<Rightarrow> u32 \<Rightarrow> u32" where "f32_div a b = f32_of (fval_div (f32_val a) (f32_val b))"
definition f64_mul :: "u64 \<Rightarrow> u64 \<Rightarrow> u64" where "f64_mul a b = f64_of (fval_mul (f64_val a) (f64_val b))"
definition f64_div :: "u64 \<Rightarrow> u64 \<Rightarrow> u64" where "f64_div a b = f64_of (fval_div (f64_val a) (f64_val b))"
definition f32_less :: "u32 \<Rightarrow> u32 \<Rightarrow> bool" where "f32_less a b = fval_less (f32_val a) (f32_val b)"
definition f64_to_u64 :: "u64 \<Rightarrow> u64 option" where "f64_to_u64 f = fval_to_u64 (f64_val f)"

lemma log2_floor_small: "n < 2 \<Longrightarrow> log2_floor n = 0"
  by (subst log2_floor.simps) simp

lemma log2_floor_step: "2 \<le> n \<Longrightarrow> log2_floor n = 1 + log2_floor (n div 2)"
  by (subst log2_floor.simps) simp

lemmas fp_eval = fp_encode_def fp_decode_def fp_emin_def frac_log2_def round_even_def
  log2_floor_step log2_floor_small Let_def

text \<open>Decimal digits, as \<^verbatim>\<open>printf\<close> prints unsigned numbers.\<close>

fun dec :: "nat \<Rightarrow> byte list" where
  "dec n = (if n < 10 then [of_nat (48 + n)] else dec (n div 10) @ [of_nat (48 + n mod 10)])"

declare dec.simps [simp del]

lemma dec_small: "n < 10 \<Longrightarrow> dec n = [of_nat (48 + n)]"
  and dec_step: "10 \<le> n \<Longrightarrow> dec n = dec (n div 10) @ [of_nat (48 + n mod 10)]"
  by (subst dec.simps, simp)+

text \<open>The \<^verbatim>\<open>%.2f\<close> rendering of a \<^verbatim>\<open>double\<close>.\<close>

definition fmt_2f :: "u64 \<Rightarrow> byte list" where
  "fmt_2f f =
     (case f64_val f of
        NaN \<Rightarrow> (if bit f 63 then cstr ''-nan'' else cstr ''nan'')
      | Inf s \<Rightarrow> (if s then cstr ''-inf'' else cstr ''inf'')
      | Fin s n d \<Rightarrow>
          (let q = round_even (100 * n) d
           in (if s then cstr ''-'' else []) @ dec (q div 100) @ cstr ''.''
                @ [of_nat (48 + q mod 100 div 10), of_nat (48 + q mod 10)]))"

end
