(* ===== verification/Client_Request.thy ===== *)
theory Client_Request
  imports Client_Response Haze_Float
begin

text \<open>
  \<^verbatim>\<open>clients/cpp/src/proto/Request.cpp\<close>, \<^verbatim>\<open>Request.hpp\<close> and \<^verbatim>\<open>HazeClient.cpp\<close>: the request a client program
  assembles, and the client object. \<^verbatim>\<open>RequestMarshal\<close>, \<^verbatim>\<open>RequestUnmarshal\<close> and \<^verbatim>\<open>HazeClient::Ping\<close> are declared
  in the headers but have no body in the repository, so they have no model.
\<close>

subsection \<open>Requests\<close>

record ClientRequest =
  cq_type :: RPCType
  cq_msgid :: u32
  cq_method :: "byte list"
  cq_parameters :: "ClientObject list"

text \<open>The pointer the mutable overload returns is the parameter with the effect of assigning to it.\<close>

definition Client_RequestParamGet :: "ClientRequest \<Rightarrow> u32 \<Rightarrow> (ClientObject \<times> (ClientObject \<Rightarrow> ClientRequest)) option" where
  "Client_RequestParamGet rq index =
     (if length (cq_parameters rq) \<le> unat index then None
      else Some (cq_parameters rq ! unat index,
                 \<lambda>x. rq\<lparr>cq_parameters := (cq_parameters rq)[unat index := x]\<rparr>))"

definition Client_RequestParamGet_const :: "ClientRequest \<Rightarrow> u32 \<Rightarrow> ClientObject option" where
  "Client_RequestParamGet_const rq index =
     (if length (cq_parameters rq) \<le> unat index then None else Some (cq_parameters rq ! unat index))"

definition Client_RequestParamAppend :: "ClientRequest \<Rightarrow> ClientObject \<Rightarrow> bool \<times> ClientRequest" where
  "Client_RequestParamAppend rq param = (True, rq\<lparr>cq_parameters := cq_parameters rq @ [param]\<rparr>)"

definition Client_RequestTypeGet :: "ClientRequest \<Rightarrow> RPCType" where "Client_RequestTypeGet rq = cq_type rq"
definition Client_RequestMsgId :: "ClientRequest \<Rightarrow> u32" where "Client_RequestMsgId rq = cq_msgid rq"
definition Client_RequestMethod :: "ClientRequest \<Rightarrow> byte list" where "Client_RequestMethod rq = cq_method rq"

definition Client_RequestParamCount :: "ClientRequest \<Rightarrow> u32" where
  "Client_RequestParamCount rq = to_u32 (length (cq_parameters rq))"

definition Client_RequestParamIsType :: "ClientRequest \<Rightarrow> ClientObjectType \<Rightarrow> u32 \<Rightarrow> bool" where
  "Client_RequestParamIsType rq t index =
     (case Client_RequestParamGet_const rq index of None \<Rightarrow> False | Some param \<Rightarrow> Object_GetType param = t)"

definition Client_RequestNew :: ClientRequest where
  "Client_RequestNew = \<lparr>cq_type = RPCType_Request, cq_msgid = 0, cq_method = [], cq_parameters = []\<rparr>"

definition Client_RequestSetMethod :: "ClientRequest \<Rightarrow> byte list \<Rightarrow> ClientRequest" where
  "Client_RequestSetMethod rq meth = rq\<lparr>cq_method := meth\<rparr>"

text \<open>
  \<^verbatim>\<open>RequestPrint\<close> assembles its result in a static string; a caller reads it as a C string, up to the first
  NUL, and only until the next call.
\<close>

definition Client_RequestPrint :: "ClientRequest \<Rightarrow> byte list" where
  "Client_RequestPrint rq =
     until_nul
      (cstr ''Request{''
       @ cstr ''type='' @ dec (unat (cq_type rq))
       @ cstr '', msgid='' @ dec (unat (cq_msgid rq))
       @ cstr '', method='' @ [34] @ cq_method rq @ [34]
       @ cstr '', params='' @ dec (length (cq_parameters rq))
       @ cstr ''}'')"

subsection \<open>The client object\<close>

record HazeClient =
  hc_host :: "byte list"
  hc_port :: u16

definition HazeClient_Connect :: "HazeClient \<Rightarrow> byte list \<Rightarrow> u16 \<Rightarrow> bool \<times> HazeClient" where
  "HazeClient_Connect c host port = (True, c\<lparr>hc_host := host, hc_port := port\<rparr>)"

definition HazeClient_Disconnect :: "HazeClient \<Rightarrow> HazeClient" where
  "HazeClient_Disconnect c = c\<lparr>hc_host := [], hc_port := 0\<rparr>"

definition HazeClient_Host :: "HazeClient \<Rightarrow> byte list" where "HazeClient_Host c = hc_host c"
definition HazeClient_Port :: "HazeClient \<Rightarrow> u16" where "HazeClient_Port c = hc_port c"

subsection \<open>Assembling a request\<close>

definition Client_RequestBuild :: "byte list \<Rightarrow> ClientObject list \<Rightarrow> ClientRequest" where
  "Client_RequestBuild meth params =
     fold (\<lambda>x rq. snd (Client_RequestParamAppend rq x)) params (Client_RequestSetMethod Client_RequestNew meth)"

lemma fold_append:
  "fold (\<lambda>x rq. snd (Client_RequestParamAppend rq x)) params rq = rq\<lparr>cq_parameters := cq_parameters rq @ params\<rparr>"
  by (induction params arbitrary: rq) (simp_all add: Client_RequestParamAppend_def)

lemma RequestBuild_eq:
  "Client_RequestBuild meth params =
     \<lparr>cq_type = RPCType_Request, cq_msgid = 0, cq_method = meth, cq_parameters = params\<rparr>"
  by (simp add: Client_RequestBuild_def fold_append Client_RequestSetMethod_def Client_RequestNew_def)

text \<open>
  A request assembled with \<^verbatim>\<open>RequestNew\<close>, \<^verbatim>\<open>RequestSetMethod\<close> and one \<^verbatim>\<open>RequestParamAppend\<close> per parameter
  has the method, answers \<^verbatim>\<open>RequestParamGet\<close> and \<^verbatim>\<open>RequestParamIsType\<close> with the parameters in order and nothing beyond
  them, and an assignment through the pointer \<^verbatim>\<open>RequestParamGet\<close> returns replaces that parameter alone. Its message id
  is 0 until the program assigns the field itself.
\<close>

theorem client_request_built:
  assumes "length params < 2 ^ 32"
  shows "Client_RequestMethod (Client_RequestBuild meth params) = meth
    \<and> Client_RequestTypeGet (Client_RequestBuild meth params) = RPCType_Request
    \<and> Client_RequestMsgId (Client_RequestBuild meth params) = 0
    \<and> unat (Client_RequestParamCount (Client_RequestBuild meth params)) = length params
    \<and> (\<forall>i. Client_RequestParamGet_const (Client_RequestBuild meth params) i
          = (if unat i < length params then Some (params ! unat i) else None))
    \<and> (\<forall>i t. Client_RequestParamIsType (Client_RequestBuild meth params) t i
          \<longleftrightarrow> unat i < length params \<and> co_type (params ! unat i) = t)
    \<and> (\<forall>i x assign y. Client_RequestParamGet (Client_RequestBuild meth params) i = Some (x, assign)
          \<longrightarrow> x = params ! unat i \<and> assign y = Client_RequestBuild meth (params[unat i := y]))"
  using assms
  by (auto simp: RequestBuild_eq Client_RequestMethod_def Client_RequestTypeGet_def Client_RequestMsgId_def
      Client_RequestParamCount_def Client_RequestParamGet_const_def Client_RequestParamIsType_def Object_GetType_def
      Client_RequestParamGet_def split: if_splits)

theorem client_request_built_witness:
  "Client_RequestParamGet_const (Client_RequestBuild (cstr ''sample/play'') [Object_CreateStr (cstr ''kick.wav'')]) 0
     = Some (Object_CreateStr (cstr ''kick.wav''))
   \<and> \<not> Client_RequestParamIsType (Client_RequestBuild (cstr ''sample/play'') [Object_CreateStr (cstr ''kick.wav'')]) Ty_Str 1"
  using client_request_built [of "[Object_CreateStr (cstr ''kick.wav'')]" "cstr ''sample/play''"] by simp

lemma connect_disconnect:
  "HazeClient_Connect c host port = (True, \<lparr>hc_host = host, hc_port = port\<rparr>)"
  "HazeClient_Host (HazeClient_Disconnect c) = [] \<and> HazeClient_Port (HazeClient_Disconnect c) = 0"
  by (cases c; simp add: HazeClient_Connect_def HazeClient_Disconnect_def HazeClient_Host_def HazeClient_Port_def)+

end
