(* ===== verification/Haze_Sample.thy ===== *)
theory Haze_Sample
  imports Haze_Float Haze_Result
begin

text \<open>
  \<^verbatim>\<open>source/audio/Sample.c\<close>: a loaded sample, its playback functions and getters. Miniaudio is the
  record \<open>miniaudio\<close> of answers: a sound or decoder handle is the list of calls made on it so far,
  and every answer of the library is a function of that history, so nothing is assumed about it.
\<close>

datatype ma_call =
    Sound_init_file "byte list"
  | Sound_init_data
  | Sound_uninit
  | Sound_start
  | Sound_stop
  | Sound_seek u64
  | Sound_set_volume u32
  | Decoder_init "byte list"
  | Decoder_uninit
  | Group_init
  | Engine_init

type_synonym handle = "ma_call list"

text \<open>\<open>ma_ok\<close>: the call returns \<^verbatim>\<open>MA_SUCCESS\<close>; \<open>os_readable\<close>: \<^verbatim>\<open>fopen(path, "rb")\<close> succeeds.\<close>

record miniaudio =
  ma_ok :: "handle \<Rightarrow> ma_call \<Rightarrow> bool"
  ma_frames :: "handle \<Rightarrow> u64"
  ma_cursor :: "handle \<Rightarrow> u64"
  ma_is_playing :: "handle \<Rightarrow> bool"
  ma_engine_rate :: u32
  os_readable :: "byte list \<Rightarrow> bool"

record Sample =
  smp_id :: u64
  smp_handle :: handle
  smp_decoder :: handle
  smp_buf :: "byte list option"
  smp_buf_size :: nat
  smp_volume :: u32
  smp_pitch :: u32
  smp_duration :: u32
  smp_sample_rate :: u32
  smp_is_playing :: bool
  smp_name :: "byte list option"

definition float_1 :: u32 where "float_1 = 0x3f800000"

definition SampleNew :: "mem \<Rightarrow> Sample option \<times> mem" where
  "SampleNew m =
     (let (ok, m) = malloc m in
      if \<not> ok then (None, m)
      else
        let (ok, m) = malloc m in
        if \<not> ok then (None, free1 m)
        else (Some \<lparr>smp_id = 0, smp_handle = [], smp_decoder = [], smp_buf = None, smp_buf_size = 0,
                    smp_volume = float_1, smp_pitch = float_1, smp_duration = 0, smp_sample_rate = 0,
                    smp_is_playing = False, smp_name = Some []\<rparr>, m))"

text \<open>The message of a format that ends in a quoted \<^verbatim>\<open>%s\<close>.\<close>

definition quoted :: "string \<Rightarrow> byte list \<Rightarrow> byte list" where
  "quoted pre s = cstr pre @ [0x27] @ s @ [0x27]"

definition audio_err :: "string \<Rightarrow> ResultAudio" where
  "audio_err msg = ResultAudioErr (Some (cstr msg))"

definition audio_errf :: "byte list \<Rightarrow> Sample \<Rightarrow> mem \<Rightarrow> ResultAudio \<times> Sample option \<times> mem" where
  "audio_errf msg s m = (let (r, m) = ResultAudioErrF msg m in (r, Some s, m))"

text \<open>The part both initialisers share: length and rate of the loaded sound.\<close>

definition seconds_of :: "u64 \<Rightarrow> u32 \<Rightarrow> u32" where
  "seconds_of frames rate = f32_div (f32_of_nat (unat frames)) (f32_of_nat (unat rate))"

definition SampleInit_sound ::
  "miniaudio \<Rightarrow> Sample \<Rightarrow> byte list \<Rightarrow> mem \<Rightarrow> ResultAudio \<times> Sample option \<times> mem" where
  "SampleInit_sound ma s nm m =
     (let ok = ma_ok ma (smp_handle s) Sound_init_data;
          s = s\<lparr>smp_handle := smp_handle s @ [Sound_init_data]\<rparr>
      in if \<not> ok
         then audio_errf (quoted ''failed to init sound for '' nm)
                (s\<lparr>smp_decoder := smp_decoder s @ [Decoder_uninit], smp_buf := None\<rparr>) (free1 m)
         else
           let rate = ma_engine_rate ma;
               s = s\<lparr>smp_duration := seconds_of (ma_frames ma (smp_handle s)) rate,
                     smp_sample_rate := rate, smp_volume := float_1, smp_pitch := float_1\<rparr>;
               (ok, m) = malloc (free_opt (smp_name s) m)
           in if \<not> ok
              then (audio_err ''out of memory'',
                    Some (s\<lparr>smp_name := None, smp_handle := smp_handle s @ [Sound_uninit],
                            smp_decoder := smp_decoder s @ [Decoder_uninit], smp_buf := None\<rparr>), free1 m)
              else (ResultAudioOk, Some (s\<lparr>smp_name := Some nm\<rparr>), m))"

text \<open>
  \<open>data\<close> is the memory behind the data pointer. \<open>None\<close> stands for undefined behaviour: reading
  past that memory.
\<close>

definition SampleInit ::
  "miniaudio \<Rightarrow> Sample option \<Rightarrow> byte list option \<Rightarrow> byte list option \<Rightarrow> nat \<Rightarrow> mem \<Rightarrow>
   (ResultAudio \<times> Sample option \<times> mem) option" where
  "SampleInit ma sp sample_name data sz m =
     (case (sp, data, sample_name) of
        (None, _, _) \<Rightarrow> Some (audio_err ''sample is null'', sp, m)
      | (_, None, _) \<Rightarrow> Some (audio_err ''invalid data'', sp, m)
      | (Some s, Some d, sample_name) \<Rightarrow>
          if sz = 0 then Some (audio_err ''invalid data'', sp, m)
          else (case sample_name of
              None \<Rightarrow> Some (audio_err ''sample name is null'', sp, m)
            | Some nm \<Rightarrow>
                let (ok, m) = malloc m in
                if \<not> ok then Some (audio_err ''out of memory'', Some (s\<lparr>smp_buf := None\<rparr>), m)
                else (case read_block d sz of
                    None \<Rightarrow> None
                  | Some bytes \<Rightarrow>
                      let s = s\<lparr>smp_buf := Some bytes, smp_buf_size := sz\<rparr>;
                          ok = ma_ok ma (smp_decoder s) (Decoder_init bytes);
                          s = s\<lparr>smp_decoder := smp_decoder s @ [Decoder_init bytes]\<rparr>
                      in Some (if \<not> ok
                               then audio_errf (quoted ''failed to init decoder for '' nm)
                                      (s\<lparr>smp_buf := None\<rparr>) (free1 m)
                               else SampleInit_sound ma s nm m))))"

text \<open>\<^verbatim>\<open>strrchr(path, '/')\<close> and one further, or the whole path.\<close>

definition base_name :: "byte list \<Rightarrow> byte list" where
  "base_name path = rev (takeWhile (\<lambda>c. c \<noteq> 0x2f) (rev path))"

definition SampleInitFromFile ::
  "miniaudio \<Rightarrow> Sample option \<Rightarrow> byte list option \<Rightarrow> mem \<Rightarrow> ResultAudio \<times> Sample option \<times> mem" where
  "SampleInitFromFile ma sp path m =
     (case sp of
        None \<Rightarrow> (audio_err ''sample is null'', sp, m)
      | Some s \<Rightarrow>
          if path = None \<or> path = Some [] then (audio_err ''invalid path'', sp, m)
          else
            let p = the path in
            if \<not> os_readable ma p
            then audio_errf (quoted ''arquivo nao encontrado ou sem permissao de leitura: '' p) s m
            else
              let ok = ma_ok ma (smp_handle s) (Sound_init_file p);
                  s = s\<lparr>smp_handle := smp_handle s @ [Sound_init_file p]\<rparr>
              in if \<not> ok then audio_errf (quoted ''failed to load sample from file: '' p) s m
                 else
                   let rate = ma_engine_rate ma;
                       s = s\<lparr>smp_sample_rate := rate,
                             smp_duration := seconds_of (ma_frames ma (smp_handle s)) rate,
                             smp_volume := float_1, smp_pitch := float_1, smp_buf := None, smp_buf_size := 0\<rparr>;
                       (ok, m) = malloc (free_opt (smp_name s) m)
                   in if \<not> ok
                      then (audio_err ''out of memory'',
                            Some (s\<lparr>smp_name := None, smp_handle := smp_handle s @ [Sound_uninit]\<rparr>), m)
                      else (ResultAudioOk, Some (s\<lparr>smp_name := Some (base_name p)\<rparr>), m))"

text \<open>
  Printing a message with \<^verbatim>\<open>%s\<close> of a name that is \<^verbatim>\<open>NULL\<close> is undefined (\<open>None\<close>), as is converting
  a time that does not fit to a frame number.
\<close>

definition named_errf ::
  "Sample \<Rightarrow> (byte list \<Rightarrow> byte list) \<Rightarrow> mem \<Rightarrow> (ResultAudio \<times> Sample option \<times> mem) option" where
  "named_errf s msg m = (case smp_name s of None \<Rightarrow> None | Some nm \<Rightarrow> Some (audio_errf (msg nm) s m))"

definition SampleSeek ::
  "miniaudio \<Rightarrow> Sample option \<Rightarrow> u64 \<Rightarrow> mem \<Rightarrow> (ResultAudio \<times> Sample option \<times> mem) option" where
  "SampleSeek ma sp seconds m =
     (case sp of
        None \<Rightarrow> Some (audio_err ''sample is null'', sp, m)
      | Some s \<Rightarrow>
          (case f64_to_u64 (f64_mul seconds (f64_of_nat (unat (smp_sample_rate s)))) of
             None \<Rightarrow> None
           | Some frame \<Rightarrow>
               let ok = ma_ok ma (smp_handle s) (Sound_seek frame);
                   s = s\<lparr>smp_handle := smp_handle s @ [Sound_seek frame]\<rparr>
               in if \<not> ok
                  then named_errf s (\<lambda>nm. quoted ''failed to seek '' nm @ cstr '' to '' @ fmt_2f seconds @ cstr ''s'') m
                  else Some (ResultAudioOk, Some s, m)))"

definition SampleSetVolume :: "Sample option \<Rightarrow> u32 \<Rightarrow> ResultAudio \<times> Sample option" where
  "SampleSetVolume sp v =
     (case sp of
        None \<Rightarrow> (audio_err ''sample is null'', sp)
      | Some s \<Rightarrow>
          let v = (if f32_less v 0 then 0 else v);
              v = (if f32_less float_1 v then float_1 else v)
          in (ResultAudioOk, Some (s\<lparr>smp_volume := v, smp_handle := smp_handle s @ [Sound_set_volume v]\<rparr>)))"

definition SamplePlay ::
  "miniaudio \<Rightarrow> Sample option \<Rightarrow> mem \<Rightarrow> (ResultAudio \<times> Sample option \<times> mem) option" where
  "SamplePlay ma sp m =
     (case sp of
        None \<Rightarrow> Some (audio_err ''sample is null'', sp, m)
      | Some s \<Rightarrow>
          let ok = ma_ok ma (smp_handle s) Sound_start;
              s = s\<lparr>smp_handle := smp_handle s @ [Sound_start]\<rparr>
          in if \<not> ok then named_errf s (quoted ''failed to play sample '') m
             else Some (ResultAudioOk, Some s, m))"

definition SampleStop ::
  "miniaudio \<Rightarrow> Sample option \<Rightarrow> mem \<Rightarrow> (ResultAudio \<times> Sample option \<times> mem) option" where
  "SampleStop ma sp m =
     (case sp of
        None \<Rightarrow> Some (audio_err ''sample is null'', sp, m)
      | Some s \<Rightarrow>
          let ok = ma_ok ma (smp_handle s) Sound_stop;
              s = s\<lparr>smp_handle := smp_handle s @ [Sound_stop]\<rparr>
          in if \<not> ok then named_errf s (quoted ''failed to stop sample '') m
             else Some (ResultAudioOk, Some s, m))"

text \<open>The first component is the history of the sound handle when it is released.\<close>

definition SampleFree :: "Sample option \<Rightarrow> mem \<Rightarrow> handle \<times> mem" where
  "SampleFree sp m =
     (case sp of
        None \<Rightarrow> ([], m)
      | Some s \<Rightarrow>
          (smp_handle s @ [Sound_uninit], free1 (free_opt (smp_name s) (free_opt (smp_buf s) m))))"

definition SampleRename ::
  "Sample option \<Rightarrow> byte list option \<Rightarrow> mem \<Rightarrow> ResultAudio \<times> Sample option \<times> mem" where
  "SampleRename sp newName m =
     (case sp of
        None \<Rightarrow> (audio_err ''sample is null'', sp, m)
      | Some s \<Rightarrow>
          (case newName of
             None \<Rightarrow> (audio_err ''new name is null'', sp, m)
           | Some nm \<Rightarrow>
               let (copy, m) = strdup nm m in
               if copy = None then (audio_err ''out of memory'', sp, m)
               else (ResultAudioOk, Some (s\<lparr>smp_name := copy\<rparr>), free_opt (smp_name s) m)))"

subsection \<open>Getters\<close>

definition SampleGetVolume :: "Sample option \<Rightarrow> u32" where
  "SampleGetVolume sp = (case sp of None \<Rightarrow> 0 | Some s \<Rightarrow> smp_volume s)"

definition SampleGetPitch :: "Sample option \<Rightarrow> u32" where
  "SampleGetPitch sp = (case sp of None \<Rightarrow> 0 | Some s \<Rightarrow> smp_pitch s)"

definition SampleGetId :: "Sample option \<Rightarrow> u64" where
  "SampleGetId sp = (case sp of None \<Rightarrow> 0 | Some s \<Rightarrow> smp_id s)"

definition SampleGetDuration :: "Sample option \<Rightarrow> u32" where
  "SampleGetDuration sp = (case sp of None \<Rightarrow> 0 | Some s \<Rightarrow> smp_duration s)"

definition SampleGetSampleRate :: "Sample option \<Rightarrow> u32" where
  "SampleGetSampleRate sp = (case sp of None \<Rightarrow> 0 | Some s \<Rightarrow> f32_of_nat (unat (smp_sample_rate s)))"

definition SampleGetCursor :: "miniaudio \<Rightarrow> Sample option \<Rightarrow> u32" where
  "SampleGetCursor ma sp =
     (case sp of None \<Rightarrow> 0 | Some s \<Rightarrow> seconds_of (ma_cursor ma (smp_handle s)) (smp_sample_rate s))"

definition SampleIsPlaying :: "miniaudio \<Rightarrow> Sample option \<Rightarrow> bool" where
  "SampleIsPlaying ma sp = (case sp of None \<Rightarrow> False | Some s \<Rightarrow> ma_is_playing ma (smp_handle s))"

definition SampleGetName :: "Sample option \<Rightarrow> byte list option" where
  "SampleGetName sp = (case sp of None \<Rightarrow> None | Some s \<Rightarrow> smp_name s)"

subsection \<open>Blocks and properties\<close>

definition sample_blocks :: "Sample \<Rightarrow> int" where
  "sample_blocks s = 1 + of_bool (smp_name s \<noteq> None) + of_bool (smp_buf s \<noteq> None)"

lemma SampleNew_cases:
  assumes "SampleNew m = (sp, m')"
  obtains (fail) "sp = None" "live m' = live m" "\<not> nofail m"
  | (new) s where "sp = Some s" "live m' = live m + 2" "smp_name s = Some []" "smp_buf s = None"
      "smp_handle s = []" "nofail m \<Longrightarrow> m' = mem_add 2 m"
proof -
  obtain ok m1 where 1: "malloc m = (ok, m1)" by fastforce
  obtain ok2 m2 where 2: "malloc m1 = (ok2, m2)" by fastforce
  note L = malloc_live [OF 1] malloc_live [OF 2]
  show thesis
  proof (cases "ok \<and> ok2")
    case True
    then show thesis
      using assms 1 2 L malloc_nofail [of m] malloc_nofail [of m1] by (intro new) (auto simp: SampleNew_def)
  next
    case False
    then have "\<not> nofail m" using 1 2 malloc_nofailD [OF 1] malloc_nofailD [OF 2] by auto
    with False show thesis using assms 1 2 L by (intro fail) (auto simp: SampleNew_def split: if_splits)
  qed
qed

lemma SampleFree_live: "live (snd (SampleFree (Some s) m)) = live m - sample_blocks s"
  by (simp add: SampleFree_def sample_blocks_def free_opt_live)

lemma audio_err_fields [simp]: "\<not> ra_success (audio_err e)" "ra_blocks (audio_err e) = 0"
  by (simp_all add: audio_err_def ResultAudioErr_def ra_blocks_def)

lemma audio_errf_cases:
  assumes "audio_errf msg s m = (r, sp, m')"
  shows "\<not> ra_success r" "sp = Some s" "live m' = live m + ra_blocks r"
  using assms ResultAudioErrF_live [of msg m] by (auto simp: audio_errf_def split: prod.splits)

text \<open>The file exists and the audio library takes it.\<close>

definition loadable :: "miniaudio \<Rightarrow> handle \<Rightarrow> byte list option \<Rightarrow> bool" where
  "loadable ma h path \<longleftrightarrow>
     (case path of None \<Rightarrow> False | Some p \<Rightarrow> p \<noteq> [] \<and> os_readable ma p \<and> ma_ok ma h (Sound_init_file p))"

lemma SampleInitFromFile_cases:
  assumes "SampleInitFromFile ma (Some s) path m = (r, sp, m')" and "smp_buf s = None" "smp_name s \<noteq> None"
  obtains (ok) s' p where "r = ResultAudioOk" "sp = Some s'" "path = Some p" "p \<noteq> []" "os_readable ma p"
      "smp_name s' = Some (base_name p)" "smp_id s' = smp_id s" "smp_buf s' = None"
      "smp_handle s' = smp_handle s @ [Sound_init_file p]" "live m' = live m" "nofail m \<Longrightarrow> nofail m'"
  | (fail) s' where "\<not> ra_success r" "sp = Some s'" "smp_buf s' = None"
      "live m' - sample_blocks s' = live m - sample_blocks s + ra_blocks r"
      "\<not> (nofail m \<and> loadable ma (smp_handle s) path)"
proof -
  obtain ok m1 where 1: "malloc (free_opt (smp_name s) m) = (ok, m1)" by fastforce
  show thesis
    using assms 1 malloc_live [OF 1] malloc_nofailD [OF 1] that(1) that(2)
    by (fastforce simp: SampleInitFromFile_def Let_def sample_blocks_def free_opt_live loadable_def
        dest: audio_errf_cases split: if_splits)
qed

lemma float_0_1:
  "\<not> f32_less 0 0" "\<not> f32_less float_1 0" "\<not> f32_less float_1 float_1" "\<not> f32_less float_1 0"
  "f32_less 0 float_1"
  by (simp_all add: f32_less_def f32_val_def float_1_def fp_decode_def fp_emin_def Let_def)

text \<open>
  \<^verbatim>\<open>SampleSetVolume\<close> stores a volume that is neither below 0 nor above 1, hands the device the
  same value it stores, and keeps every volume that was in range already (a NaN passes unchanged).
\<close>

theorem sample_volume_clamped:
  "\<exists>s'. SampleSetVolume (Some s) v = (ResultAudioOk, Some s')
     \<and> \<not> f32_less (smp_volume s') 0 \<and> \<not> f32_less float_1 (smp_volume s')
     \<and> smp_handle s' = smp_handle s @ [Sound_set_volume (smp_volume s')]
     \<and> smp_volume s' = (if f32_less v 0 then 0 else if f32_less float_1 v then float_1 else v)"
  using float_0_1 by (simp add: SampleSetVolume_def Let_def)

text \<open>
  When the last allocation of \<^verbatim>\<open>SampleInitFromFile\<close> fails the sound is uninitialised, but the
  sample keeps the handle, so the \<^verbatim>\<open>SampleFree\<close> with which the caller reacts uninitialises the same
  sound a second time.
\<close>

theorem sample_double_uninit:
  assumes "os_readable ma p" "p \<noteq> []" "ma_ok ma [] (Sound_init_file p)"
    and "SampleNew m0 = (Some s, m)" "outcomes m = False # os"
    and "SampleInitFromFile ma (Some s) (Some p) m = (r, sp, m')"
  shows "\<not> ra_success r \<and> fst (SampleFree sp m') = [Sound_init_file p, Sound_uninit, Sound_uninit]"
proof -
  from assms(4) have s: "smp_handle s = []" "smp_name s = Some []" by (cases rule: SampleNew_cases; simp)+
  have "malloc (free1 m) = (False, free1 (m\<lparr>outcomes := os\<rparr>))"
    using assms(5) by (simp add: malloc_def free1_def mem_add_def)
  then show ?thesis
    using assms s by (auto simp: SampleInitFromFile_def SampleFree_def Let_def free_opt_def)
qed

theorem sample_double_uninit_witness:
  "fst (SampleFree (fst (snd (SampleInitFromFile
       \<lparr>ma_ok = (\<lambda>_ _. True), ma_frames = (\<lambda>_. 0), ma_cursor = (\<lambda>_. 0), ma_is_playing = (\<lambda>_. False),
        ma_engine_rate = 48000, os_readable = (\<lambda>_. True)\<rparr>
       (fst (SampleNew \<lparr>outcomes = [True, True, False], live = 0\<rparr>)) (Some (cstr ''a.wav''))
       \<lparr>outcomes = [False], live = 2\<rparr>))) \<lparr>outcomes = [], live = 1\<rparr>) =
   [Sound_init_file (cstr ''a.wav''), Sound_uninit, Sound_uninit]"
proof -
  let ?ma = "\<lparr>ma_ok = (\<lambda>_ _. True), ma_frames = (\<lambda>_. 0), ma_cursor = (\<lambda>_. 0), ma_is_playing = (\<lambda>_. False),
        ma_engine_rate = 48000, os_readable = (\<lambda>_. True)\<rparr>"
  obtain s where s: "SampleNew \<lparr>outcomes = [True, True, False], live = 0\<rparr>
      = (Some s, \<lparr>outcomes = [False], live = 2\<rparr>)"
    by (simp add: SampleNew_def malloc_def mem_add_def)
  obtain r sp m' where r: "SampleInitFromFile ?ma (Some s) (Some (cstr ''a.wav'')) \<lparr>outcomes = [False], live = 2\<rparr>
      = (r, sp, m')" by (metis prod_cases3)
  have "fst (SampleFree sp m') = [Sound_init_file (cstr ''a.wav''), Sound_uninit, Sound_uninit]"
    using sample_double_uninit [OF _ _ _ s _ r] by (simp add: cstr_def)
  with s r show ?thesis by (auto simp: SampleFree_def split: option.splits)
qed

end
