(* ===== verification/Haze_SampleList.thy ===== *)
theory Haze_SampleList
  imports Haze_Sample
begin

text \<open>
  \<^verbatim>\<open>source/audio/SampleList.c\<close>: the samples of a session, addressed by name, and the RPC functions of
  \<^verbatim>\<open>source/api/functions/FnSampleList.c\<close> on top of it. A result \<open>None\<close> is undefined behaviour, here
  always \<^verbatim>\<open>strcmp\<close> or \<^verbatim>\<open>strdup\<close> of a name that is \<^verbatim>\<open>NULL\<close>.
\<close>

text \<open>\<open>sl_samples\<close> are the \<^verbatim>\<open>len\<close> slots in use; \<open>sl_alloc\<close> says whether the vector was allocated.\<close>

record SampleList =
  sl_samples :: "Sample option list"
  sl_alloc :: bool

definition SampleListNew :: "mem \<Rightarrow> SampleList option \<times> mem" where
  "SampleListNew m =
     (let (ok, m) = malloc m in
      if \<not> ok then (None, m) else (Some \<lparr>sl_samples = [], sl_alloc = False\<rparr>, m))"

definition SampleListFree :: "SampleList option \<Rightarrow> mem \<Rightarrow> mem" where
  "SampleListFree lp m =
     (case lp of
        None \<Rightarrow> m
      | Some l \<Rightarrow>
          let m = fold (\<lambda>s m. snd (SampleFree s m)) (sl_samples l) m
          in free1 (if sl_alloc l then free1 m else m))"

text \<open>\<^verbatim>\<open>sample && strcmp(sample->sample_name, name) == 0\<close>\<close>

definition has_name :: "byte list \<Rightarrow> Sample option \<Rightarrow> bool option" where
  "has_name nm sp =
     (case sp of
        None \<Rightarrow> Some False
      | Some s \<Rightarrow> (case smp_name s of None \<Rightarrow> None | Some n \<Rightarrow> Some (n = nm)))"

fun count_name :: "byte list \<Rightarrow> Sample option list \<Rightarrow> nat option" where
  "count_name nm [] = Some 0"
| "count_name nm (s # ss) =
     (case (has_name nm s, count_name nm ss) of
        (Some b, Some k) \<Rightarrow> Some ((if b then 1 else 0) + k)
      | _ \<Rightarrow> None)"

text \<open>The slot the two lookup loops stop at.\<close>

fun find_name :: "byte list \<Rightarrow> Sample option list \<Rightarrow> nat option option" where
  "find_name nm [] = Some None"
| "find_name nm (s # ss) =
     (case has_name nm s of
        None \<Rightarrow> None
      | Some True \<Rightarrow> Some (Some 0)
      | Some False \<Rightarrow> map_option (map_option Suc) (find_name nm ss))"

text \<open>\<^verbatim>\<open>snprintf(new_name, len + 32, "%s #%d", name, occurrences)\<close>\<close>

definition numbered :: "byte list \<Rightarrow> nat \<Rightarrow> byte list" where
  "numbered nm k = nm @ cstr '' #'' @ dec k"

definition SampleListImportByFile ::
  "miniaudio \<Rightarrow> SampleList option \<Rightarrow> byte list option \<Rightarrow> mem \<Rightarrow>
   (ResultAudio \<times> SampleList option \<times> mem) option" where
  "SampleListImportByFile ma lp path m =
     (case lp of
        None \<Rightarrow> Some (audio_err ''invalid argument'', lp, m)
      | Some l \<Rightarrow>
          if path = None then Some (audio_err ''invalid argument'', lp, m)
          else
            let index = length (sl_samples l);
                (sp, m) = SampleNew m
            in case sp of
                 None \<Rightarrow> Some (audio_err ''failed to allocate sample'', lp, m)
               | Some s \<Rightarrow>
                   let (result, sp, m) = SampleInitFromFile ma (Some (s\<lparr>smp_id := of_nat index\<rparr>)) path m
                   in if \<not> ResultAudioIsOk result then Some (result, lp, snd (SampleFree sp m))
                      else (case sp of
                          None \<Rightarrow> None
                        | Some s \<Rightarrow>
                            (case smp_name s of
                               None \<Rightarrow> None
                             | Some nm \<Rightarrow>
                                 (case count_name nm (sl_samples l) of
                                    None \<Rightarrow> None
                                  | Some occurrences \<Rightarrow>
                                      let (ok, s, m) =
                                            (if 0 < occurrences
                                             then let (ok, m) = malloc m
                                                  in if \<not> ok then (False, s, m)
                                                     else (True, s\<lparr>smp_name := Some (numbered nm occurrences)\<rparr>,
                                                           free1 m)
                                             else (True, s, m))
                                      in if \<not> ok
                                         then Some (audio_err ''failed to allocate sample name'', lp,
                                                    snd (SampleFree (Some s) m))
                                         else
                                           let (ok, m) = realloc (if sl_alloc l then Some () else None) m
                                           in if \<not> ok
                                              then Some (audio_err ''failed to resize sample list'', lp,
                                                         snd (SampleFree (Some s) m))
                                              else Some (ResultAudioOk,
                                                         Some \<lparr>sl_samples = sl_samples l @ [Some s],
                                                               sl_alloc = True\<rparr>, m)))))"

definition SampleListLen :: "SampleList option \<Rightarrow> nat" where
  "SampleListLen lp = (case lp of None \<Rightarrow> 0 | Some l \<Rightarrow> length (sl_samples l))"



definition SampleListDeleteSampleByName ::
  "SampleList option \<Rightarrow> byte list option \<Rightarrow> mem \<Rightarrow> (ResultAudio \<times> SampleList option \<times> mem) option" where
  "SampleListDeleteSampleByName lp name m =
     (case (lp, name) of
        (Some l, Some nm) \<Rightarrow>
          (case find_name nm (sl_samples l) of
             None \<Rightarrow> None
           | Some None \<Rightarrow> Some (audio_err ''sample not found'', lp, m)
           | Some (Some i) \<Rightarrow>
               let m = snd (SampleFree (sl_samples l ! i) m);
                   slots = shift_left i ((sl_samples l)[i := None]);
                   slots = slots[length slots - 1 := None]
               in Some (ResultAudioOk, Some (l\<lparr>sl_samples := take (length slots - 1) slots\<rparr>), m))
      | _ \<Rightarrow> Some (audio_err ''invalid argument'', lp, m))"

text \<open>The slot whose pointer is returned.\<close>

definition SampleListGetSampleByName :: "SampleList option \<Rightarrow> byte list option \<Rightarrow> nat option option" where
  "SampleListGetSampleByName lp name =
     (case (lp, name) of
        (Some l, Some nm) \<Rightarrow> find_name nm (sl_samples l)
      | _ \<Rightarrow> Some None)"

subsection \<open>The RPC functions\<close>

definition FnSampleListImportSample ::
  "miniaudio \<Rightarrow> SampleList option \<Rightarrow> byte list option \<Rightarrow> mem \<Rightarrow>
   (ResultAudio \<times> SampleList option \<times> mem) option" where
  "FnSampleListImportSample ma lp sample_path m =
     (if sample_path = None \<or> sample_path = Some [] then Some (audio_err ''Invalid sample path.'', lp, m)
      else if lp = None then Some (audio_err ''No sample list.'', lp, m)
      else SampleListImportByFile ma lp sample_path m)"

definition FnSampleListRemoveSample ::
  "SampleList option \<Rightarrow> byte list option \<Rightarrow> mem \<Rightarrow> (ResultAudio \<times> SampleList option \<times> mem) option" where
  "FnSampleListRemoveSample lp sample_name m =
     (if sample_name = None \<or> sample_name = Some [] then Some (audio_err ''Invalid sample name.'', lp, m)
      else if lp = None then Some (audio_err ''No sample list.'', lp, m)
      else SampleListDeleteSampleByName lp sample_name m)"

definition FnSamplePlay ::
  "miniaudio \<Rightarrow> SampleList option \<Rightarrow> byte list option \<Rightarrow> mem \<Rightarrow>
   (ResultAudio \<times> SampleList option \<times> mem) option" where
  "FnSamplePlay ma lp sample_name m =
     (if sample_name = None \<or> sample_name = Some [] then Some (audio_err ''Invalid sample name.'', lp, m)
      else (case lp of
          None \<Rightarrow> Some (audio_err ''No sample list.'', lp, m)
        | Some l \<Rightarrow>
            (case SampleListGetSampleByName lp sample_name of
               None \<Rightarrow> None
             | Some None \<Rightarrow> Some (audio_err ''Sample not found.'', lp, m)
             | Some (Some i) \<Rightarrow>
                 (case SamplePlay ma (sl_samples l ! i) m of
                    None \<Rightarrow> None
                  | Some (r, sp, m) \<Rightarrow> Some (r, Some (l\<lparr>sl_samples := (sl_samples l)[i := sp]\<rparr>), m)))))"

subsection \<open>Invariant and abstraction\<close>

text \<open>Every slot holds a sample with a name, and a list with samples has its vector.\<close>

definition sl_wf :: "SampleList \<Rightarrow> bool" where
  "sl_wf l \<longleftrightarrow> list_all (\<lambda>sp. \<exists>s. sp = Some s \<and> smp_name s \<noteq> None) (sl_samples l)
     \<and> (sl_samples l \<noteq> [] \<longrightarrow> sl_alloc l)"

definition sl_list :: "SampleList \<Rightarrow> Sample list" where
  "sl_list l = map the (sl_samples l)"

definition sample_name :: "Sample \<Rightarrow> byte list" where
  "sample_name s = the (smp_name s)"

definition sl_names :: "SampleList \<Rightarrow> byte list list" where
  "sl_names l = map sample_name (sl_list l)"

definition sl_blocks :: "SampleList \<Rightarrow> int" where
  "sl_blocks l = 1 + of_bool (sl_alloc l) + sum_list (map sample_blocks (sl_list l))"

lemma has_name_Some: "smp_name s \<noteq> None \<Longrightarrow> has_name nm (Some s) = Some (sample_name s = nm)"
  by (auto simp: has_name_def sample_name_def)

abbreviation named :: "Sample option \<Rightarrow> bool" where
  "named sp \<equiv> \<exists>s. sp = Some s \<and> smp_name s \<noteq> None"

lemma count_name_eq:
  "list_all named ss \<Longrightarrow> count_name nm ss = Some (count_list (map (sample_name \<circ> the) ss) nm)"
  by (induction ss) (auto simp: has_name_def sample_name_def)

text \<open>The first index that satisfies a predicate.\<close>

fun find_index :: "('a \<Rightarrow> bool) \<Rightarrow> 'a list \<Rightarrow> nat option" where
  "find_index P [] = None"
| "find_index P (x # xs) = (if P x then Some 0 else map_option Suc (find_index P xs))"

lemma find_index_Some:
  "find_index P xs = Some i \<longleftrightarrow> i < length xs \<and> P (xs ! i) \<and> (\<forall>j < i. \<not> P (xs ! j))"
proof (induction xs arbitrary: i)
  case (Cons x xs)
  show ?case
    by (cases i) (auto simp: Cons less_Suc_eq_0_disj)
qed simp

lemma find_index_None: "find_index P xs = None \<longleftrightarrow> (\<forall>x \<in> set xs. \<not> P x)"
  by (induction xs) auto

lemma find_name_eq:
  "list_all named ss \<Longrightarrow> find_name nm ss = Some (find_index (\<lambda>x. x = nm) (map (sample_name \<circ> the) ss))"
  by (induction ss) (auto simp: has_name_def sample_name_def)

lemma sl_wf_named: "sl_wf l \<Longrightarrow> list_all named (sl_samples l)"
  by (simp add: sl_wf_def)

lemma sl_names_eq: "map (sample_name \<circ> the) (sl_samples l) = sl_names l"
  by (simp add: sl_names_def sl_list_def)

lemma length_sl_names [simp]: "length (sl_names l) = length (sl_list l)"
  by (simp add: sl_names_def)

lemma SampleListFree_live: "sl_wf l \<Longrightarrow> live (SampleListFree (Some l) m) = live m - sl_blocks l"
proof -
  have "list_all named ss \<Longrightarrow> live (fold (\<lambda>s m. snd (SampleFree s m)) ss m)
      = live m - sum_list (map (sample_blocks \<circ> the) ss)" for ss m
    by (induction ss arbitrary: m) (auto simp: SampleFree_live)
  then show "sl_wf l \<Longrightarrow> ?thesis"
    by (simp add: SampleListFree_def sl_wf_def sl_blocks_def sl_list_def Let_def)
qed

subsection \<open>Import\<close>

definition import_name :: "byte list list \<Rightarrow> byte list \<Rightarrow> byte list" where
  "import_name names b = (let k = count_list names b in if k = 0 then b else numbered b k)"

lemma rename_step:
  assumes "(ok, s', m') = (if 0 < k then let (ok, m) = malloc m in
      if \<not> ok then (False, s, m) else (True, s\<lparr>smp_name := Some n\<rparr>, free1 m) else (True, s, m))"
    and "smp_name s \<noteq> None"
  shows "live m' = live m" "sample_blocks s' = sample_blocks s" "smp_name s' \<noteq> None" "smp_id s' = smp_id s"
    "ok \<Longrightarrow> smp_name s' = (if 0 < k then Some n else smp_name s)" "nofail m \<Longrightarrow> ok \<and> nofail m'"
  using assms by (auto simp: sample_blocks_def malloc_nofail dest: malloc_live split: if_splits prod.splits)

text \<open>What is left to do once the file is loaded: a name that is free, and a slot.\<close>

lemma import_loaded:
  assumes wf: "sl_wf l" and n: "SampleNew m = (Some s0, m1)" "path = Some pth"
    and i: "SampleInitFromFile ma (Some (s0\<lparr>smp_id := of_nat (length (sl_samples l))\<rparr>)) path m1 = (ResultAudioOk, Some s1, m2)"
      "smp_name s1 = Some b"
  obtains rok s2 m3 aok m4 where "live m3 = live m2" "live m4 = (if aok \<and> \<not> sl_alloc l then live m3 + 1 else live m3)"
    "sample_blocks s2 = sample_blocks s1" "smp_name s2 \<noteq> None" "smp_id s2 = smp_id s1" "nofail m2 \<Longrightarrow> rok \<and> aok"
    "rok \<Longrightarrow> sample_name s2 = import_name (sl_names l) b"
    "SampleListImportByFile ma (Some l) path m = Some
      (if \<not> rok then (audio_err ''failed to allocate sample name'', Some l, snd (SampleFree (Some s2) m3))
       else if \<not> aok then (audio_err ''failed to resize sample list'', Some l, snd (SampleFree (Some s2) m4))
       else (ResultAudioOk, Some \<lparr>sl_samples = sl_samples l @ [Some s2], sl_alloc = True\<rparr>, m4))"
proof -
  let ?k = "count_list (sl_names l) b"
  have c: "count_name b (sl_samples l) = Some ?k"
    using count_name_eq [OF sl_wf_named [OF wf]] by (simp add: sl_names_eq)
  define X where "X = (if 0 < ?k then let (ok, m) = malloc m2 in
      if \<not> ok then (False, s1, m) else (True, s1\<lparr>smp_name := Some (numbered b ?k)\<rparr>, free1 m) else (True, s1, m2))"
  obtain rok s2 m3 where "X = (rok, s2, m3)" by (cases X) auto
  note rn = this [symmetric, unfolded X_def]
  have "smp_name s1 \<noteq> None" using i by simp
  note R = rename_step [OF rn this]
  obtain aok m4 where a: "realloc (if sl_alloc l then Some () else None) m3 = (aok, m4)" by fastforce
  show thesis
  proof (rule that [of m3 m4 aok s2 rok])
    show "rok \<Longrightarrow> sample_name s2 = import_name (sl_names l) b"
      using R(5) i by (simp add: sample_name_def import_name_def Let_def)
    show "nofail m2 \<Longrightarrow> rok \<and> aok" using R(6) a by (auto simp: realloc_nofail)
    show "SampleListImportByFile ma (Some l) path m = Some
      (if \<not> rok then (audio_err ''failed to allocate sample name'', Some l, snd (SampleFree (Some s2) m3))
       else if \<not> aok then (audio_err ''failed to resize sample list'', Some l, snd (SampleFree (Some s2) m4))
       else (ResultAudioOk, Some \<lparr>sl_samples = sl_samples l @ [Some s2], sl_alloc = True\<rparr>, m4))"
      using n i c rn [symmetric] a
      by (simp add: SampleListImportByFile_def ResultAudioIsOk_def ResultAudioOk_def)
  qed (use R realloc_live [OF a] in auto)
qed

lemma slot_appended:
  fixes l s defines "l' \<equiv> \<lparr>sl_samples = sl_samples l @ [Some s], sl_alloc = True\<rparr>"
  assumes "sl_wf l" "smp_name s \<noteq> None"
  shows "sl_wf l'" "sl_list l' = sl_list l @ [s]"
    "sl_blocks l' = sl_blocks l + sample_blocks s + of_bool (\<not> sl_alloc l)"
  using assms by (auto simp: sl_wf_def sl_list_def sl_blocks_def)

text \<open>What an import may do, whatever the allocator, the file system and the audio library answer.\<close>

lemma SampleListImportByFile_cases:
  assumes wf: "sl_wf l"
  obtains (ok) p s l' m' where "SampleListImportByFile ma (Some l) path m = Some (ResultAudioOk, Some l', m')"
      "path = Some p" "sl_wf l'" "sl_list l' = sl_list l @ [s]" "smp_id s = of_nat (length (sl_list l))"
      "sample_name s = import_name (sl_names l) (base_name p)"
      "live m' - sl_blocks l' = live m - sl_blocks l"
  | (fail) r m' where "SampleListImportByFile ma (Some l) path m = Some (r, Some l, m')"
      "\<not> ra_success r" "live m' = live m + ra_blocks r" "\<not> (nofail m \<and> loadable ma [] path)"
proof (cases path)
  case None
  then show thesis using fail [of "audio_err ''invalid argument''" m] by (simp add: SampleListImportByFile_def loadable_def)
next
  case (Some pth)
  obtain sp m1 where n: "SampleNew m = (sp, m1)" by fastforce
  from n show thesis
  proof (cases rule: SampleNew_cases)
    case fail
    then show thesis using n Some that(2) by (auto simp: SampleListImportByFile_def)
  next
    case (new s0)
    let ?s0 = "s0\<lparr>smp_id := of_nat (length (sl_samples l))\<rparr>"
    obtain r sp1 m2 where i: "SampleInitFromFile ma (Some ?s0) path m1 = (r, sp1, m2)" by (metis prod_cases3)
    have pre: "smp_buf ?s0 = None" "smp_name ?s0 \<noteq> None" and b0: "sample_blocks ?s0 = 2"
      using new by (simp_all add: sample_blocks_def)
    from i pre show thesis
    proof (cases rule: SampleInitFromFile_cases)
      case (fail s1)
      have "SampleListImportByFile ma (Some l) path m = Some (r, Some l, snd (SampleFree sp1 m2))"
        using n new i fail Some by (simp add: SampleListImportByFile_def ResultAudioIsOk_def)
      then show thesis using fail new b0 SampleFree_live [of s1 m2] by (intro that(2)) auto
    next
      case (ok s1 p)
      have i': "SampleInitFromFile ma (Some ?s0) path m1 = (ResultAudioOk, Some s1, m2)" "smp_name s1 = Some (base_name p)"
        using i ok by simp_all
      have b1: "sample_blocks s1 = 2" using ok by (simp add: sample_blocks_def)
      from wf n [unfolded new(1)] Some i' show thesis
      proof (rule import_loaded)
        fix rok s2 m3 aok m4
        assume R: "live m3 = live m2" "live m4 = (if aok \<and> \<not> sl_alloc l then live m3 + 1 else live m3)"
            "sample_blocks s2 = sample_blocks s1" "smp_name s2 \<noteq> None" "smp_id s2 = smp_id s1" "nofail m2 \<Longrightarrow> rok \<and> aok"
            "rok \<Longrightarrow> sample_name s2 = import_name (sl_names l) (base_name p)"
          and eq: "SampleListImportByFile ma (Some l) path m = Some
            (if \<not> rok then (audio_err ''failed to allocate sample name'', Some l, snd (SampleFree (Some s2) m3))
             else if \<not> aok then (audio_err ''failed to resize sample list'', Some l, snd (SampleFree (Some s2) m4))
             else (ResultAudioOk, Some \<lparr>sl_samples = sl_samples l @ [Some s2], sl_alloc = True\<rparr>, m4))"
        note F = SampleFree_live [of s2]
        consider "\<not> rok" | "rok" "\<not> aok" | "rok" "aok" by blast
        then show thesis
        proof cases
          case 1
          with eq R b1 ok(10,11) new(2,6) F [of m3] show thesis
            by (intro that(2) [of "audio_err ''failed to allocate sample name''" "snd (SampleFree (Some s2) m3)"]) auto
        next
          case 2
          with eq R b1 ok(10,11) new(2,6) F [of m4] show thesis
            by (intro that(2) [of "audio_err ''failed to resize sample list''" "snd (SampleFree (Some s2) m4)"]) auto
        next
          case 3
          show thesis
            by (rule that(1) [of "\<lparr>sl_samples = sl_samples l @ [Some s2], sl_alloc = True\<rparr>" m4 p s2])
              (use 3 eq R ok b1 new(2) slot_appended [OF wf R(4)] in \<open>auto simp: sl_list_def\<close>)
        qed
      qed
    qed
  qed
qed

subsection \<open>Delete and lookup\<close>

lemma slot_blocks:
  assumes "i < length ss" "ss ! i = Some s"
  shows "sum_list (map sample_blocks (map the ss)) =
    sum_list (map sample_blocks (map the (take i ss @ drop (Suc i) ss))) + sample_blocks s"
proof -
  have "ss = take i ss @ Some s # drop (Suc i) ss"
    using id_take_nth_drop [OF assms(1)] assms(2) by simp
  then have "map the ss = map the (take i ss @ Some s # drop (Suc i) ss)" by (rule arg_cong)
  then show ?thesis by simp
qed

lemma SampleListDeleteSampleByName_cases:
  assumes wf: "sl_wf l"
  obtains (absent) "nm \<notin> set (sl_names l)"
      "SampleListDeleteSampleByName (Some l) (Some nm) m = Some (audio_err ''sample not found'', Some l, m)"
  | (found) i l' m' where "i < length (sl_list l)" "sl_names l ! i = nm" "nm \<notin> set (take i (sl_names l))"
      "SampleListDeleteSampleByName (Some l) (Some nm) m = Some (ResultAudioOk, Some l', m')"
      "sl_wf l'" "sl_list l' = take i (sl_list l) @ drop (Suc i) (sl_list l)"
      "live m' - sl_blocks l' = live m - sl_blocks l"
proof -
  let ?ss = "sl_samples l"
  have f: "find_name nm ?ss = Some (find_index (\<lambda>x. x = nm) (sl_names l))"
    using find_name_eq [OF sl_wf_named [OF wf]] by (simp add: sl_names_eq)
  have len: "length (sl_names l) = length ?ss" by (simp add: sl_names_def sl_list_def)
  show thesis
  proof (cases "find_index (\<lambda>x. x = nm) (sl_names l)")
    case None
    then have "nm \<notin> set (sl_names l)" by (auto simp: find_index_None)
    with None show thesis using f by (intro absent) (simp_all add: SampleListDeleteSampleByName_def)
  next
    case (Some i)
    then have i: "i < length ?ss" "sl_names l ! i = nm" "\<forall>j < i. sl_names l ! j \<noteq> nm"
      by (simp_all add: find_index_Some sl_list_def)
    obtain s where s: "?ss ! i = Some s" "smp_name s \<noteq> None"
      using wf i(1) by (auto simp: sl_wf_def list_all_length)
    let ?sl = "shift_left i (?ss[i := None])"
    let ?l = "l\<lparr>sl_samples := take i ?ss @ drop (Suc i) ?ss\<rparr>"
    have cut: "take (length ?sl - 1) (?sl[length ?sl - 1 := None]) = take i ?ss @ drop (Suc i) ?ss"
      using take_shift_left [of i "?ss[i := None]"] i(1) by simp
    have sum: "sum_list (map sample_blocks (sl_list l)) = sum_list (map sample_blocks (sl_list ?l)) + sample_blocks s"
      using slot_blocks [OF i(1) s(1)] by (simp add: sl_list_def)
    show thesis
    proof (rule found)
      show "i < length (sl_list l)" "sl_names l ! i = nm" using i by (simp_all add: sl_list_def)
      show "nm \<notin> set (take i (sl_names l))"
        using i(3) len i(1) by (auto simp: in_set_conv_nth)
      show "SampleListDeleteSampleByName (Some l) (Some nm) m
          = Some (ResultAudioOk, Some ?l, snd (SampleFree (Some s) m))"
        using f Some s cut by (simp add: SampleListDeleteSampleByName_def Let_def)
      show "sl_wf ?l" using wf by (auto simp: sl_wf_def)
      show "sl_list ?l = take i (sl_list l) @ drop (Suc i) (sl_list l)"
        by (simp add: sl_list_def take_map drop_map)
      show "live (snd (SampleFree (Some s) m)) - sl_blocks ?l = live m - sl_blocks l"
        using sum by (simp add: SampleFree_live sl_blocks_def)
    qed
  qed
qed

lemma SampleListGetSampleByName_eq:
  "sl_wf l \<Longrightarrow> SampleListGetSampleByName (Some l) (Some nm) = Some (find_index (\<lambda>x. x = nm) (sl_names l))"
  using find_name_eq [OF sl_wf_named] by (simp add: SampleListGetSampleByName_def sl_names_eq)

text \<open>
  What a client of a store of named things relies on when it deletes by name: whether the call
  succeeds, and that exactly the first thing of that name goes.
\<close>

locale named_store =
  fixes names :: "'s \<Rightarrow> 'n list" and valid :: "'s \<Rightarrow> bool" and del :: "'n \<Rightarrow> 's \<Rightarrow> bool \<times> 's"
  assumes del_ok: "valid s \<Longrightarrow> fst (del n s) \<longleftrightarrow> n \<in> set (names s)"
    and del_valid: "valid s \<Longrightarrow> valid (snd (del n s))"
    and del_names: "valid s \<Longrightarrow> names (snd (del n s)) = remove1 n (names s)"
begin

lemma del_twice_swap:
  "valid s \<Longrightarrow> names (snd (del a (snd (del b s)))) = names (snd (del b (snd (del a s))))"
  by (simp add: del_names del_valid remove1_commute)

lemma del_all:
  assumes "valid s" "k = count_list (names s) n"
  shows "valid (((\<lambda>s. snd (del n s)) ^^ k) s)
       \<and> names (((\<lambda>s. snd (del n s)) ^^ k) s) = filter (\<lambda>x. x \<noteq> n) (names s)
       \<and> \<not> fst (del n (((\<lambda>s. snd (del n s)) ^^ k) s))"
  using assms
proof (induction k arbitrary: s)
  case 0
  then have "n \<notin> set (names s)" by (simp add: count_list_0_iff)
  then have "filter (\<lambda>x. x \<noteq> n) (names s) = names s" by (auto simp: filter_id_conv)
  with 0 \<open>n \<notin> set (names s)\<close> show ?case by (simp add: del_ok)
next
  case (Suc k)
  have in_s: "n \<in> set (names s)" using Suc.prems by (metis Zero_not_Suc count_list_0_iff)
  have "count_list (remove1 n xs) n = count_list xs n - 1" "n \<in> set xs \<Longrightarrow> filter (\<lambda>x. x \<noteq> n) (remove1 n xs) = filter (\<lambda>x. x \<noteq> n) xs" for xs
    by (induction xs) auto
  then have "k = count_list (names (snd (del n s))) n"
      "filter (\<lambda>x. x \<noteq> n) (names (snd (del n s))) = filter (\<lambda>x. x \<noteq> n) (names s)"
    using Suc.prems in_s by (simp_all add: del_names)
  with Suc.IH [of "snd (del n s)"] Suc.prems(1) show ?case
    by (simp add: del_valid funpow_Suc_right del: funpow.simps(2))
qed

end

definition del_sample :: "byte list \<Rightarrow> SampleList \<times> mem \<Rightarrow> bool \<times> SampleList \<times> mem" where
  "del_sample nm st =
     (case SampleListDeleteSampleByName (Some (fst st)) (Some nm) (snd st) of
        Some (r, Some l, m) \<Rightarrow> (ra_success r, l, m)
      | _ \<Rightarrow> (False, st))"

lemma remove1_at:
  assumes "i < length xs" "xs ! i = x" "x \<notin> set (take i xs)"
  shows "remove1 x xs = take i xs @ drop (Suc i) xs"
proof -
  have "xs = take i xs @ x # drop (Suc i) xs"
    using id_take_nth_drop [OF assms(1)] assms(2) by simp
  then have "remove1 x xs = remove1 x (take i xs @ x # drop (Suc i) xs)" by (rule arg_cong)
  with assms(3) show ?thesis by (simp add: remove1_append)
qed

lemma del_sample_laws:
  assumes "sl_wf l"
  shows "fst (del_sample nm (l, m)) \<longleftrightarrow> nm \<in> set (sl_names l)"
    and "sl_wf (fst (snd (del_sample nm (l, m))))"
    and "sl_names (fst (snd (del_sample nm (l, m)))) = remove1 nm (sl_names l)"
    and "live (snd (snd (del_sample nm (l, m)))) - sl_blocks (fst (snd (del_sample nm (l, m)))) = live m - sl_blocks l"
proof -
  have "(fst (del_sample nm (l, m)) \<longleftrightarrow> nm \<in> set (sl_names l)) \<and> sl_wf (fst (snd (del_sample nm (l, m))))
    \<and> sl_names (fst (snd (del_sample nm (l, m)))) = remove1 nm (sl_names l)
    \<and> live (snd (snd (del_sample nm (l, m)))) - sl_blocks (fst (snd (del_sample nm (l, m)))) = live m - sl_blocks l"
    using assms
  proof (cases rule: SampleListDeleteSampleByName_cases [of l nm m])
    case absent
    with assms show ?thesis by (simp add: del_sample_def remove1_idem)
  next
    case (found i l' m')
    have "sl_names l' = remove1 nm (sl_names l)"
      using remove1_at [of i "sl_names l" nm] found by (simp add: sl_names_def take_map drop_map)
    moreover have "nm \<in> set (sl_names l)"
      using found(1,2) by (metis length_map nth_mem sl_names_def)
    ultimately show ?thesis using found by (simp add: del_sample_def ResultAudioOk_def)
  qed
  then show "fst (del_sample nm (l, m)) \<longleftrightarrow> nm \<in> set (sl_names l)"
    "sl_wf (fst (snd (del_sample nm (l, m))))"
    "sl_names (fst (snd (del_sample nm (l, m)))) = remove1 nm (sl_names l)"
    "live (snd (snd (del_sample nm (l, m)))) - sl_blocks (fst (snd (del_sample nm (l, m)))) = live m - sl_blocks l"
    by simp_all
qed

interpretation sample_store: named_store "\<lambda>st. sl_names (fst st)" "\<lambda>st. sl_wf (fst st)" del_sample
  by unfold_locales (use del_sample_laws in \<open>auto simp: split_paired_all\<close>)

text \<open>A sample that was never played, for concrete runs.\<close>

definition blank_sample :: "byte list \<Rightarrow> Sample" where
  "blank_sample nm =
     \<lparr>smp_id = 0, smp_handle = [], smp_decoder = [], smp_buf = None, smp_buf_size = 0,
      smp_volume = float_1, smp_pitch = float_1, smp_duration = 0, smp_sample_rate = 0,
      smp_is_playing = False, smp_name = Some nm\<rparr>"

subsection \<open>Properties\<close>

text \<open>
  C28: Importing a file, whatever the allocator, the file system and the audio library answer, either
  appends one sample whose id is the old length and whose name is the file's base name, with
  \<^verbatim>\<open> #k\<close> appended when that name occurs \<open>k\<close> times already, or fails and leaves the list untouched; in
  both cases no block is lost besides the error message the result owns. With memory and a file the
  audio library takes, it succeeds.
\<close>

theorem sample_import_outcome:
  assumes "sl_wf l"
  shows "\<exists>r l' m'. SampleListImportByFile ma (Some l) (Some p) m = Some (r, Some l', m') \<and> sl_wf l'
    \<and> live m' - sl_blocks l' = live m - sl_blocks l + ra_blocks r
    \<and> (nofail m \<and> loadable ma [] (Some p) \<longrightarrow> ra_success r)
    \<and> (if ra_success r
       then sl_names l' = sl_names l @ [import_name (sl_names l) (base_name p)]
            \<and> map smp_id (sl_list l') = map smp_id (sl_list l) @ [of_nat (length (sl_list l))]
       else l' = l)"
  using assms
proof (cases rule: SampleListImportByFile_cases [of l ma "Some p" m])
  case (ok p' s l' m')
  then show ?thesis by (auto simp: sl_names_def ResultAudioOk_def ra_blocks_def)
next
  case (fail r m')
  with assms show ?thesis by auto
qed

theorem sample_import_outcome_witness:
  "\<exists>r l' m'. SampleListImportByFile \<lparr>ma_ok = (\<lambda>_ _. True), ma_frames = (\<lambda>_. 96000), ma_cursor = (\<lambda>_. 0),
       ma_is_playing = (\<lambda>_. False), ma_engine_rate = 48000, os_readable = (\<lambda>_. True)\<rparr>
       (Some \<lparr>sl_samples = [], sl_alloc = False\<rparr>) (Some (cstr ''/tmp/kick.wav''))
       \<lparr>outcomes = [], live = 1\<rparr> = Some (r, Some l', m')
     \<and> live m' - sl_blocks l' = ra_blocks r \<and> sl_wf l' \<and> ra_success r"
  using sample_import_outcome [of "\<lparr>sl_samples = [], sl_alloc = False\<rparr>" _ "cstr ''/tmp/kick.wav''"
      "\<lparr>outcomes = [], live = 1\<rparr>"]
  by (fastforce simp: sl_wf_def sl_blocks_def sl_list_def loadable_def nofail_def cstr_def)

text \<open>
  C30: Deleting by name removes the first sample of that name and keeps the others in order, with every
  block of the removed sample released; without such a sample it reports an error and changes
  nothing. Deleting a name as often as it occurs leaves exactly the samples of other names, and
  the next attempt fails.
\<close>

theorem sample_delete_exhausts:
  assumes "sl_wf l" and "k = count_list (sl_names l) nm"
  shows "sl_names (fst (((\<lambda>st. snd (del_sample nm st)) ^^ k) (l, m))) = filter (\<lambda>x. x \<noteq> nm) (sl_names l)
    \<and> \<not> fst (del_sample nm (((\<lambda>st. snd (del_sample nm st)) ^^ k) (l, m)))
    \<and> live (snd (((\<lambda>st. snd (del_sample nm st)) ^^ k) (l, m)))
        - sl_blocks (fst (((\<lambda>st. snd (del_sample nm st)) ^^ k) (l, m))) = live m - sl_blocks l"
proof -
  have inv: "sl_wf (fst st') \<and> live (snd st') - sl_blocks (fst st') = live m - sl_blocks l"
    if "st' = ((\<lambda>st. snd (del_sample nm st)) ^^ j) (l, m)" for j st'
    using that
  proof (induction j arbitrary: st')
    case (Suc j)
    obtain l1 m1 where 1: "((\<lambda>st. snd (del_sample nm st)) ^^ j) (l, m) = (l1, m1)" by fastforce
    then have "sl_wf l1" "live m1 - sl_blocks l1 = live m - sl_blocks l"
      using Suc.IH [OF refl] by simp_all
    with Suc.prems 1 show ?case using del_sample_laws [of l1 nm m1] by simp
  qed (use assms(1) in simp)
  show ?thesis
    using sample_store.del_all [of "(l, m)" k nm] assms inv [OF refl, of k] by simp
qed

theorem sample_delete_exhausts_witness:
  "sl_names (fst (((\<lambda>st. snd (del_sample [1] st)) ^^ 1) (\<lparr>sl_samples = [Some (blank_sample [1]), Some (blank_sample [2])],
      sl_alloc = True\<rparr>, \<lparr>outcomes = [], live = 6\<rparr>))) = [[2]]"
  using sample_delete_exhausts [of "\<lparr>sl_samples = [Some (blank_sample [1]), Some (blank_sample [2])],
      sl_alloc = True\<rparr>" 1 "[1]" "\<lparr>outcomes = [], live = 6\<rparr>"]
  by (simp add: sl_wf_def sl_names_def sl_list_def sample_name_def blank_sample_def)

text \<open>
  The suffix that should keep names apart does not: once a name \<open>b\<close> is in the list together with
  \<^verbatim>\<open>b #1\<close> (after two imports of the same file), every further successful import of that file
  is again called \<^verbatim>\<open>b #1\<close>, and the lookup by that name finds the older sample.
\<close>

theorem sample_third_import_clashes:
  assumes "sl_wf l" "count_list (sl_names l) (base_name p) = 1" "numbered (base_name p) 1 \<in> set (sl_names l)"
    and "SampleListImportByFile ma (Some l) (Some p) m = Some (r, Some l', m')" "ra_success r"
  shows "last (sl_names l') = numbered (base_name p) 1
    \<and> (\<exists>i < length (sl_list l). SampleListGetSampleByName (Some l') (Some (numbered (base_name p) 1)) = Some (Some i))"
  using assms(1)
proof (cases rule: SampleListImportByFile_cases [of l ma "Some p" m])
  case (ok p' s l1 m1)
  then have l: "sl_wf l'" "sl_names l' = sl_names l @ [numbered (base_name p) 1]"
    using assms(2,4) by (auto simp: sl_names_def import_name_def)
  obtain i where i: "find_index (\<lambda>x. x = numbered (base_name p) 1) (sl_names l) = Some i"
    using assms(3) find_index_None [of "\<lambda>x. x = numbered (base_name p) 1" "sl_names l"] by fastforce
  then have "find_index (\<lambda>x. x = numbered (base_name p) 1) (sl_names l') = Some i" "i < length (sl_list l)"
    by (auto simp: find_index_Some l(2) nth_append length_sl_names)
  with l show ?thesis by (auto simp: SampleListGetSampleByName_eq)
qed (use assms in auto)

theorem sample_third_import_clashes_witness:
  "last (sl_names (the (fst (snd (the (SampleListImportByFile
       \<lparr>ma_ok = (\<lambda>_ _. True), ma_frames = (\<lambda>_. 96000), ma_cursor = (\<lambda>_. 0),
       ma_is_playing = (\<lambda>_. False), ma_engine_rate = 48000, os_readable = (\<lambda>_. True)\<rparr>
       (Some \<lparr>sl_samples = [Some (blank_sample (cstr ''a'')), Some (blank_sample (cstr ''a #1''))], sl_alloc = True\<rparr>)
       (Some (cstr ''a'')) \<lparr>outcomes = [], live = 6\<rparr>)))))) = cstr ''a #1''"
proof -
  let ?ma = "\<lparr>ma_ok = (\<lambda>_ _. True), ma_frames = (\<lambda>_. 96000), ma_cursor = (\<lambda>_. 0),
       ma_is_playing = (\<lambda>_. False), ma_engine_rate = 48000, os_readable = (\<lambda>_. True)\<rparr>"
  let ?l = "\<lparr>sl_samples = [Some (blank_sample (cstr ''a'')), Some (blank_sample (cstr ''a #1''))], sl_alloc = True\<rparr>"
  have c: "base_name (cstr ''a'') = cstr ''a''" "numbered (cstr ''a'') 1 = cstr ''a #1''"
    by (simp_all add: base_name_def numbered_def cstr_def dec_small)
  have d: "cstr ''a'' \<noteq> cstr ''a #1''" by (simp add: cstr_def)
  have n: "sl_names ?l = [cstr ''a'', cstr ''a #1'']" "sl_wf ?l"
    by (simp_all add: sl_names_def sl_list_def sample_name_def blank_sample_def sl_wf_def)
  obtain r l' m' where "SampleListImportByFile ?ma (Some ?l) (Some (cstr ''a'')) \<lparr>outcomes = [], live = 6\<rparr>
      = Some (r, Some l', m')" "ra_success r"
    using n(2)
  proof (cases rule: SampleListImportByFile_cases [of ?l ?ma "Some (cstr ''a'')" "\<lparr>outcomes = [], live = 6\<rparr>"])
    case (fail r m')
    then show thesis by (simp add: loadable_def nofail_def cstr_def)
  qed (simp add: that ResultAudioOk_def)
  with sample_third_import_clashes [OF n(2) _ _ this(1) this(2)] show ?thesis
    using c(2) d by (auto simp: n c(1))
qed



end
