(* ===== verification/Haze_Channel.thy ===== *)
theory Haze_Channel
  imports Haze_Sample
begin

text \<open>
  \<^verbatim>\<open>source/audio/Channel.c\<close>, \<^verbatim>\<open>ChannelList.c\<close>, \<^verbatim>\<open>AudioEngine.c\<close> and \<^verbatim>\<open>Playlist.c\<close>: mixer channels, the
  engine they belong to and the (still empty) playlist. An engine pointer is modelled by whether it
  is \<^verbatim>\<open>NULL\<close>.
\<close>

record Channel =
  ch_group :: handle
  ch_Volume :: u32
  ch_Pan :: u32
  ch_Muted :: bool
  ch_Solo :: bool
  ch_name :: "byte list option"

text \<open>The \<^verbatim>\<open>strdup\<close> of the default name is not checked.\<close>

definition ChannelNew :: "miniaudio \<Rightarrow> mem \<Rightarrow> Channel option \<times> mem" where
  "ChannelNew ma m =
     (let (ok, m) = malloc m in
      if \<not> ok then (None, m)
      else if \<not> ma_ok ma [] Group_init then (None, free1 m)
      else
        let (nm, m) = strdup (cstr ''Unnamed Channel'') m
        in (Some \<lparr>ch_group = [Group_init], ch_Volume = float_1, ch_Pan = 0, ch_Muted = False,
                 ch_Solo = False, ch_name = nm\<rparr>, m))"

definition ChannelRename ::
  "Channel option \<Rightarrow> byte list option \<Rightarrow> mem \<Rightarrow> ResultAudio \<times> Channel option \<times> mem" where
  "ChannelRename cp newName m =
     (case (cp, newName) of
        (Some c, Some nm) \<Rightarrow>
          (let (copy, m) = strdup nm m in
           if copy = None then (audio_err ''Erro allocating name'', cp, m)
           else (ResultAudioOk, Some (c\<lparr>ch_name := copy\<rparr>), free_opt (ch_name c) m))
      | _ \<Rightarrow> (audio_err ''invalid argument'', cp, m))"

definition ChannelFree :: "Channel option \<Rightarrow> mem \<Rightarrow> mem" where
  "ChannelFree cp m = (case cp of None \<Rightarrow> m | Some c \<Rightarrow> free1 (free_opt (ch_name c) m))"

record ChannelList =
  cl_channels :: "Channel option list"

definition ChannelListNew :: "miniaudio \<Rightarrow> bool \<Rightarrow> mem \<Rightarrow> ChannelList option \<times> mem" where
  "ChannelListNew ma eng m =
     (if \<not> eng then (None, m)
      else
        let (ok, m) = malloc m in
        if \<not> ok then (None, m)
        else
          let (ok, m) = malloc m in
          if \<not> ok then (None, free1 m)
          else
            let (ch, m) = ChannelNew ma m in
            if ch = None then (None, free1 (free1 m))
            else
              let (_, ch, m) = ChannelRename ch (Some (cstr ''Master'')) m
              in (Some \<lparr>cl_channels = [ch]\<rparr>, m))"

text \<open>\<^verbatim>\<open>snprintf(name, 32, "Channel %zu", index + 1)\<close>, at most 28 characters.\<close>

definition channel_name :: "nat \<Rightarrow> byte list" where
  "channel_name n = cstr ''Channel '' @ dec n"

definition ChannelListAdd ::
  "miniaudio \<Rightarrow> ChannelList option \<Rightarrow> bool \<Rightarrow> mem \<Rightarrow> ResultAudio \<times> ChannelList option \<times> mem" where
  "ChannelListAdd ma lp eng m =
     (case lp of
        None \<Rightarrow> (audio_err ''invalid argument'', lp, m)
      | Some l \<Rightarrow>
          if \<not> eng then (audio_err ''invalid argument'', lp, m)
          else
            let index = length (cl_channels l);
                (ok, m) = realloc (Some ()) m
            in if \<not> ok then (audio_err ''err alloc'', lp, m)
               else
                 let (ch, m) = ChannelNew ma m in
                 if ch = None then (audio_err ''err alloc'', lp, m)
                 else
                   let (r, ch, m) = ChannelRename ch (Some (channel_name (index + 1))) m
                   in if \<not> ResultAudioIsOk r then (ResultAudioErr (ra_msg r), lp, ChannelFree ch m)
                      else (ResultAudioOk, Some (l\<lparr>cl_channels := cl_channels l @ [ch]\<rparr>), m))"

definition ChannelListFree :: "ChannelList option \<Rightarrow> mem \<Rightarrow> mem" where
  "ChannelListFree lp m =
     (case lp of None \<Rightarrow> m | Some l \<Rightarrow> free1 (free1 (fold ChannelFree (cl_channels l) m)))"

definition AudioEngineNew :: "miniaudio \<Rightarrow> mem \<Rightarrow> bool \<times> mem" where
  "AudioEngineNew ma m =
     (let (ok, m) = malloc m in
      if \<not> ok then (False, m)
      else if \<not> ma_ok ma [] Engine_init then (False, free1 m) else (True, m))"

definition AudioEngineFree :: "bool \<Rightarrow> mem \<Rightarrow> mem" where
  "AudioEngineFree eng m = (if eng then free1 m else m)"

text \<open>\<^verbatim>\<open>PlaylistNew\<close> does not check its first allocation: without memory it writes through \<^verbatim>\<open>NULL\<close>.\<close>

record Playlist =
  pl_clips :: bool
  pl_quantity :: nat

definition PlaylistNew :: "mem \<Rightarrow> (Playlist \<times> mem) option" where
  "PlaylistNew m =
     (let (ok, m) = malloc m in
      if \<not> ok then None
      else let (ok, m) = malloc m in Some (\<lparr>pl_clips = ok, pl_quantity = 0\<rparr>, m))"

subsection \<open>Blocks\<close>

definition channel_blocks :: "Channel option \<Rightarrow> int" where
  "channel_blocks cp = (case cp of None \<Rightarrow> 0 | Some c \<Rightarrow> 1 + of_bool (ch_name c \<noteq> None))"

definition cl_blocks :: "ChannelList \<Rightarrow> int" where
  "cl_blocks l = 2 + sum_list (map channel_blocks (cl_channels l))"

lemma ChannelFree_live: "live (ChannelFree cp m) = live m - channel_blocks cp"
  by (cases cp) (simp_all add: ChannelFree_def channel_blocks_def free_opt_live)

lemma ChannelListFree_live: "live (ChannelListFree (Some l) m) = live m - cl_blocks l"
proof -
  have "live (fold ChannelFree cs m) = live m - sum_list (map channel_blocks cs)" for cs m
    by (induction cs arbitrary: m) (simp_all add: ChannelFree_live)
  then show ?thesis by (simp add: ChannelListFree_def cl_blocks_def)
qed

lemma ChannelNew_cases:
  assumes "ChannelNew ma m = (cp, m')"
  shows "live m' = live m + channel_blocks cp"
    and "nofail m \<Longrightarrow> nofail m' \<and> (cp \<noteq> None \<longleftrightarrow> ma_ok ma [] Group_init)"
  using assms
  by (auto simp: ChannelNew_def channel_blocks_def malloc_nofail strdup_nofail
      dest!: malloc_live strdup_live split: if_splits prod.splits)

lemma ChannelRename_cases:
  assumes "ChannelRename (Some c) (Some nm) m = (r, cp, m')"
  obtains (ok) "r = ResultAudioOk" "cp = Some (c\<lparr>ch_name := Some nm\<rparr>)"
      "live m' - channel_blocks cp = live m - channel_blocks (Some c)" "nofail m \<Longrightarrow> nofail m'"
  | (fail) "\<not> ra_success r" "cp = Some c" "live m' = live m" "\<not> nofail m"
proof -
  obtain cpy m1 where s: "strdup nm m = (cpy, m1)" by fastforce
  show thesis
  proof (cases cpy)
    case None
    have "\<not> nofail m" using s None by (auto simp: strdup_nofail)
    then show thesis using assms s None strdup_live [OF s] by (intro fail) (auto simp: ChannelRename_def)
  next
    case (Some x)
    have "x = nm" using strdup_result [OF s] Some by simp
    then show thesis
      using assms s Some strdup_live [OF s] strdup_nofail [of m nm]
      by (intro ok) (auto simp: ChannelRename_def channel_blocks_def free_opt_live)
  qed
qed

lemma ChannelListNew_cases:
  assumes "ChannelListNew ma eng m = (lp, m')"
  shows "live m' = live m + (case lp of None \<Rightarrow> 0 | Some l \<Rightarrow> cl_blocks l)"
    and "nofail m \<Longrightarrow> nofail m' \<and> (lp \<noteq> None \<longleftrightarrow> eng \<and> ma_ok ma [] Group_init)
           \<and> (\<forall>l. lp = Some l \<longrightarrow> map (\<lambda>c. ch_name (the c)) (cl_channels l) = [Some (cstr ''Master'')])"
proof -
  obtain ok1 m1 where 1: "malloc m = (ok1, m1)" by fastforce
  obtain ok2 m2 where 2: "malloc m1 = (ok2, m2)" by fastforce
  obtain ch m3 where 3: "ChannelNew ma m2 = (ch, m3)" by fastforce
  note L = malloc_live [OF 1] malloc_live [OF 2] ChannelNew_cases [OF 3]
    malloc_nofailD [OF 1] malloc_nofailD [OF 2]
  have "live m' = live m + (case lp of None \<Rightarrow> 0 | Some l \<Rightarrow> cl_blocks l)
    \<and> (nofail m \<longrightarrow> nofail m' \<and> (lp \<noteq> None \<longleftrightarrow> eng \<and> ma_ok ma [] Group_init)
           \<and> (\<forall>l. lp = Some l \<longrightarrow> map (\<lambda>c. ch_name (the c)) (cl_channels l) = [Some (cstr ''Master'')]))"
  proof (cases "eng \<and> ok1 \<and> ok2 \<and> ch \<noteq> None")
    case True
    then obtain c where c: "ch = Some c" by auto
    obtain r cp m4 where 4: "ChannelRename (Some c) (Some (cstr ''Master'')) m3 = (r, cp, m4)"
      by (metis prod_cases3)
    have res: "lp = Some \<lparr>cl_channels = [cp]\<rparr>" "m' = m4"
      using assms True 1 2 3 4 c by (auto simp: ChannelListNew_def)
    from 4 show ?thesis
      by (cases rule: ChannelRename_cases) (use L True c res in \<open>auto simp: cl_blocks_def channel_blocks_def\<close>)
  next
    case False
    then show ?thesis
      using assms 1 2 3 L by (auto simp: ChannelListNew_def channel_blocks_def split: if_splits)
  qed
  then show "live m' = live m + (case lp of None \<Rightarrow> 0 | Some l \<Rightarrow> cl_blocks l)"
    "nofail m \<Longrightarrow> nofail m' \<and> (lp \<noteq> None \<longleftrightarrow> eng \<and> ma_ok ma [] Group_init)
           \<and> (\<forall>l. lp = Some l \<longrightarrow> map (\<lambda>c. ch_name (the c)) (cl_channels l) = [Some (cstr ''Master'')])"
    by simp_all
qed

subsection \<open>Properties\<close>

text \<open>
  \<^verbatim>\<open>ChannelListAdd\<close>, under any allocator and any answer of the audio library, either appends one
  channel named \<^verbatim>\<open>Channel n\<close> for its one-based position, or fails with the channels unchanged; no
  block is lost either way.
\<close>

theorem channel_add_outcome:
  "\<exists>r l' m'. ChannelListAdd ma (Some l) eng m = (r, Some l', m')
    \<and> live m' - cl_blocks l' = live m - cl_blocks l
    \<and> (nofail m \<and> eng \<and> ma_ok ma [] Group_init \<longleftrightarrow> nofail m \<and> ra_success r)
    \<and> (if ra_success r
       then \<exists>c. cl_channels l' = cl_channels l @ [Some c]
              \<and> ch_name c = Some (channel_name (length (cl_channels l) + 1))
       else l' = l)"
proof -
  obtain ok m1 where 1: "realloc (Some ()) m = (ok, m1)" by fastforce
  obtain ch m2 where 2: "ChannelNew ma m1 = (ch, m2)" by fastforce
  note L = realloc_live [OF 1] ChannelNew_cases [OF 2]
  have nf: "nofail m \<Longrightarrow> ok \<and> nofail m1" using 1 by (simp add: realloc_nofail)
  show ?thesis
  proof (cases "eng \<and> ok \<and> ch \<noteq> None")
    case True
    then obtain c where c: "ch = Some c" by auto
    obtain r cp m3 where 3: "ChannelRename (Some c) (Some (channel_name (length (cl_channels l) + 1))) m2 = (r, cp, m3)"
      by (metis prod_cases3)
    from 3 show ?thesis
    proof (cases rule: ChannelRename_cases)
      case ok
      then show ?thesis
        using True 1 2 3 c L nf
        by (auto simp: ChannelListAdd_def ResultAudioIsOk_def ResultAudioOk_def cl_blocks_def)
    next
      case fail
      then show ?thesis
        using True 1 2 3 c L nf
        by (auto simp: ChannelListAdd_def ResultAudioIsOk_def ResultAudioErr_def ChannelFree_live)
    qed
  next
    case False
    then show ?thesis
      using 1 2 L nf by (auto simp: ChannelListAdd_def channel_blocks_def)
  qed
qed

theorem channel_add_outcome_witness:
  "\<exists>r l' m'. ChannelListAdd \<lparr>ma_ok = (\<lambda>_ _. True), ma_frames = (\<lambda>_. 0), ma_cursor = (\<lambda>_. 0),
       ma_is_playing = (\<lambda>_. False), ma_engine_rate = 48000, os_readable = (\<lambda>_. True)\<rparr>
       (Some \<lparr>cl_channels = []\<rparr>) True \<lparr>outcomes = [], live = 2\<rparr> = (r, Some l', m')
     \<and> ra_success r \<and> live m' = cl_blocks l'"
  using channel_add_outcome [of "\<lparr>ma_ok = (\<lambda>_ _. True), ma_frames = (\<lambda>_. 0), ma_cursor = (\<lambda>_. 0),
       ma_is_playing = (\<lambda>_. False), ma_engine_rate = 48000, os_readable = (\<lambda>_. True)\<rparr>"
      "\<lparr>cl_channels = []\<rparr>" True "\<lparr>outcomes = [], live = 2\<rparr>"]
  by (fastforce simp: nofail_def cl_blocks_def)

end
