(* ===== verification/Haze_Session.thy ===== *)
theory Haze_Session
  imports Haze_SampleList Haze_Channel
begin

text \<open>
  \<^verbatim>\<open>source/session/Session.c\<close>, \<^verbatim>\<open>Session.h\<close> and \<^verbatim>\<open>source/api/functions/FnSession.c\<close>. The clock and the
  two \<^verbatim>\<open>rand()\<close> results are arguments. Pointers come with the session they point into, so a function
  that changes what a pointer refers to returns the changed session.
\<close>

type_synonym time_t = u64

record Session =
  ses_name :: "byte list option"
  ses_project_path :: "byte list option"
  ses_created_at :: time_t
  ses_working_time :: time_t
  ses_SampleList :: "SampleList option"
  ses_ChannelList :: "ChannelList option"

definition first_names :: "string list" where
  "first_names = [''goofball'', ''biscuit'', ''wombat'', ''noodle'', ''badger'', ''gizmo'', ''doofus'',
     ''gecko'', ''rascal'', ''walrus'', ''dingo'', ''muppet'', ''turnip'', ''hobbit'', ''chimp'']"

definition second_names :: "string list" where
  "second_names = [''flabby'', ''haughty'', ''clumsy'', ''grumpy'', ''sneaky'', ''goofy'', ''sluggish'',
     ''silly'', ''cheeky'', ''wobbly'', ''cranky'', ''greedy'', ''shabby'', ''lousy'', ''spunky'']"

text \<open>\<open>r1\<close> and \<open>r2\<close> are the two results of \<^verbatim>\<open>rand()\<close>. Printing into a \<^verbatim>\<open>NULL\<close> block is undefined.\<close>

definition session_name_random :: "nat \<Rightarrow> nat \<Rightarrow> mem \<Rightarrow> (byte list \<times> mem) option" where
  "session_name_random r1 r2 m =
     (let (ok, m) = malloc m in
      if \<not> ok then None
      else Some (cstr (first_names ! (r1 mod 15)) @ cstr ''_'' @ cstr (second_names ! (r2 mod 15)), m))"

definition SessionFree :: "Session option \<Rightarrow> mem \<Rightarrow> mem" where
  "SessionFree sp m =
     (case sp of
        None \<Rightarrow> m
      | Some s \<Rightarrow>
          free1 (ChannelListFree (ses_ChannelList s) (SampleListFree (ses_SampleList s)
                   (free_opt (ses_project_path s) (free_opt (ses_name s) m)))))"

text \<open>The steps after the name is there; a failure releases the session again.\<close>

definition SessionNew_lists :: "miniaudio \<Rightarrow> bool \<Rightarrow> Session \<Rightarrow> mem \<Rightarrow> Session option \<times> mem" where
  "SessionNew_lists ma eng s m =
     (let (sl, m) = SampleListNew m;
          s = s\<lparr>ses_SampleList := sl\<rparr>
      in if sl = None then (None, SessionFree (Some s) m)
         else
           let (cl, m) = ChannelListNew ma eng m;
               s = s\<lparr>ses_ChannelList := cl\<rparr>
           in if cl = None then (None, SessionFree (Some s) m) else (Some s, m))"

definition SessionNew ::
  "miniaudio \<Rightarrow> time_t \<Rightarrow> nat \<Rightarrow> nat \<Rightarrow> byte list option \<Rightarrow> bool \<Rightarrow> mem \<Rightarrow> (Session option \<times> mem) option" where
  "SessionNew ma now r1 r2 sessionName eng m =
     (let (ok, m) = malloc m in
      if \<not> ok then Some (None, m)
      else
        let s = \<lparr>ses_name = None, ses_project_path = None, ses_created_at = now, ses_working_time = 0,
                 ses_SampleList = None, ses_ChannelList = None\<rparr>
        in case sessionName of
             None \<Rightarrow>
               (case session_name_random r1 r2 m of
                  None \<Rightarrow> None
                | Some (nm, m) \<Rightarrow> Some (SessionNew_lists ma eng (s\<lparr>ses_name := Some nm\<rparr>) m))
           | Some n \<Rightarrow>
               (let (nm, m) = strdup n m
                in Some (if nm = None then (None, SessionFree (Some s) m)
                         else SessionNew_lists ma eng (s\<lparr>ses_name := nm\<rparr>) m)))"

definition SessionSetName ::
  "Session option \<Rightarrow> byte list option \<Rightarrow> mem \<Rightarrow> bool \<times> Session option \<times> mem" where
  "SessionSetName sp sessionName m =
     (case (sp, sessionName) of
        (Some s, Some n) \<Rightarrow>
          (let (name, m) = strdup n m in
           if name = None then (False, sp, m)
           else (True, Some (s\<lparr>ses_name := name\<rparr>), free_opt (ses_name s) m))
      | _ \<Rightarrow> (False, sp, m))"

definition SessionGetName :: "Session option \<Rightarrow> byte list" where
  "SessionGetName sp =
     (case sp of None \<Rightarrow> [] | Some s \<Rightarrow> (case ses_name s of None \<Rightarrow> [] | Some n \<Rightarrow> n))"

text \<open>The getters without a check; reading through \<^verbatim>\<open>NULL\<close> is undefined (\<open>None\<close>).\<close>

definition SessionGetWorkingTime :: "time_t \<Rightarrow> Session option \<Rightarrow> time_t option" where
  "SessionGetWorkingTime now sp = map_option (\<lambda>s. now - ses_created_at s) sp"

definition SessionGetCreatedAt :: "Session option \<Rightarrow> time_t option" where
  "SessionGetCreatedAt sp = map_option ses_created_at sp"

definition SessionGetSampleList :: "Session option \<Rightarrow> SampleList option option" where
  "SessionGetSampleList sp = map_option ses_SampleList sp"

subsection \<open>The RPC functions\<close>

definition Ping :: "byte list" where "Ping = cstr ''pong''"

text \<open>A session they create is only stored in the parameter, so the caller never sees it.\<close>

definition FnSessionInit ::
  "miniaudio \<Rightarrow> time_t \<Rightarrow> nat \<Rightarrow> nat \<Rightarrow> Session option \<Rightarrow> bool \<Rightarrow> mem \<Rightarrow> (Result \<times> mem) option" where
  "FnSessionInit ma now r1 r2 sp eng m =
     (if sp = None
      then map_option (\<lambda>(_, m). (ResultOk, m)) (SessionNew ma now r1 r2 None eng m)
      else Some (ResultErr (cstr ''The current session instance has already been created.''), m))"

definition FnSessionCreate ::
  "miniaudio \<Rightarrow> time_t \<Rightarrow> nat \<Rightarrow> nat \<Rightarrow> Session option \<Rightarrow> bool \<Rightarrow> byte list option \<Rightarrow> mem \<Rightarrow>
   (Result \<times> mem) option" where
  "FnSessionCreate ma now r1 r2 sp eng session_name m =
     (if session_name = None then Some (ResultErr (cstr ''Invalid session name.''), m)
      else if sp = None
      then map_option (\<lambda>(_, m). (ResultOk, m)) (SessionNew ma now r1 r2 session_name eng m)
      else Some (ResultErr (cstr ''Session already started!''), m))"

definition FnSessionGetName :: "Session option \<Rightarrow> byte list" where
  "FnSessionGetName sp = (if sp = None then [] else SessionGetName sp)"

definition FnSessionGetWorkingTime :: "time_t \<Rightarrow> Session option \<Rightarrow> time_t" where
  "FnSessionGetWorkingTime now sp =
     (case SessionGetWorkingTime now sp of None \<Rightarrow> 0 | Some t \<Rightarrow> t)"

subsection \<open>Invariant, blocks and properties\<close>

definition ses_wf :: "Session \<Rightarrow> bool" where
  "ses_wf s \<longleftrightarrow> (\<exists>nm. ses_name s = Some nm \<and> no_nul nm) \<and> (\<exists>l. ses_SampleList s = Some l \<and> sl_wf l)
     \<and> ses_ChannelList s \<noteq> None"

definition opt_blocks :: "('a \<Rightarrow> int) \<Rightarrow> 'a option \<Rightarrow> int" where
  "opt_blocks f x = (case x of None \<Rightarrow> 0 | Some y \<Rightarrow> f y)"

definition ses_blocks :: "Session \<Rightarrow> int" where
  "ses_blocks s = 1 + of_bool (ses_name s \<noteq> None) + of_bool (ses_project_path s \<noteq> None)
     + opt_blocks sl_blocks (ses_SampleList s) + opt_blocks cl_blocks (ses_ChannelList s)"

lemma opt_blocks_simps [simp]: "opt_blocks f None = 0" "opt_blocks f (Some x) = f x"
  by (simp_all add: opt_blocks_def)

lemma SessionFree_live:
  assumes "\<And>l. ses_SampleList s = Some l \<Longrightarrow> sl_wf l"
  shows "live (SessionFree (Some s) m) = live m - ses_blocks s"
proof -
  have S: "live (SampleListFree (ses_SampleList s) m) = live m - opt_blocks sl_blocks (ses_SampleList s)" for m
    using assms by (cases "ses_SampleList s") (simp_all add: SampleListFree_live, simp add: SampleListFree_def)
  have C: "live (ChannelListFree (ses_ChannelList s) m) = live m - opt_blocks cl_blocks (ses_ChannelList s)" for m
    by (cases "ses_ChannelList s") (simp_all add: ChannelListFree_live, simp add: ChannelListFree_def)
  show ?thesis by (simp add: SessionFree_def S C ses_blocks_def free_opt_live)
qed

lemma SessionFree_wf: "ses_wf s \<Longrightarrow> live (SessionFree (Some s) m) = live m - ses_blocks s"
  by (rule SessionFree_live) (auto simp: ses_wf_def)

lemma SessionNew_lists_cases:
  assumes "SessionNew_lists ma eng s m = (r, m')" and "ses_name s = Some nm" "no_nul nm"
    "ses_SampleList s = None" "ses_ChannelList s = None"
  shows "case r of None \<Rightarrow> live m' = live m - ses_blocks s
      | Some s' \<Rightarrow> ses_wf s' \<and> live m' - ses_blocks s' = live m - ses_blocks s \<and> ses_name s' = Some nm
          \<and> ses_created_at s' = ses_created_at s"
    and "nofail m \<Longrightarrow> r \<noteq> None \<longleftrightarrow> eng \<and> ma_ok ma [] Group_init"
proof -
  obtain sl m1 where 1: "SampleListNew m = (sl, m1)" by fastforce
  obtain cl m2 where 2: "ChannelListNew ma eng m1 = (cl, m2)" by fastforce
  have sl: "sl = None \<and> live m1 = live m \<and> \<not> nofail m
      \<or> sl = Some \<lparr>sl_samples = [], sl_alloc = False\<rparr> \<and> live m1 = live m + 1 \<and> (nofail m \<longrightarrow> nofail m1)"
    using 1 by (auto simp: SampleListNew_def malloc_nofail dest: malloc_live malloc_nofailD split: prod.splits if_splits)
  have wf0: "sl_wf \<lparr>sl_samples = [], sl_alloc = False\<rparr>" "sl_blocks \<lparr>sl_samples = [], sl_alloc = False\<rparr> = 1"
    by (simp_all add: sl_wf_def sl_blocks_def sl_list_def)
  note C = ChannelListNew_cases [OF 2]
  have "(case r of None \<Rightarrow> live m' = live m - ses_blocks s
      | Some s' \<Rightarrow> ses_wf s' \<and> live m' - ses_blocks s' = live m - ses_blocks s \<and> ses_name s' = Some nm
          \<and> ses_created_at s' = ses_created_at s)
    \<and> (nofail m \<longrightarrow> (r \<noteq> None \<longleftrightarrow> eng \<and> ma_ok ma [] Group_init))"
  proof (cases sl)
    case None
    with assms(1) 1 have "r = None" "m' = SessionFree (Some (s\<lparr>ses_SampleList := None\<rparr>)) m1"
      by (simp_all add: SessionNew_lists_def)
    with None sl SessionFree_live [of "s\<lparr>ses_SampleList := None\<rparr>" m1] assms show ?thesis
      by (simp add: ses_blocks_def)
  next
    case (Some l)
    let ?s = "s\<lparr>ses_SampleList := sl, ses_ChannelList := cl\<rparr>"
    have res: "(r, m') = (if cl = None then (None, SessionFree (Some ?s) m2) else (Some ?s, m2))"
      using assms(1) 1 2 Some by (auto simp: SessionNew_lists_def Let_def)
    show ?thesis
    proof (cases cl)
      case None
      with res Some sl wf0 C SessionFree_live [of ?s m2] assms show ?thesis
        by (auto simp: ses_blocks_def)
    next
      case (Some c)
      with res \<open>sl = Some l\<close> sl wf0 C assms show ?thesis
        by (auto simp: ses_blocks_def ses_wf_def)
    qed
  qed
  then show "case r of None \<Rightarrow> live m' = live m - ses_blocks s
      | Some s' \<Rightarrow> ses_wf s' \<and> live m' - ses_blocks s' = live m - ses_blocks s \<and> ses_name s' = Some nm
          \<and> ses_created_at s' = ses_created_at s"
    "nofail m \<Longrightarrow> r \<noteq> None \<longleftrightarrow> eng \<and> ma_ok ma [] Group_init" by simp_all
qed

lemma sample_blocks_pos: "0 \<le> sample_blocks s" and channel_blocks_pos: "0 \<le> channel_blocks c"
  by (auto simp: sample_blocks_def channel_blocks_def split: option.split)

lemma sl_blocks_pos: "0 \<le> sl_blocks l" and cl_blocks_pos: "0 \<le> cl_blocks c"
  by (auto simp: sl_blocks_def cl_blocks_def intro!: add_nonneg_nonneg sum_list_nonneg
      simp: sample_blocks_pos channel_blocks_pos)

lemma ses_blocks_pos: "0 < ses_blocks s"
  using sl_blocks_pos cl_blocks_pos
  by (cases "ses_SampleList s"; cases "ses_ChannelList s") (auto simp: ses_blocks_def intro!: add_pos_nonneg)

lemma session_new_facts:
  assumes "no_nul n"
  shows "\<exists>r m'. SessionNew ma now r1 r2 (Some n) eng m = Some (r, m')
    \<and> (nofail m \<longrightarrow> (r \<noteq> None \<longleftrightarrow> eng \<and> ma_ok ma [] Group_init))
    \<and> (case r of None \<Rightarrow> live m' = live m
       | Some s \<Rightarrow> ses_wf s \<and> ses_name s = Some n \<and> ses_created_at s = now
           \<and> live (SessionFree r m') = live m)"
proof -
  obtain ok m1 where 1: "malloc m = (ok, m1)" by fastforce
  obtain nm m2 where 2: "strdup n m1 = (nm, m2)" by fastforce
  define s where "s = \<lparr>ses_name = None, ses_project_path = None, ses_created_at = now, ses_working_time = 0,
                 ses_SampleList = None, ses_ChannelList = None\<rparr>"
  note L = malloc_live [OF 1] strdup_live [OF 2] malloc_nofailD [OF 1]
  show ?thesis
  proof (cases "ok \<and> nm \<noteq> None")
    case True
    then have nm: "nm = Some n" using strdup_result [OF 2] by auto
    obtain r m3 where 3: "SessionNew_lists ma eng (s\<lparr>ses_name := Some n\<rparr>) m2 = (r, m3)" by fastforce
    have eq: "SessionNew ma now r1 r2 (Some n) eng m = Some (r, m3)"
      using 1 2 3 True nm by (simp add: SessionNew_def s_def)
    have S: "case r of None \<Rightarrow> live m3 = live m2 - 2
      | Some s' \<Rightarrow> ses_wf s' \<and> live m3 - ses_blocks s' = live m2 - 2 \<and> ses_name s' = Some n \<and> ses_created_at s' = now"
      "nofail m2 \<Longrightarrow> r \<noteq> None \<longleftrightarrow> eng \<and> ma_ok ma [] Group_init"
      using SessionNew_lists_cases [OF 3, of n] assms by (cases r; simp add: s_def ses_blocks_def)+
    have "nofail m \<Longrightarrow> nofail m2" using L 2 strdup_nofail [of m1 n] by auto
    with eq S L True nm show ?thesis
      by (cases r) (auto simp: SessionFree_wf)
  next
    case False
    have "nofail m \<Longrightarrow> False" using False L 2 strdup_nofail [of m1 n] by auto
    with False 1 2 L SessionFree_live [of s m2] show ?thesis
      by (auto simp: SessionNew_def s_def [symmetric] ses_blocks_def simp del: One_nat_def)
        (auto simp: s_def)
  qed
qed

text \<open>The name a session without a given one gets, and the one it ends up with.\<close>

definition random_name :: "nat \<Rightarrow> nat \<Rightarrow> byte list" where
  "random_name r1 r2 = cstr (first_names ! (r1 mod 15)) @ cstr ''_'' @ cstr (second_names ! (r2 mod 15))"

lemma random_name_short:
  "no_nul (random_name r1 r2)"
  "length (random_name r1 r2) < 20"
proof -
  have "\<forall>s \<in> set first_names \<union> set second_names. no_nul (cstr s) \<and> length (cstr s) < 9"
    by (simp add: first_names_def second_names_def cstr_def no_nul_def)
  moreover have "first_names ! (r1 mod 15) \<in> set first_names" "second_names ! (r2 mod 15) \<in> set second_names"
    by (rule nth_mem, simp add: first_names_def second_names_def)+
  ultimately have "no_nul (cstr (first_names ! (r1 mod 15)))" "length (cstr (first_names ! (r1 mod 15))) < 9"
    "no_nul (cstr (second_names ! (r2 mod 15)))" "length (cstr (second_names ! (r2 mod 15))) < 9"
    by blast+
  then show "no_nul (random_name r1 r2)"
    "length (random_name r1 r2) < 20"
    by (auto simp: no_nul_def cstr_def random_name_def)
qed

lemma session_new_random_facts:
  "SessionNew ma now r1 r2 None eng m = None \<longleftrightarrow> fst (malloc m) \<and> \<not> fst (malloc (snd (malloc m)))"
  "SessionNew ma now r1 r2 None eng m = Some (r, m') \<Longrightarrow>
     (nofail m \<longrightarrow> (r \<noteq> None \<longleftrightarrow> eng \<and> ma_ok ma [] Group_init))
     \<and> (case r of None \<Rightarrow> live m' = live m
        | Some s \<Rightarrow> ses_wf s \<and> ses_name s = Some (random_name r1 r2) \<and> ses_created_at s = now
            \<and> live (SessionFree r m') = live m)"
proof -
  obtain ok m1 where 1: "malloc m = (ok, m1)" by fastforce
  obtain ok2 m2 where 2: "malloc m1 = (ok2, m2)" by fastforce
  let ?s = "\<lparr>ses_name = Some (random_name r1 r2), ses_project_path = None, ses_created_at = now, ses_working_time = 0,
                 ses_SampleList = None, ses_ChannelList = None\<rparr>"
  note L = malloc_live [OF 1] malloc_live [OF 2] malloc_nofailD [OF 1] malloc_nofailD [OF 2]
  have eq: "SessionNew ma now r1 r2 None eng m =
      (if \<not> ok then Some (None, m1) else if \<not> ok2 then None else Some (SessionNew_lists ma eng ?s m2))"
    by (simp add: SessionNew_def session_name_random_def random_name_def 1 2)
  then show "SessionNew ma now r1 r2 None eng m = None \<longleftrightarrow> fst (malloc m) \<and> \<not> fst (malloc (snd (malloc m)))"
    by (simp add: 1 2)
  assume r: "SessionNew ma now r1 r2 None eng m = Some (r, m')"
  show "(nofail m \<longrightarrow> (r \<noteq> None \<longleftrightarrow> eng \<and> ma_ok ma [] Group_init))
     \<and> (case r of None \<Rightarrow> live m' = live m
        | Some s \<Rightarrow> ses_wf s \<and> ses_name s = Some (random_name r1 r2) \<and> ses_created_at s = now
            \<and> live (SessionFree r m') = live m)"
  proof (cases ok)
    case False
    with r eq L show ?thesis by auto
  next
    case True
    with r eq have "ok2" "SessionNew_lists ma eng ?s m2 = (r, m')" by (auto split: if_splits)
    with SessionNew_lists_cases [of ma eng ?s m2 r m' "random_name r1 r2"] random_name_short(1) [of r1 r2] L True
    show ?thesis by (cases r) (auto simp: ses_blocks_def SessionFree_wf)
  qed
qed

lemma session_new_random_nofail:
  assumes "nofail m" "ma_ok ma [] Group_init"
  shows "\<exists>s m'. SessionNew ma now r1 r2 None True m = Some (Some s, m') \<and> nofail m'"
proof -
  have "fst (SampleListNew m) \<noteq> None \<and> nofail (snd (SampleListNew m))" if "nofail m" for m
    using that by (simp add: SampleListNew_def alloc_simps)
  moreover have "fst (ChannelListNew ma True m) \<noteq> None \<and> nofail (snd (ChannelListNew ma True m))" if "nofail m" for m
    using ChannelListNew_cases [of ma True m "fst (ChannelListNew ma True m)" "snd (ChannelListNew ma True m)"] that assms(2) by simp
  ultimately show ?thesis using assms(1)
    by (simp add: SessionNew_def session_name_random_def SessionNew_lists_def alloc_simps case_prod_beta Let_def)
qed

text \<open>
  C29: Creating a session, with a given name or, as the context does, without one, under any allocator and any answer of
  the audio library. The call is undefined exactly when no name is given and, once the session has its block, the block
  for the random name is refused: \<^verbatim>\<open>snprintf\<close> then prints into \<^verbatim>\<open>NULL\<close>. Otherwise it is all-or-nothing: \<^verbatim>\<open>NULL\<close> with every
  block released, or a well-formed session with the given or the random name, the creation time and exactly the blocks
  \<^verbatim>\<open>SessionFree\<close> will release; with memory, an engine and a mixer group it is the latter. A given name has no zero byte,
  as a C string.
\<close>

theorem session_new_all_or_nothing:
  assumes "\<And>n. name = Some n \<Longrightarrow> no_nul n"
  shows "(SessionNew ma now r1 r2 name eng m = None \<longleftrightarrow>
            name = None \<and> fst (malloc m) \<and> \<not> fst (malloc (snd (malloc m))))
    \<and> (\<forall>r m'. SessionNew ma now r1 r2 name eng m = Some (r, m') \<longrightarrow>
         (nofail m \<longrightarrow> (r \<noteq> None \<longleftrightarrow> eng \<and> ma_ok ma [] Group_init))
         \<and> (case r of None \<Rightarrow> live m' = live m
            | Some s \<Rightarrow> ses_wf s \<and> ses_created_at s = now \<and> live (SessionFree r m') = live m
                \<and> ses_name s = Some (case name of Some n \<Rightarrow> n | None \<Rightarrow> random_name r1 r2)))"
proof (cases name)
  case None
  show ?thesis using session_new_random_facts [of ma now r1 r2 eng m] unfolding None by (fastforce split: option.split)
next
  case (Some n)
  show ?thesis using session_new_facts [OF assms [OF Some], of ma now r1 r2 eng m] unfolding Some
    by (fastforce split: option.split)
qed

theorem session_new_all_or_nothing_witness:
  "\<exists>r m'. SessionNew \<lparr>ma_ok = (\<lambda>_ _. True), ma_frames = (\<lambda>_. 0), ma_cursor = (\<lambda>_. 0),
       ma_is_playing = (\<lambda>_. False), ma_engine_rate = 48000, os_readable = (\<lambda>_. True)\<rparr>
       1000 0 0 (Some (cstr ''mix'')) True \<lparr>outcomes = [], live = 0\<rparr> = Some (Some r, m')
     \<and> ses_name r = Some (cstr ''mix'') \<and> live (SessionFree (Some r) m') = 0"
proof -
  let ?ma = "\<lparr>ma_ok = (\<lambda>_ _. True), ma_frames = (\<lambda>_. 0), ma_cursor = (\<lambda>_. 0),
       ma_is_playing = (\<lambda>_. False), ma_engine_rate = 48000, os_readable = (\<lambda>_. True)\<rparr>"
  have "\<And>n. Some (cstr ''mix'') = Some n \<Longrightarrow> no_nul n" by (auto simp: cstr_def no_nul_def)
  from session_new_all_or_nothing [of "Some (cstr ''mix'')" ?ma 1000 0 0 True "\<lparr>outcomes = [], live = 0\<rparr>", OF this]
  show ?thesis by (cases "SessionNew ?ma 1000 0 0 (Some (cstr ''mix'')) True \<lparr>outcomes = [], live = 0\<rparr>")
      (fastforce simp: nofail_def)+
qed

text \<open>
  \<^verbatim>\<open>FnSessionCreate\<close> never gives its caller a session: called without one it reports success, but
  the session it built is unreachable and, with memory, all its blocks are lost; called with one it
  refuses.
\<close>

theorem session_create_unreachable:
  assumes "nofail m" "no_nul n" "ma_ok ma [] Group_init"
  shows "\<exists>s m'. SessionNew ma now r1 r2 (Some n) True m = Some (Some s, m')
      \<and> FnSessionCreate ma now r1 r2 None True (Some n) m = Some (ResultOk, m')
      \<and> live m' = live m + ses_blocks s \<and> 0 < ses_blocks s
      \<and> FnSessionCreate ma now r1 r2 (Some t) True (Some n) m =
          Some (ResultErr (cstr ''Session already started!''), m)"
proof -
  obtain s m' where s: "SessionNew ma now r1 r2 (Some n) True m = Some (Some s, m')" "ses_wf s"
      "live (SessionFree (Some s) m') = live m"
    using session_new_facts [OF assms(2), of ma now r1 r2 True m] assms by (auto split: option.splits)
  have "live m' = live m + ses_blocks s"
    using s(2,3) by (simp add: SessionFree_wf)
  then show ?thesis using s(1) ses_blocks_pos by (simp add: FnSessionCreate_def)
qed

theorem session_create_unreachable_witness:
  "fst (the (FnSessionCreate \<lparr>ma_ok = (\<lambda>_ _. True), ma_frames = (\<lambda>_. 0), ma_cursor = (\<lambda>_. 0),
       ma_is_playing = (\<lambda>_. False), ma_engine_rate = 48000, os_readable = (\<lambda>_. True)\<rparr>
       1000 0 0 None True (Some (cstr ''mix'')) \<lparr>outcomes = [], live = 0\<rparr>)) = ResultOk"
proof -
  have "nofail \<lparr>outcomes = [], live = 0\<rparr>" "no_nul (cstr ''mix'')"
    by (simp_all add: cstr_def no_nul_def nofail_def)
  then show ?thesis
    using session_create_unreachable [of "\<lparr>outcomes = [], live = 0\<rparr>" "cstr ''mix''"
        "\<lparr>ma_ok = (\<lambda>_ _. True), ma_frames = (\<lambda>_. 0), ma_cursor = (\<lambda>_. 0),
         ma_is_playing = (\<lambda>_. False), ma_engine_rate = 48000, os_readable = (\<lambda>_. True)\<rparr>" 1000 0 0
        "\<lparr>ses_name = None, ses_project_path = None, ses_created_at = 0, ses_working_time = 0,
                 ses_SampleList = None, ses_ChannelList = None\<rparr>"]
    by auto
qed

end
