(* ===== verification/Haze_Fs.thy ===== *)
theory Haze_Fs
  imports Haze_Session Haze_Response
begin

text \<open>
  \<^verbatim>\<open>source/fs/Paths.c\<close> and \<^verbatim>\<open>source/fs/InstanceRegistry.c\<close> (the POSIX branches): the directory layout,
  the registry file of a running instance and the search for the last port in use. The environment
  (\<^verbatim>\<open>HOME\<close>, directory entries, the outcomes of \<^verbatim>\<open>fopen\<close>, \<^verbatim>\<open>fclose\<close> and \<^verbatim>\<open>remove\<close>) is given by arguments.
\<close>

subsection \<open>Joining paths\<close>

text \<open>
  The loop over the variadic arguments; \<open>buf\<close> are the characters before \<^verbatim>\<open>length\<close>. When a component
  does not fit after a separator was written, the old terminator is overwritten and no new one
  stored, so the copy at the end reads uninitialised memory: \<open>None\<close>.
\<close>

fun join_loop :: "byte list \<Rightarrow> byte list list \<Rightarrow> byte list option" where
  "join_loop buf [] = Some buf"
| "join_loop buf (current # args) =
     (let sep = (0 < length buf \<and> last buf \<noteq> 0x2f);
          buf = (if sep then buf @ [0x2f] else buf)
      in if 4096 - 1 \<le> length buf + length current then (if sep then None else Some buf)
         else join_loop (buf @ current) args)"

text \<open>\<open>args\<close> are the arguments before the first \<^verbatim>\<open>NULL\<close>.\<close>

definition PathsJoin :: "byte list list \<Rightarrow> mem \<Rightarrow> (byte list option \<times> mem) option" where
  "PathsJoin args m = map_option (\<lambda>buf. strdup buf m) (join_loop [] args)"

subsection \<open>The directory layout\<close>

record Paths =
  pt_home :: "byte list option"
  pt_config :: "byte list option"
  pt_data :: "byte list option"
  pt_cache :: "byte list option"
  pt_projects :: "byte list option"
  pt_samples :: "byte list option"
  pt_themes :: "byte list option"
  pt_plugins :: "byte list option"
  pt_logs :: "byte list option"
  pt_instances :: "byte list option"

datatype PathsEnum = PATHS_HOME | PATHS_CONFIG | PATHS_DATA | PATHS_CACHE | PATHS_PROJECTS
  | PATHS_SAMPLES | PATHS_THEMES | PATHS_PLUGINS | PATHS_LOGS | PATHS_INSTANCES

definition PathsGet :: "Paths option \<Rightarrow> PathsEnum \<Rightarrow> byte list option" where
  "PathsGet pp path =
     (case pp of
        None \<Rightarrow> None
      | Some p \<Rightarrow>
          (case path of
             PATHS_HOME \<Rightarrow> pt_home p
           | PATHS_CONFIG \<Rightarrow> pt_config p
           | PATHS_DATA \<Rightarrow> pt_data p
           | PATHS_CACHE \<Rightarrow> pt_cache p
           | PATHS_PROJECTS \<Rightarrow> pt_projects p
           | PATHS_SAMPLES \<Rightarrow> pt_samples p
           | PATHS_THEMES \<Rightarrow> pt_themes p
           | PATHS_PLUGINS \<Rightarrow> pt_plugins p
           | PATHS_LOGS \<Rightarrow> pt_logs p
           | PATHS_INSTANCES \<Rightarrow> pt_instances p))"

text \<open>\<open>access\<close> tells which paths exist.\<close>

definition PathsExists :: "(byte list \<Rightarrow> bool) \<Rightarrow> Paths option \<Rightarrow> PathsEnum \<Rightarrow> bool" where
  "PathsExists access pp path = (case PathsGet pp path of None \<Rightarrow> False | Some v \<Rightarrow> access v)"

text \<open>\<open>mkdir\<close> tells whether the directory is there afterwards; the first component is what it tried to make.\<close>

definition EnsureDir :: "(byte list \<Rightarrow> bool) \<Rightarrow> byte list option \<Rightarrow> byte list list \<times> bool" where
  "EnsureDir mkdir path = (case path of None \<Rightarrow> ([], False) | Some p \<Rightarrow> ([p], mkdir p))"

definition PathsFree :: "Paths option \<Rightarrow> mem \<Rightarrow> mem" where
  "PathsFree pp m =
     (case pp of
        None \<Rightarrow> m
      | Some p \<Rightarrow>
          free1 (fold free_opt [pt_home p, pt_config p, pt_data p, pt_cache p, pt_projects p, pt_samples p,
                                pt_themes p, pt_plugins p, pt_logs p, pt_instances p] m))"

definition sub_dirs :: "string list" where
  "sub_dirs = [''config'', ''data'', ''cache'', ''projects'', ''samples'', ''themes'', ''plugins'',
     ''logs'', ''instances'']"

text \<open>The nine joins in order.\<close>

fun join_all :: "byte list \<Rightarrow> string list \<Rightarrow> mem \<Rightarrow> (byte list option list \<times> mem) option" where
  "join_all base [] m = Some ([], m)"
| "join_all base (d # ds) m =
     (case PathsJoin [base, cstr d] m of
        None \<Rightarrow> None
      | Some (p, m) \<Rightarrow>
          (case join_all base ds m of
             None \<Rightarrow> None
           | Some (ps, m) \<Rightarrow> Some (p # ps, m)))"

text \<open>The result carries the directories it tried to make, in order.\<close>

definition PathsNew ::
  "byte list option \<Rightarrow> mem \<Rightarrow> (Paths option \<times> byte list list \<times> mem) option" where
  "PathsNew home m =
     (case home of
        None \<Rightarrow> Some (None, [], m)
      | Some h \<Rightarrow>
          let (ok, m) = malloc m in
          if \<not> ok then Some (None, [], m)
          else
            let (hm, m) = strdup h m in
            if hm = None then Some (None, [], free1 m)
            else (case PathsJoin [h, cstr ''Haze''] m of
                None \<Rightarrow> None
              | Some (None, m) \<Rightarrow> Some (None, [], free1 (free_opt hm m))
              | Some (Some base, m) \<Rightarrow>
                  (case join_all base sub_dirs m of
                     None \<Rightarrow> None
                   | Some (ps, m) \<Rightarrow>
                       Some (Some \<lparr>pt_home = hm, pt_config = ps ! 0, pt_data = ps ! 1, pt_cache = ps ! 2,
                                   pt_projects = ps ! 3, pt_samples = ps ! 4, pt_themes = ps ! 5,
                                   pt_plugins = ps ! 6, pt_logs = ps ! 7, pt_instances = ps ! 8\<rparr>,
                             base # concat (map (\<lambda>p. fst (EnsureDir (\<lambda>_. True) p)) ps), free1 m))))"

subsection \<open>The instance registry\<close>

text \<open>\<open>reg_created_at\<close> is an \<^verbatim>\<open>int\<close>; \<open>reg_open\<close>: the file handle is not \<^verbatim>\<open>NULL\<close>.\<close>

record InstanceReg =
  reg_pid :: u64
  reg_session_name :: "byte list option"
  reg_port :: u16
  reg_created_at :: u32
  reg_path :: "byte list option"
  reg_open :: bool

text \<open>Eight writes into a buffer of 255 bytes; \<open>None\<close> where the name is \<^verbatim>\<open>NULL\<close>.\<close>

definition InstanceRegistryWrite :: "InstanceReg \<Rightarrow> mem \<Rightarrow> (RawBuffer option \<times> mem) option" where
  "InstanceRegistryWrite reg m =
     (case reg_session_name reg of
        None \<Rightarrow> None
      | Some nm \<Rightarrow>
          let w = mpack_writer_init 255;
              (w, m) = mpack_start_map w 4 m;
              (w, m) = mpack_write_cstr w (cstr ''pid'') m;
              (w, m) = mpack_write_u64 w (reg_pid reg) m;
              (w, m) = mpack_write_cstr w (cstr ''port'') m;
              (w, m) = mpack_write_u16 w (reg_port reg) m;
              (w, m) = mpack_write_cstr w (cstr ''session_name'') m;
              (w, m) = mpack_write_cstr w nm m;
              (w, m) = mpack_write_cstr w (cstr ''created_at'') m;
              (w, m) = mpack_write_u64 w (scast (reg_created_at reg)) m
          in if w_error w \<noteq> mpack_ok then Some (None, snd (snd (mpack_writer_destroy w m)))
             else
               let (result, m) = RawBufferNew (Some (w_buffer w)) (w_used w) m
               in Some (result, snd (snd (mpack_writer_destroy w m))))"

text \<open>
  \<open>fopen\<close> tells whether the file can be created. The second component of the result is what was
  written to it. \<open>None\<close> is undefined behaviour: a \<^verbatim>\<open>NULL\<close> session, name or path.
\<close>

definition InstanceRegistryNew ::
  "int \<Rightarrow> (byte list \<Rightarrow> bool) \<Rightarrow> Session option \<Rightarrow> Paths option \<Rightarrow> u16 \<Rightarrow> mem \<Rightarrow>
   (InstanceReg option \<times> byte list \<times> mem) option" where
  "InstanceRegistryNew pid fopen inst pt port m =
     (let (ok, m) = malloc m in
      if \<not> ok then Some (None, [], m)
      else
        let (nm, m) = strdup (SessionGetName inst) m
        in case SessionGetCreatedAt inst of
             None \<Rightarrow> None
           | Some t \<Rightarrow>
               (case PathsJoin (case PathsGet pt PATHS_INSTANCES of
                                  None \<Rightarrow> [] | Some d \<Rightarrow> [d, dec (unat port)]) m of
                  None \<Rightarrow> None
                | Some (None, m) \<Rightarrow> None
                | Some (Some path, m) \<Rightarrow>
                    (let reg = \<lparr>reg_pid = of_int pid, reg_session_name = nm, reg_port = port,
                                reg_created_at = ucast t, reg_path = Some path, reg_open = True\<rparr>
                     in if \<not> fopen path then Some (None, [], free1 m)
                        else (case InstanceRegistryWrite reg m of
                            None \<Rightarrow> None
                          | Some (None, m) \<Rightarrow> Some (None, [], free1 (free_opt nm m))
                          | Some (Some content, m) \<Rightarrow>
                              Some (Some reg, rb_bytes content, RawBufferFree (Some content) m)))))"

definition InstanceRegistryFree :: "InstanceReg option \<Rightarrow> mem \<Rightarrow> mem" where
  "InstanceRegistryFree rp m =
     (case rp of
        None \<Rightarrow> m
      | Some r \<Rightarrow> free1 (free_opt (reg_path r) (free_opt (reg_session_name r) m)))"

definition InstanceRegistryRemove ::
  "bool \<Rightarrow> (byte list \<Rightarrow> bool) \<Rightarrow> InstanceReg option \<Rightarrow> Result \<times> InstanceReg option" where
  "InstanceRegistryRemove fclose_ok remove_ok rp =
     (case rp of
        None \<Rightarrow> (ResultErr (cstr ''deallocated struct''), rp)
      | Some r \<Rightarrow>
          if reg_open r \<and> \<not> fclose_ok then (ResultErr (cstr ''failed to close registry file''), rp)
          else
            let r = r\<lparr>reg_open := False\<rparr>
            in if (case reg_path r of None \<Rightarrow> False | Some p \<Rightarrow> \<not> remove_ok p)
               then (ResultErr (cstr ''failed to remove registry file''), Some r)
               else (ResultOk, Some r))"

subsection \<open>The last port\<close>

text \<open>\<^verbatim>\<open>strtoul(s, NULL, 10)\<close>: white space, an optional sign, digits; saturating.\<close>

fun digits_val :: "nat \<Rightarrow> byte list \<Rightarrow> nat" where
  "digits_val acc [] = acc"
| "digits_val acc (c # cs) = (if 48 \<le> c \<and> c \<le> 57 then digits_val (10 * acc + unat (c - 48)) cs else acc)"

definition is_space :: "byte \<Rightarrow> bool" where
  "is_space c \<longleftrightarrow> c = 32 \<or> 9 \<le> c \<and> c \<le> 13"

definition strtoul :: "byte list \<Rightarrow> u64" where
  "strtoul s =
     (let s = dropWhile is_space s;
          neg = (s \<noteq> [] \<and> hd s = 45);
          s = (if s \<noteq> [] \<and> (hd s = 45 \<or> hd s = 43) then tl s else s);
          v = digits_val 0 s
      in if 2 ^ 64 \<le> v then - 1 else if neg then - of_nat v else of_nat v)"

text \<open>One turn of the loop over the directory entries.\<close>

definition port_step :: "byte list \<Rightarrow> u16 \<Rightarrow> u16" where
  "port_step d_name maxPort =
     (if d_name \<noteq> cstr ''.'' \<and> d_name \<noteq> cstr ''..''
      then
        let portVal = strtoul d_name
        in if 0 < portVal \<and> portVal \<le> 65535 \<and> ucast maxPort < portVal then ucast portVal else maxPort
      else maxPort)"

text \<open>\<open>readdir\<close> lists the entries of a directory that can be opened.\<close>

definition InstanceRegistryGetLastPort ::
  "(byte list \<Rightarrow> byte list list option) \<Rightarrow> Paths option \<Rightarrow> u16" where
  "InstanceRegistryGetLastPort readdir pt =
     (case PathsGet pt PATHS_INSTANCES of
        None \<Rightarrow> 7191
      | Some dirPath \<Rightarrow>
          (case readdir dirPath of
             None \<Rightarrow> 7191
           | Some entries \<Rightarrow>
               (let maxPort = fold port_step entries 0
                in if maxPort = 0 then 7191 else maxPort)))"

subsection \<open>Facts about joining\<close>

text \<open>A component followed by another: the separator is added when it is missing.\<close>

definition slash :: "byte list \<Rightarrow> byte list" where
  "slash p = (if p \<noteq> [] \<and> last p \<noteq> 0x2f then p @ [0x2f] else p)"

lemma join_two:
  "length a + 1 + length b < 4095 \<Longrightarrow> join_loop [] [a, b] = Some (slash a @ b)"
  by (auto simp: slash_def Let_def)

lemma PathsJoin_two:
  "length a + 1 + length b < 4095 \<Longrightarrow> PathsJoin [a, b] m = Some (strdup (slash a @ b) m)"
  by (simp add: PathsJoin_def join_two del: join_loop.simps)

lemma length_slash: "length (slash p) \<le> length p + 1"
  by (simp add: slash_def)

definition some_count :: "'a option list \<Rightarrow> int" where
  "some_count ps = int (length (filter (\<lambda>x. x \<noteq> None) ps))"

lemma join_all_two:
  assumes "\<forall>d \<in> set ds. length base + 1 + length (cstr d) < 4095"
  shows "\<exists>ps m'. join_all base ds m = Some (ps, m') \<and> length ps = length ds
    \<and> (\<forall>i < length ds. ps ! i = None \<or> ps ! i = Some (slash base @ cstr (ds ! i)))
    \<and> live m' = live m + some_count ps
    \<and> (nofail m \<longrightarrow> nofail m' \<and> ps = map (\<lambda>d. Some (slash base @ cstr d)) ds)"
  using assms
proof (induction ds arbitrary: m)
  case (Cons d ds)
  obtain p m1 where 1: "strdup (slash base @ cstr d) m = (p, m1)" by fastforce
  obtain ps m2 where 2: "join_all base ds m1 = Some (ps, m2)" "length ps = length ds"
    "\<forall>i < length ds. ps ! i = None \<or> ps ! i = Some (slash base @ cstr (ds ! i))"
    "live m2 = live m1 + some_count ps"
    "nofail m1 \<longrightarrow> nofail m2 \<and> ps = map (\<lambda>d. Some (slash base @ cstr d)) ds"
    using Cons.IH [of m1] Cons.prems by auto
  have "nofail m \<Longrightarrow> nofail m1 \<and> p = Some (slash base @ cstr d)" using 1 by (auto simp: strdup_nofail)
  with 1 2 Cons.prems strdup_live [OF 1] strdup_result [OF 1] show ?case
    by (auto simp: PathsJoin_two nth_Cons some_count_def split: nat.split)
qed (simp add: some_count_def)

lemma fold_free_live: "live (fold free_opt ps m) = live m - some_count ps"
  by (induction ps arbitrary: m) (simp_all add: free_opt_live some_count_def)

definition paths_list :: "Paths \<Rightarrow> byte list option list" where
  "paths_list p = [pt_home p, pt_config p, pt_data p, pt_cache p, pt_projects p, pt_samples p,
      pt_themes p, pt_plugins p, pt_logs p, pt_instances p]"

lemma PathsFree_live: "live (PathsFree (Some p) m) = live m - 1 - some_count (paths_list p)"
  unfolding PathsFree_def option.case paths_list_def [symmetric] by (simp add: fold_free_live)

lemma list_of_9: "length xs = 9 \<Longrightarrow> xs = [xs!0, xs!1, xs!2, xs!3, xs!4, xs!5, xs!6, xs!7, xs!8]"
  by (rule nth_equalityI) (auto simp: less_Suc_eq_0_disj numeral_eq_Suc nth_Cons')

subsection \<open>Properties\<close>

text \<open>The path each key stands for, and the directories that \<^verbatim>\<open>docs/path.md\<close> lists below \<^verbatim>\<open>Haze\<close>.\<close>

definition path_of :: "byte list \<Rightarrow> PathsEnum \<Rightarrow> byte list" where
  "path_of h k =
     (if k = PATHS_HOME then h
      else slash h @ cstr ''Haze/'' @ cstr
        (case k of PATHS_CONFIG \<Rightarrow> ''config'' | PATHS_DATA \<Rightarrow> ''data'' | PATHS_CACHE \<Rightarrow> ''cache''
         | PATHS_PROJECTS \<Rightarrow> ''projects'' | PATHS_SAMPLES \<Rightarrow> ''samples'' | PATHS_THEMES \<Rightarrow> ''themes''
         | PATHS_PLUGINS \<Rightarrow> ''plugins'' | PATHS_LOGS \<Rightarrow> ''logs'' | _ \<Rightarrow> ''instances''))"

definition documented_dirs :: "string list" where
  "documented_dirs = [''projects'', ''samples'', ''cache'', ''config'', ''community'', ''logs'']"

lemma PathsNew_outcome:
  assumes "length h \<le> 4000"
  shows "\<exists>pp dirs m'. PathsNew (Some h) m = Some (pp, dirs, m') \<and> live (PathsFree pp m') = live m
    \<and> (nofail m \<longrightarrow> pp \<noteq> None \<and> nofail m'
       \<and> dirs = (slash h @ cstr ''Haze'') # map (\<lambda>d. slash h @ cstr ''Haze/'' @ cstr d) sub_dirs
       \<and> (\<forall>k. PathsGet pp k = Some (path_of h k)))"
proof -
  obtain ok m1 where 1: "malloc m = (ok, m1)" by fastforce
  obtain hm m2 where 2: "strdup h m1 = (hm, m2)" by fastforce
  let ?base = "slash h @ cstr ''Haze''"
  obtain bp m3 where 3: "strdup ?base m2 = (bp, m3)" by fastforce
  have jb: "PathsJoin [h, cstr ''Haze''] m2 = Some (bp, m3)"
    using assms 3 by (simp add: PathsJoin_two cstr_def)
  have lb: "length ?base \<le> 4005" using assms length_slash [of h] by (simp add: cstr_def)
  have sb: "slash ?base = slash h @ cstr ''Haze/''" by (simp add: slash_def cstr_def)
  have "\<forall>d \<in> set sub_dirs. length ?base + 1 + length (cstr d) < 4095"
    using lb by (auto simp: sub_dirs_def cstr_def)
  from join_all_two [OF this, of m3] obtain ps m4 where 4: "join_all ?base sub_dirs m3 = Some (ps, m4)"
      "length ps = 9" "live m4 = live m3 + some_count ps"
      "nofail m3 \<longrightarrow> nofail m4 \<and> ps = map (\<lambda>d. Some (slash h @ cstr ''Haze/'' @ cstr d)) sub_dirs"
    by (auto simp: sb sub_dirs_def)
  note L = malloc_live [OF 1] strdup_live [OF 2] strdup_live [OF 3] malloc_nofailD [OF 1]
  have nf: "nofail m \<Longrightarrow> ok \<and> hm = Some h \<and> bp = Some ?base \<and> nofail m3"
    using L 2 3 by (auto simp: strdup_nofail)
  consider "\<not> ok" | "ok" "hm = None" | "ok" "hm \<noteq> None" "bp = None" | "ok" "hm = Some h" "bp = Some ?base"
    using strdup_result [OF 2] strdup_result [OF 3] by auto
  then show ?thesis
  proof cases
    case 4
    define P where "P = \<lparr>pt_home = hm, pt_config = ps ! 0, pt_data = ps ! 1, pt_cache = ps ! 2,
                  pt_projects = ps ! 3, pt_samples = ps ! 4, pt_themes = ps ! 5,
                  pt_plugins = ps ! 6, pt_logs = ps ! 7, pt_instances = ps ! 8\<rparr>"
    let ?dirs = "?base # concat (map (\<lambda>p. fst (EnsureDir (\<lambda>_. True) p)) ps)"
    have eq: "PathsNew (Some h) m = Some (Some P, ?dirs, free1 m4)"
      using 1 2 jb 4 \<open>join_all ?base sub_dirs m3 = Some (ps, m4)\<close> by (simp add: PathsNew_def P_def)
    have "paths_list P = hm # ps"
      using list_of_9 [OF \<open>length ps = 9\<close>] by (simp add: paths_list_def P_def)
    then have "live (PathsFree (Some P) (free1 m4)) = live m"
      using L 4 \<open>live m4 = _\<close> by (simp add: PathsFree_live some_count_def)
    with eq nf 4 \<open>nofail m3 \<longrightarrow> _\<close> show ?thesis
      by (auto simp: P_def PathsGet_def path_of_def EnsureDir_def sub_dirs_def split: PathsEnum.split)
  qed (use 1 2 jb L nf in \<open>auto simp: PathsNew_def PathsFree_def free_opt_live\<close>)
qed

text \<open>
  C32: For a home directory of at most 4000 characters \<^verbatim>\<open>PathsNew\<close> is defined under any allocator, and
  \<^verbatim>\<open>PathsFree\<close> returns every block it took. With memory the path of every key is the directory of that name below
  \<^verbatim>\<open>Haze\<close> in the home directory (the home directory itself for \<^verbatim>\<open>PATHS_HOME\<close>), and the directories made are \<^verbatim>\<open>Haze\<close> and
  then, in this order, its config, data, cache, projects, samples, themes, plugins, logs and instances. That is the
  code's layout, not the one of \<^verbatim>\<open>docs/path.md\<close>: of the directories listed there exactly one, community, is not made, and
  data, themes, plugins and instances are made although it lists none of them.
\<close>

theorem paths_layout:
  assumes "length h \<le> 4000"
  shows "\<exists>pp dirs m'. PathsNew (Some h) m = Some (pp, dirs, m') \<and> live (PathsFree pp m') = live m
    \<and> (nofail m \<longrightarrow> pp \<noteq> None
       \<and> dirs = (slash h @ cstr ''Haze'') # map (\<lambda>d. slash h @ cstr ''Haze/'' @ cstr d) sub_dirs
       \<and> (\<forall>k. PathsGet pp k = Some (path_of h k))
       \<and> filter (\<lambda>d. slash h @ cstr ''Haze/'' @ cstr d \<notin> set dirs) documented_dirs = [''community''])"
proof -
  have "filter (\<lambda>d. slash h @ cstr ''Haze/'' @ cstr d \<notin> set ((slash h @ cstr ''Haze'')
      # map (\<lambda>d. slash h @ cstr ''Haze/'' @ cstr d) sub_dirs)) documented_dirs = [''community'']"
    by (simp add: documented_dirs_def sub_dirs_def cstr_def)
  with PathsNew_outcome [OF assms, of m] show ?thesis by auto
qed

theorem paths_layout_witness:
  "\<exists>pp dirs m'. PathsNew (Some (cstr ''/home/ana'')) \<lparr>outcomes = [], live = 0\<rparr> = Some (pp, dirs, m')
     \<and> PathsGet pp PATHS_INSTANCES = Some (cstr ''/home/ana/Haze/instances'')"
  using paths_layout [of "cstr ''/home/ana''" "\<lparr>outcomes = [], live = 0\<rparr>"]
  by (auto simp: nofail_def cstr_def slash_def path_of_def)

text \<open>
  \<^verbatim>\<open>PathsJoin\<close> of two components that do not fit into its 4096 bytes is undefined: the separator has
  replaced the terminator when the loop stops, and the copy runs on into uninitialised memory. If they
  fit, the result is the first component, a single separator and the second.
\<close>

theorem paths_join_overflow:
  assumes "a \<noteq> []" "last a \<noteq> 0x2f" "length a < 4095"
  shows "PathsJoin [a, b] m =
    (if 4094 \<le> length a + length b then None else Some (strdup (a @ [0x2f] @ b) m))"
  using assms by (simp add: PathsJoin_def Let_def)

theorem paths_join_overflow_witness:
  "PathsJoin [replicate 4090 97, cstr ''Haze''] \<lparr>outcomes = [], live = 0\<rparr> = None"
  using paths_join_overflow [of "replicate 4090 97" "cstr ''Haze''" "\<lparr>outcomes = [], live = 0\<rparr>"]
  by (simp add: cstr_def)

text \<open>The bytes of a registry file.\<close>

definition reg_bytes :: "InstanceReg \<Rightarrow> byte list \<Rightarrow> byte list" where
  "reg_bytes reg nm =
     enc_map_head 4 @ enc_list [MStr (cstr ''pid''), MInt (uint (reg_pid reg)), MStr (cstr ''port''),
       MInt (uint (reg_port reg)), MStr (cstr ''session_name''), MStr nm, MStr (cstr ''created_at''),
       MInt (uint (scast (reg_created_at reg) :: u64))]"

lemma fixed_session:
  assumes "emitted bs (mpack_writer_init n) m w m'"
  shows "m' = m" "w_error w = (if length bs \<le> n then mpack_ok else mpack_error_too_big)"
    "w_error w = mpack_ok \<Longrightarrow> w_used w = length bs \<and> take (w_used w) (w_buffer w) = bs \<and> length bs \<le> length (w_buffer w)"
    "snd (snd (mpack_writer_destroy w m2)) = m2"
proof -
  have i: "w_inv (mpack_writer_init n)" by (simp add: w_inv_def mpack_writer_init_def)
  note E = emittedD [OF assms i]
  show "m' = m" using E(5) by (simp add: mpack_writer_init_def)
  show "w_error w = (if length bs \<le> n then mpack_ok else mpack_error_too_big)"
    using E(9) by (simp add: mpack_writer_init_def)
  show "w_used w = length bs \<and> take (w_used w) (w_buffer w) = bs \<and> length bs \<le> length (w_buffer w)"
    if "w_error w = mpack_ok"
    using emitted_used [OF assms i that] E(1) E(7) [OF that]
    by (auto simp: mpack_writer_init_def w_out_def w_inv_def)
  show "snd (snd (mpack_writer_destroy w m2)) = m2"
    using E(3,4) by (simp add: mpack_writer_destroy_def mpack_writer_init_def)
qed

lemma registry_emitted:
  assumes "length nm < 2 ^ 32" "reg_session_name reg = Some nm"
  shows "\<exists>w m1. emitted (reg_bytes reg nm) (mpack_writer_init 255) m w m1 \<and>
    InstanceRegistryWrite reg m = (if w_error w \<noteq> mpack_ok then Some (None, snd (snd (mpack_writer_destroy w m1)))
             else let (result, m2) = RawBufferNew (Some (w_buffer w)) (w_used w) m1
               in Some (result, snd (snd (mpack_writer_destroy w m2))))"
proof -
  obtain w1 m1 where 1: "mpack_start_map (mpack_writer_init 255) 4 m = (w1, m1)" by fastforce
  obtain w2 m2 where 2: "mpack_write_cstr w1 (cstr ''pid'') m1 = (w2, m2)" by fastforce
  obtain w3 m3 where 3: "mpack_write_u64 w2 (reg_pid reg) m2 = (w3, m3)" by fastforce
  obtain w4 m4 where 4: "mpack_write_cstr w3 (cstr ''port'') m3 = (w4, m4)" by fastforce
  obtain w5 m5 where 5: "mpack_write_u16 w4 (reg_port reg) m4 = (w5, m5)" by fastforce
  obtain w6 m6 where 6: "mpack_write_cstr w5 (cstr ''session_name'') m5 = (w6, m6)" by fastforce
  obtain w7 m7 where 7: "mpack_write_cstr w6 nm m6 = (w7, m7)" by fastforce
  obtain w8 m8 where 8: "mpack_write_cstr w7 (cstr ''created_at'') m7 = (w8, m8)" by fastforce
  obtain w9 m9 where 9: "mpack_write_u64 w8 (scast (reg_created_at reg)) m8 = (w9, m9)" by fastforce
  have c: "length (cstr ''pid'') < 2 ^ 32" "length (cstr ''port'') < 2 ^ 32"
    "length (cstr ''session_name'') < 2 ^ 32" "length (cstr ''created_at'') < 2 ^ 32"
    by (simp_all add: cstr_def)
  have "emitted (reg_bytes reg nm) (mpack_writer_init 255) m w9 m9"
    using emitted_trans [OF emitted_map [OF 1] emitted_trans [OF emitted_cstr [OF 2 c(1)]
      emitted_trans [OF emitted_u64 [OF 3] emitted_trans [OF emitted_cstr [OF 4 c(2)]
      emitted_trans [OF emitted_u16 [OF 5] emitted_trans [OF emitted_cstr [OF 6 c(3)]
      emitted_trans [OF emitted_cstr [OF 7 assms(1)] emitted_trans [OF emitted_cstr [OF 8 c(4)]
      emitted_u64 [OF 9]]]]]]]]]
    by (simp add: reg_bytes_def)
  moreover have "InstanceRegistryWrite reg m = (if w_error w9 \<noteq> mpack_ok then Some (None, snd (snd (mpack_writer_destroy w9 m9)))
             else let (result, m2) = RawBufferNew (Some (w_buffer w9)) (w_used w9) m9
               in Some (result, snd (snd (mpack_writer_destroy w9 m2))))"
    using 1 2 3 4 5 6 7 8 9 assms(2) by (simp add: InstanceRegistryWrite_def)
  ultimately show ?thesis by blast
qed

lemma InstanceRegistryWrite_outcome:
  assumes "length nm < 2 ^ 32" "reg_session_name reg = Some nm"
  shows "\<exists>r m'. InstanceRegistryWrite reg m = Some (r, m')
    \<and> (case r of None \<Rightarrow> live m' = live m
       | Some b \<Rightarrow> rb_bytes b = reg_bytes reg nm \<and> live m' = live m + rb_blocks b)
    \<and> (nofail m \<longrightarrow> (r \<noteq> None \<longleftrightarrow> length (reg_bytes reg nm) \<le> 255))
    \<and> (length nm \<le> 150 \<longrightarrow> length (reg_bytes reg nm) \<le> 255)"
proof -
  obtain w m1 where w: "emitted (reg_bytes reg nm) (mpack_writer_init 255) m w m1"
    "InstanceRegistryWrite reg m = (if w_error w \<noteq> mpack_ok then Some (None, snd (snd (mpack_writer_destroy w m1)))
             else let (result, m2) = RawBufferNew (Some (w_buffer w)) (w_used w) m1
               in Some (result, snd (snd (mpack_writer_destroy w m2))))"
    using registry_emitted [OF assms] by blast
  note F = fixed_session [OF w(1)]
  have short: "length nm \<le> 150 \<Longrightarrow> length (reg_bytes reg nm) \<le> 255"
    by (auto simp: reg_bytes_def enc_map_head_def enc_str_head_def enc_int_def cstr_def)
  show ?thesis
  proof (cases "length (reg_bytes reg nm) \<le> 255")
    case False
    have "\<not> length nm \<le> 150" using False short by blast
    with w(2) F False show ?thesis by simp
  next
    case True
    obtain r m2 where r: "RawBufferNew (Some (w_buffer w)) (w_used w) m = (r, m2)" by fastforce
    have W: "w_used w = length (reg_bytes reg nm)" "take (w_used w) (w_buffer w) = reg_bytes reg nm"
      using F(2) F(3) True by auto
    have ne: "0 < w_used w" by (simp add: W(1) reg_bytes_def enc_map_head_def)
    have eq: "InstanceRegistryWrite reg m = Some (r, m2)"
      using w(2) F True r by simp
    have nf: "nofail m \<Longrightarrow> r \<noteq> None" using r by (auto simp: RawBufferNew_nofail split: if_splits)
    from r show ?thesis
      by (cases rule: RawBufferNew_cases)
        (use eq nf W ne True short in \<open>auto simp: rb_bytes_def rb_blocks_def\<close>)
  qed
qed

text \<open>
  C33: The registry record of an instance is written as the MessagePack map of its pid, port, session
  name and creation time when that fits into 255 bytes (a session name of at most 150 bytes always
  does), and refused otherwise; under any allocator the buffer is the only thing left allocated.
\<close>

theorem registry_content:
  assumes "length nm < 2 ^ 32" "reg_session_name reg = Some nm"
  shows "\<exists>r m'. InstanceRegistryWrite reg m = Some (r, m')
    \<and> (case r of None \<Rightarrow> live m' = live m
       | Some b \<Rightarrow> rb_bytes b = reg_bytes reg nm \<and> live m' = live m + rb_blocks b)
    \<and> (nofail m \<longrightarrow> (r \<noteq> None \<longleftrightarrow> length (reg_bytes reg nm) \<le> 255))
    \<and> (length nm \<le> 150 \<longrightarrow> length (reg_bytes reg nm) \<le> 255)"
  by (rule InstanceRegistryWrite_outcome [OF assms])

theorem registry_content_witness:
  "\<exists>r m'. InstanceRegistryWrite \<lparr>reg_pid = 4711, reg_session_name = Some (cstr ''gizmo_silly''), reg_port = 7192,
       reg_created_at = 1700000000, reg_path = None, reg_open = True\<rparr> \<lparr>outcomes = [], live = 0\<rparr> = Some (Some r, m')"
  using registry_content [of "cstr ''gizmo_silly''" "\<lparr>reg_pid = 4711, reg_session_name = Some (cstr ''gizmo_silly''),
       reg_port = 7192, reg_created_at = 1700000000, reg_path = None, reg_open = True\<rparr>" "\<lparr>outcomes = [], live = 0\<rparr>"]
  by (auto simp: nofail_def cstr_def)

subsection \<open>Ports\<close>

lemma unat_digit: "d < 10 \<Longrightarrow> unat (of_nat (48 + d) :: byte) = 48 + d"
  by (subst unat_of_nat) simp

lemma digits_val_append_digit:
  assumes "\<forall>c \<in> set cs. 48 \<le> c \<and> c \<le> (57 :: byte)" "d < 10"
  shows "digits_val acc (cs @ [of_nat (48 + d)]) = 10 * digits_val acc cs + d"
  using assms
proof (induction cs arbitrary: acc)
  case Nil
  have "unat (of_nat (48 + d) :: byte) = 48 + d" using Nil unat_digit by blast
  then have "(48 :: byte) \<le> of_nat (48 + d)" "of_nat (48 + d) \<le> (57 :: byte)" "unat (of_nat (48 + d) - (48 :: byte)) = d"
    using Nil by (simp_all add: word_le_nat_alt unat_sub del: of_nat_add)
  then show ?case by simp
qed simp

lemma dec_digits: "\<forall>c \<in> set (dec n). 48 \<le> c \<and> c \<le> (57 :: byte)" and digits_val_dec: "digits_val 0 (dec n) = n"
proof (induction n rule: dec.induct)
  case (1 n)
  have d: "(48 :: byte) \<le> of_nat (48 + k) \<and> of_nat (48 + k) \<le> (57 :: byte)" if "k < 10" for k
    using that unat_digit [OF that] by (simp add: word_le_nat_alt del: of_nat_add)
  { case 1
    then show ?case
      using "1.IH"(1) d [of n] d [of "n mod 10"] by (cases "n < 10") (auto simp: dec_small dec_step)
  next
    case 2
    then show ?case
      using "1.IH" digits_val_append_digit [of "[]" n 0] digits_val_append_digit [of "dec (n div 10)" "n mod 10" 0]
      by (cases "n < 10") (auto simp: dec_small dec_step) }
qed

lemma strtoul_dec: "n < 2 ^ 64 \<Longrightarrow> strtoul (dec n) = of_nat n"
proof -
  assume n: "n < 2 ^ 64"
  have ne: "dec n \<noteq> []" by (cases "n < 10") (simp_all add: dec_small dec_step)
  then obtain c cs where c: "dec n = c # cs" by (cases "dec n") auto
  then have "48 \<le> c" "c \<le> 57" using dec_digits [of n] by simp_all
  then have "\<not> is_space c" "c \<noteq> 45" "c \<noteq> 43" by (auto simp: is_space_def word_le_nat_alt)
  with c n digits_val_dec [of n] show ?thesis by (simp add: strtoul_def Let_def)
qed

text \<open>The ports the entries of a directory stand for; \<^verbatim>\<open>.\<close> and \<^verbatim>\<open>..\<close> stand for none.\<close>

definition ports :: "byte list list \<Rightarrow> nat set" where
  "ports es = {unat (strtoul e) |e. e \<in> set es \<and> 0 < strtoul e \<and> strtoul e \<le> 65535}"

lemma strtoul_dots: "strtoul (cstr ''.'') = 0" "strtoul (cstr ''..'') = 0"
  by (simp_all add: strtoul_def cstr_def is_space_def)

lemma port_step_max:
  "unat (port_step e p) =
     (if 0 < strtoul e \<and> strtoul e \<le> 65535 then max (unat p) (unat (strtoul e)) else unat p)"
proof -
  have u: "unat (ucast p :: u64) = unat p" for p :: u16
    by (simp add: unsigned_ucast_eq take_bit_nat_eq_self unsigned_less [THEN order_less_le_trans])
  have d: "unat (ucast v :: u16) = unat v" if "v \<le> 65535" for v :: u64
    using that by (simp add: unsigned_ucast_eq take_bit_nat_eq_self word_le_nat_alt)
  show ?thesis
    using strtoul_dots u [of p] d [of "strtoul e"]
    by (auto simp: port_step_def Let_def word_less_nat_alt word_le_nat_alt max_def)
qed

lemma max_insert_twice:
  fixes a b :: nat
  shows "finite A \<Longrightarrow> Max (insert (max a b) A) = max a (Max (insert b A))"
  by (cases "A = {}") (simp_all add: max.assoc)

lemma finite_ports: "finite (ports es)"
  by (simp add: ports_def)

lemma fold_port_step: "unat (fold port_step es p) = Max (insert (unat p) (ports es))"
proof (induction es arbitrary: p)
  case (Cons e es)
  have "ports (e # es) = (if 0 < strtoul e \<and> strtoul e \<le> 65535 then {unat (strtoul e)} else {}) \<union> ports es"
    by (auto simp: ports_def)
  with Cons show "unat (fold port_step (e # es) p) = Max (insert (unat p) (ports (e # es)))"
    by (auto simp: port_step_max max_insert_twice finite_ports)
qed (simp add: ports_def)

text \<open>
  C34: The last port is the largest port among the file names of the instances directory, and 7191 when
  there is none; so an instance that registered itself under its port is never above the result.
\<close>

theorem last_port_is_maximum:
  assumes "PathsGet pt PATHS_INSTANCES = Some d" "readdir d = Some es"
  shows "unat (InstanceRegistryGetLastPort readdir pt) = (if ports es = {} then 7191 else Max (ports es))
    \<and> (\<forall>p < 65536. 0 < p \<and> dec p \<in> set es \<longrightarrow> p \<le> unat (InstanceRegistryGetLastPort readdir pt))"
proof -
  have pos: "0 < p" if "p \<in> ports es" for p
    using that by (auto simp: ports_def word_less_nat_alt)
  have "unat (fold port_step es 0) = (if ports es = {} then 0 else Max (ports es))"
    using fold_port_step [of es 0] finite_ports [of es] by (simp add: Max_insert max_def)
  moreover have "ports es \<noteq> {} \<Longrightarrow> 0 < Max (ports es)"
    using pos finite_ports [of es] by simp
  ultimately have 1: "unat (InstanceRegistryGetLastPort readdir pt) = (if ports es = {} then 7191 else Max (ports es))"
    using assms by (auto simp: InstanceRegistryGetLastPort_def Let_def unat_eq_0 split: if_splits)
  have "p \<le> Max (ports es) \<and> ports es \<noteq> {}" if "0 < p" "p < 65536" "dec p \<in> set es" for p
  proof -
    have s: "strtoul (dec p) = of_nat p" "unat (of_nat p :: u64) = p"
      using that strtoul_dec [of p] by (simp_all add: unat_of_nat)
    then have "p \<in> ports es"
      using that by (auto simp: ports_def word_less_nat_alt word_le_nat_alt intro!: exI [of _ "dec p"])
    then show ?thesis using finite_ports [of es] by auto
  qed
  with 1 show ?thesis by auto
qed

theorem last_port_is_maximum_witness:
  "7300 \<le> unat (InstanceRegistryGetLastPort (\<lambda>_. Some [cstr ''.'', cstr ''..'', dec 7300, dec 7192])
     (Some \<lparr>pt_home = None, pt_config = None, pt_data = None, pt_cache = None, pt_projects = None,
       pt_samples = None, pt_themes = None, pt_plugins = None, pt_logs = None,
       pt_instances = Some (cstr ''/home/ana/Haze/instances'')\<rparr>))"
  using last_port_is_maximum [of "Some \<lparr>pt_home = None, pt_config = None, pt_data = None, pt_cache = None,
       pt_projects = None, pt_samples = None, pt_themes = None, pt_plugins = None, pt_logs = None,
       pt_instances = Some (cstr ''/home/ana/Haze/instances'')\<rparr>" "cstr ''/home/ana/Haze/instances''"
       "\<lambda>_. Some [cstr ''.'', cstr ''..'', dec 7300, dec 7192]" "[cstr ''.'', cstr ''..'', dec 7300, dec 7192]"]
  by (simp add: PathsGet_def del: One_nat_def) (erule conjE, drule spec [of _ 7300], simp split: if_splits)

end
