(* ===== verification/Haze_Context.thy ===== *)
theory Haze_Context
  imports Haze_Fs
begin

text \<open>
  \<^verbatim>\<open>source/JobQueue.c\<close>, \<^verbatim>\<open>source/JobQueue.h\<close>, \<^verbatim>\<open>source/Context.c\<close>: the jobs, the
  context that owns the session, the paths, the registry file, the audio engine and the two job
  queues.

  What the repository only declares or takes from outside is the record \<open>host\<close>: the answers of
  the audio library, the clock, the two random numbers, the process id, the home directory, the file
  system, libuv's \<^verbatim>\<open>uv_loop_init\<close>, and \<^verbatim>\<open>JobQueueNew\<close> and \<^verbatim>\<open>JobQueuePush\<close>, which \<^verbatim>\<open>JobQueue.h\<close> declares and
  no file defines.
\<close>

subsection \<open>Jobs\<close>

datatype JobType = JOB_SAMPLELIST_ADD | JOB_SAMPLELIST_REMOVE

text \<open>
  A connection pointer is a number. The payload is a \<^verbatim>\<open>void *\<close> into memory somebody else owns: the only one the program
  makes points to the characters of a parameter of the request that is being dispatched, and dangles from the moment
  that request is released.
\<close>

datatype payload = No_payload | In_request "byte list" | Dangling

record Job =
  job_msgid :: u32
  job_connection :: nat
  job_type :: JobType
  job_payload :: payload

record JobQueue =
  jq_capacity :: nat
  jq_len :: nat
  jq_jobs :: "Job option list option"

definition JobInit :: "u32 \<Rightarrow> JobType \<Rightarrow> nat \<Rightarrow> payload \<Rightarrow> Job" where
  "JobInit msgid typeJob conn data =
     \<lparr>job_msgid = msgid, job_connection = conn, job_type = typeJob, job_payload = data\<rparr>"

text \<open>What the release of the request does to the jobs that wait in a queue.\<close>

definition orphan :: "Job \<Rightarrow> Job" where
  "orphan j = j\<lparr>job_payload := (case job_payload j of In_request _ \<Rightarrow> Dangling | p \<Rightarrow> p)\<rparr>"

definition queue_orphaned :: "JobQueue \<Rightarrow> JobQueue" where
  "queue_orphaned q = q\<lparr>jq_jobs := map_option (map (map_option orphan)) (jq_jobs q)\<rparr>"

definition JobQueueSize :: "JobQueue option \<Rightarrow> nat" where
  "JobQueueSize jq = (case jq of None \<Rightarrow> 0 | Some q \<Rightarrow> jq_len q)"

text \<open>
  The loop runs while the vector is \<^verbatim>\<open>NULL\<close> and indexes it; it stands behind the test that the
  vector is not \<^verbatim>\<open>NULL\<close>. \<open>None\<close> would be the read through \<^verbatim>\<open>NULL\<close>.
\<close>

definition JobQueueFree_loop :: "Job option list option \<Rightarrow> mem \<Rightarrow> mem option" where
  "JobQueueFree_loop jobs m = (if jobs = None then None else Some m)"

definition JobQueueFree :: "JobQueue option \<Rightarrow> mem \<Rightarrow> mem option" where
  "JobQueueFree jq m =
     (case jq of
        None \<Rightarrow> Some m
      | Some q \<Rightarrow> if jq_jobs q \<noteq> None then JobQueueFree_loop (jq_jobs q) m else Some m)"

subsection \<open>The host\<close>

text \<open>\<open>h_loop_init\<close> and \<open>h_queue_new\<close> are \<open>None\<close> where the call is undefined.\<close>

record host =
  h_audio :: miniaudio
  h_now :: time_t
  h_rand1 :: nat
  h_rand2 :: nat
  h_pid :: int
  h_home :: "byte list option"
  h_fopen :: "byte list \<Rightarrow> bool"
  h_readdir :: "byte list \<Rightarrow> byte list list option"
  h_loop_init :: "nat option \<Rightarrow> int option"
  h_queue_new :: "mem \<Rightarrow> JobQueue option \<times> mem"
  h_push :: "JobQueue option \<Rightarrow> Job \<Rightarrow> mem \<Rightarrow> JobQueue option \<times> mem"

subsection \<open>The context\<close>

record Context =
  ctx_session :: "Session option"
  ctx_paths :: "Paths option"
  ctx_instanceRegFile :: "InstanceReg option"
  ctx_audioEngine :: bool
  ctx_requests :: "JobQueue option"
  ctx_results :: "JobQueue option"
  ctx_loop :: "nat option"

definition ContextFree :: "Context option \<Rightarrow> mem \<Rightarrow> mem option" where
  "ContextFree cp m =
     (case cp of
        None \<Rightarrow> Some m
      | Some c \<Rightarrow>
          (case JobQueueFree (ctx_results c) m of
             None \<Rightarrow> None
           | Some m \<Rightarrow>
               (case JobQueueFree (ctx_requests c) m of
                  None \<Rightarrow> None
                | Some m \<Rightarrow>
                    let m = InstanceRegistryFree (ctx_instanceRegFile c) m;
                        m = PathsFree (ctx_paths c) m;
                        m = SessionFree (ctx_session c) m;
                        m = AudioEngineFree (ctx_audioEngine c) m
                    in Some (free1 m))))"

text \<open>The label \<^verbatim>\<open>fail\<close>.\<close>

definition ContextNew_fail :: "Context \<Rightarrow> mem \<Rightarrow> (Context option \<times> mem) option" where
  "ContextNew_fail c m = map_option (\<lambda>m. (None, m)) (ContextFree (Some c) m)"

text \<open>From the registry on: the event loop and the two queues.\<close>

definition ContextNew_queues :: "host \<Rightarrow> Context \<Rightarrow> mem \<Rightarrow> (Context option \<times> mem) option" where
  "ContextNew_queues h c m =
     (case h_loop_init h (ctx_loop c) of
        None \<Rightarrow> None
      | Some _ \<Rightarrow>
          let (q, m) = h_queue_new h m;
              c = c\<lparr>ctx_requests := q\<rparr>
          in if q = None then ContextNew_fail c m
             else
               let (q, m) = h_queue_new h m;
                   c = c\<lparr>ctx_results := q\<rparr>
               in if q = None then ContextNew_fail c m else Some (Some c, m))"

definition ContextNew_fs :: "host \<Rightarrow> Context \<Rightarrow> mem \<Rightarrow> (Context option \<times> mem) option" where
  "ContextNew_fs h c m =
     (case PathsNew (h_home h) m of
        None \<Rightarrow> None
      | Some (pt, dirs, m) \<Rightarrow>
          let c = c\<lparr>ctx_paths := pt\<rparr>
          in if pt = None then ContextNew_fail c m
             else
               (case InstanceRegistryNew (h_pid h) (h_fopen h) (ctx_session c) pt 7192 m of
                  None \<Rightarrow> None
                | Some (reg, content, m) \<Rightarrow>
                    let c = c\<lparr>ctx_instanceRegFile := reg\<rparr>
                    in if reg = None then ContextNew_fail c m else ContextNew_queues h c m))"

definition ContextNew :: "host \<Rightarrow> mem \<Rightarrow> (Context option \<times> mem) option" where
  "ContextNew h m =
     (let (ok, m) = malloc m in
      if \<not> ok then Some (None, m)
      else
        let c = \<lparr>ctx_session = None, ctx_paths = None, ctx_instanceRegFile = None, ctx_audioEngine = False,
                 ctx_requests = None, ctx_results = None, ctx_loop = None\<rparr>;
            (eng, m) = AudioEngineNew (h_audio h) m;
            c = c\<lparr>ctx_audioEngine := eng\<rparr>
        in if \<not> eng then ContextNew_fail c m
           else
             (case SessionNew (h_audio h) (h_now h) (h_rand1 h) (h_rand2 h) None eng m of
                None \<Rightarrow> None
              | Some (s, m) \<Rightarrow>
                  let c = c\<lparr>ctx_session := s\<rparr>
                  in if s = None then ContextNew_fail c m else ContextNew_fs h c m))"

text \<open>The context once the request that was dispatched is released: the payloads that pointed into it dangle.\<close>

definition request_gone :: "Context \<Rightarrow> Context" where
  "request_gone c = c\<lparr>ctx_requests := map_option queue_orphaned (ctx_requests c)\<rparr>"

definition ContextGetSession :: "Context \<Rightarrow> Session option" where "ContextGetSession c = ctx_session c"
definition ContextGetPaths :: "Context \<Rightarrow> Paths option" where "ContextGetPaths c = ctx_paths c"
definition ContextGetInstanceRegistry :: "Context \<Rightarrow> InstanceReg option" where
  "ContextGetInstanceRegistry c = ctx_instanceRegFile c"
definition ContextGetAudioEngine :: "Context \<Rightarrow> bool" where "ContextGetAudioEngine c = ctx_audioEngine c"
definition ContextGetRequestQueue :: "Context \<Rightarrow> JobQueue option" where "ContextGetRequestQueue c = ctx_requests c"
definition ContextGetResultQueue :: "Context \<Rightarrow> JobQueue option" where "ContextGetResultQueue c = ctx_results c"

subsection \<open>Blocks\<close>

lemma JobQueueFree_id [simp]: "JobQueueFree jq m = Some m"
  by (auto simp: JobQueueFree_def JobQueueFree_loop_def split: option.split)

definition reg_blocks :: "InstanceReg \<Rightarrow> int" where
  "reg_blocks r = 1 + of_bool (reg_path r \<noteq> None) + of_bool (reg_session_name r \<noteq> None)"

definition paths_blocks :: "Paths \<Rightarrow> int" where
  "paths_blocks p = 1 + some_count (paths_list p)"

text \<open>The blocks \<^verbatim>\<open>ContextFree\<close> releases; the queues are not among them.\<close>

definition ctx_blocks :: "Context \<Rightarrow> int" where
  "ctx_blocks c = 1 + opt_blocks reg_blocks (ctx_instanceRegFile c) + opt_blocks paths_blocks (ctx_paths c)
     + opt_blocks ses_blocks (ctx_session c) + of_bool (ctx_audioEngine c)"

definition ctx_wf :: "Context \<Rightarrow> bool" where
  "ctx_wf c \<longleftrightarrow> (\<exists>s. ctx_session c = Some s \<and> ses_wf s)"

lemma request_gone_keeps [simp]:
  "ctx_session (request_gone c) = ctx_session c" "ctx_blocks (request_gone c) = ctx_blocks c" "ctx_wf (request_gone c) = ctx_wf c"
  by (simp_all add: request_gone_def ctx_blocks_def ctx_wf_def)

lemma InstanceRegistryFree_live: "live (InstanceRegistryFree (Some r) m) = live m - reg_blocks r"
  by (simp add: InstanceRegistryFree_def reg_blocks_def free_opt_live)

lemma ContextFree_live:
  assumes "\<And>s. ctx_session c = Some s \<Longrightarrow> ses_wf s"
  shows "\<exists>m'. ContextFree (Some c) m = Some m' \<and> live m' = live m - ctx_blocks c"
proof -
  have R: "live (InstanceRegistryFree (ctx_instanceRegFile c) m) = live m - opt_blocks reg_blocks (ctx_instanceRegFile c)" for m
    by (cases "ctx_instanceRegFile c") (simp_all add: InstanceRegistryFree_live, simp add: InstanceRegistryFree_def)
  have P: "live (PathsFree (ctx_paths c) m) = live m - opt_blocks paths_blocks (ctx_paths c)" for m
    by (cases "ctx_paths c") (simp_all add: PathsFree_live paths_blocks_def, simp add: PathsFree_def)
  have S: "live (SessionFree (ctx_session c) m) = live m - opt_blocks ses_blocks (ctx_session c)" for m
    using assms by (cases "ctx_session c") (simp_all add: SessionFree_wf, simp add: SessionFree_def)
  show ?thesis by (simp add: ContextFree_def R P S AudioEngineFree_def ctx_blocks_def)
qed

lemma ContextNew_fail_live:
  assumes "\<And>s. ctx_session c = Some s \<Longrightarrow> ses_wf s"
  shows "\<exists>m'. ContextNew_fail c m = Some (None, m') \<and> live m' = live m - ctx_blocks c"
  using ContextFree_live [of c m] assms by (auto simp: ContextNew_fail_def)

lemma PathsJoin_strdup: "PathsJoin ps m = Some (p, m') \<Longrightarrow> \<exists>s. strdup s m = (p, m')"
  by (auto simp: PathsJoin_def split: option.splits)

lemma InstanceRegistryNew_live:
  assumes "InstanceRegistryNew pid fo (Some s) pt port m = Some (r, content, m')"
    and "ses_name s = Some nm" "length nm < 2 ^ 32"
  shows "case r of None \<Rightarrow> live m \<le> live m' \<and> live m' \<le> live m + 2 | Some reg \<Rightarrow> live m' = live m + reg_blocks reg"
proof -
  obtain ok m1 where 1: "malloc m = (ok, m1)" by fastforce
  obtain n m2 where 2: "strdup nm m1 = (n, m2)" by fastforce
  note L = malloc_live [OF 1] strdup_live [OF 2]
  have name: "SessionGetName (Some s) = nm" "SessionGetCreatedAt (Some s) = Some (ses_created_at s)"
    using assms(2) by (simp_all add: SessionGetName_def SessionGetCreatedAt_def)
  show ?thesis
  proof (cases ok)
    case False
    then show ?thesis using assms(1) L by (auto simp: InstanceRegistryNew_def 1)
  next
    case True
    obtain path m3 where 3: "PathsJoin (case PathsGet pt PATHS_INSTANCES of None \<Rightarrow> [] | Some d \<Rightarrow> [d, dec (unat port)]) m2
        = Some (Some path, m3)"
      using assms(1) True 1 2 by (auto simp: InstanceRegistryNew_def name split: option.splits)
    have l3: "live m3 = live m2 + 1" using PathsJoin_strdup [OF 3] by (auto dest: strdup_live)
    define reg where "reg = \<lparr>reg_pid = of_int pid, reg_session_name = n, reg_port = port,
                                reg_created_at = ucast (ses_created_at s), reg_path = Some path, reg_open = True\<rparr>"
    have eq: "InstanceRegistryNew pid fo (Some s) pt port m =
      (if \<not> fo path then Some (None, [], free1 m3)
       else (case InstanceRegistryWrite reg m3 of
               None \<Rightarrow> None
             | Some (None, m) \<Rightarrow> Some (None, [], free1 (free_opt n m))
             | Some (Some content, m) \<Rightarrow> Some (Some reg, rb_bytes content, RawBufferFree (Some content) m)))"
      using True 1 2 3 unfolding reg_def by (simp add: InstanceRegistryNew_def name Let_def)
    show ?thesis
    proof (cases "fo path")
      case False
      then show ?thesis using assms(1) eq L l3 True by (auto split: if_splits)
    next
      case fo: True
      have "n = Some nm"
      proof (rule ccontr)
        assume "n \<noteq> Some nm"
        then have "InstanceRegistryWrite reg m3 = None"
          using strdup_result [OF 2] by (simp add: InstanceRegistryWrite_def reg_def)
        with eq fo assms(1) show False by simp
      qed
      then have "reg_session_name reg = Some nm" by (simp add: reg_def)
      from InstanceRegistryWrite_outcome [OF assms(3) this, of m3] obtain b m4 where
        4: "InstanceRegistryWrite reg m3 = Some (b, m4)"
           "case b of None \<Rightarrow> live m4 = live m3 | Some b \<Rightarrow> live m4 = live m3 + rb_blocks b"
        by (auto split: option.splits)
      show ?thesis
        using assms(1) eq fo 4 L l3 True \<open>n = Some nm\<close>
        by (cases b) (auto simp: free_opt_live reg_blocks_def reg_def RawBufferFree_live)
    qed
  qed
qed

lemma SessionNew_random:
  assumes "SessionNew ma now r1 r2 None eng m = Some (r, m')"
  shows "case r of None \<Rightarrow> live m' = live m
    | Some s \<Rightarrow> ses_wf s \<and> live m' = live m + ses_blocks s \<and> (\<exists>nm. ses_name s = Some nm \<and> length nm < 20)"
  using session_new_random_facts(2) [OF assms] random_name_short(2) [of r1 r2]
  by (cases r) (auto simp: SessionFree_wf random_name_def)

lemma AudioEngineNew_live: "AudioEngineNew ma m = (eng, m') \<Longrightarrow> live m' = live m + of_bool eng"
  by (auto simp: AudioEngineNew_def dest!: malloc_live split: prod.splits if_splits)

lemma ContextNew_fs_outcome:
  assumes "ContextNew_fs h c m = Some (r, m')" "h_loop_init h None = None" "ctx_loop c = None"
    and "ctx_session c = Some s" "ses_wf s" "ses_name s = Some nm" "length nm < 20"
    and "ctx_paths c = None" "ctx_instanceRegFile c = None"
    and "\<And>home. h_home h = Some home \<Longrightarrow> length home \<le> 4000"
  shows "r = None \<and> live m - ctx_blocks c \<le> live m' \<and> live m' \<le> live m - ctx_blocks c + 2"
proof -
  obtain pt dirs m1 where 1: "PathsNew (h_home h) m = Some (pt, dirs, m1)"
    using assms(1) by (auto simp: ContextNew_fs_def split: option.splits)
  have p: "live m1 = live m + opt_blocks paths_blocks pt"
  proof (cases "h_home h")
    case None
    then show ?thesis using 1 by (simp add: PathsNew_def)
  next
    case (Some home)
    then have "live (PathsFree pt m1) = live m"
      using PathsNew_outcome [OF assms(10) [OF Some], of m] 1 by auto
    then show ?thesis by (cases pt) (simp_all add: PathsFree_live paths_blocks_def, simp add: PathsFree_def)
  qed
  show ?thesis
  proof (cases pt)
    case None
    with 1 assms p ContextNew_fail_live [of "c\<lparr>ctx_paths := None\<rparr>" m1] show ?thesis
      by (auto simp: ContextNew_fs_def ctx_blocks_def)
  next
    case (Some P)
    then obtain reg content m2 where 2: "InstanceRegistryNew (h_pid h) (h_fopen h) (Some s) pt 7192 m1 = Some (reg, content, m2)"
      using assms(1,4) 1 by (auto simp: ContextNew_fs_def split: option.splits)
    have "reg = None"
      using assms(1-4) 1 2 Some by (auto simp: ContextNew_fs_def ContextNew_queues_def Let_def split: if_splits)
    with InstanceRegistryNew_live [OF 2 assms(6)] assms(1,4-9) 1 2 Some p
      ContextNew_fail_live [of "c\<lparr>ctx_paths := pt, ctx_instanceRegFile := None\<rparr>" m2]
    show ?thesis by (auto simp: ContextNew_fs_def ctx_blocks_def)
  qed
qed

lemma ContextNew_never_ready:
  assumes "h_loop_init h None = None" "\<And>home. h_home h = Some home \<Longrightarrow> length home \<le> 4000"
    and "ContextNew h m = Some (r, m')"
  shows "r = None \<and> live m \<le> live m' \<and> live m' \<le> live m + 2"
proof -
  obtain ok m1 where 1: "malloc m = (ok, m1)" by fastforce
  obtain eng m2 where 2: "AudioEngineNew (h_audio h) m1 = (eng, m2)" by fastforce
  note L = malloc_live [OF 1] AudioEngineNew_live [OF 2]
  let ?c = "\<lparr>ctx_session = None, ctx_paths = None, ctx_instanceRegFile = None, ctx_audioEngine = eng,
                 ctx_requests = None, ctx_results = None, ctx_loop = None\<rparr>"
  consider "\<not> ok" | "ok" "\<not> eng" | "ok" "eng" by blast
  then show ?thesis
  proof cases
    case 1
    then show ?thesis using assms(3) L \<open>malloc m = _\<close> by (auto simp: ContextNew_def)
  next
    case 2
    then show ?thesis using assms(3) L \<open>malloc m = _\<close> \<open>AudioEngineNew _ _ = _\<close> ContextNew_fail_live [of ?c m2]
      by (auto simp: ContextNew_def ctx_blocks_def)
  next
    case 3
    obtain s m3 where s: "SessionNew (h_audio h) (h_now h) (h_rand1 h) (h_rand2 h) None True m2 = Some (s, m3)"
        "(if s = None then ContextNew_fail ?c m3 else ContextNew_fs h (?c\<lparr>ctx_session := s\<rparr>) m3) = Some (r, m')"
      using assms(3) \<open>malloc m = _\<close> \<open>AudioEngineNew _ _ = _\<close> 3
      by (auto simp: ContextNew_def Let_def split: option.splits if_splits)
    show ?thesis
    proof (cases s)
      case None
      with s 3 L SessionNew_random [OF s(1)] ContextNew_fail_live [of ?c m3] show ?thesis
        by (auto simp: ctx_blocks_def)
    next
      case (Some ss)
      with s have fs: "ContextNew_fs h (?c\<lparr>ctx_session := Some ss\<rparr>) m3 = Some (r, m')" by simp
      have "ses_wf ss \<and> live m3 = live m2 + ses_blocks ss \<and> (\<exists>nm. ses_name ss = Some nm \<and> length nm < 20)"
        using SessionNew_random [OF s(1)] Some by simp
      then show ?thesis
        using ContextNew_fs_outcome [OF fs assms(1)] assms(2) L 3 by (fastforce simp: ctx_blocks_def)
    qed
  qed
qed

text \<open>A host on which every step of \<^verbatim>\<open>ContextNew\<close> up to the event loop succeeds.\<close>

definition working_host :: "host \<Rightarrow> bool" where
  "working_host h \<longleftrightarrow> ma_ok (h_audio h) [] Engine_init \<and> ma_ok (h_audio h) [] Group_init \<and> h_home h \<noteq> None
     \<and> (\<forall>path. h_fopen h path)"

lemma InstanceRegistryNew_nofail:
  assumes "nofail m" "\<And>path. fo path" "ses_name s = Some nm" "length nm < 20"
    and "PathsGet pt PATHS_INSTANCES = Some d" "d \<noteq> []" "last d \<noteq> 0x2f" "length d \<le> 4080"
  shows "\<exists>reg content m'. InstanceRegistryNew pid fo (Some s) pt 7192 m = Some (Some reg, content, m')"
proof -
  obtain m1 m2 where M: "malloc m = (True, m1)" "strdup nm m1 = (Some nm, m2)" "nofail m2"
    using assms(1) by (simp add: alloc_simps)
  have dec: "dec 7192 = [55, 49, 57, 50]" by (simp add: dec_step dec_small)
  have J: "PathsJoin [d, dec (unat (7192 :: u16))] m2 = Some (strdup (d @ [0x2f] @ dec 7192) m2)"
    using assms(6-8) by (simp add: PathsJoin_def Let_def dec)
  obtain path m3 where 3: "strdup (d @ [0x2f] @ dec 7192) m2 = (Some path, m3)" "nofail m3"
    using M(3) by (simp add: alloc_simps)
  obtain b m4 where "InstanceRegistryWrite \<lparr>reg_pid = of_int pid, reg_session_name = Some nm, reg_port = 7192,
      reg_created_at = ucast (ses_created_at s), reg_path = Some path, reg_open = True\<rparr> m3 = Some (Some b, m4)"
    using InstanceRegistryWrite_outcome [of nm "\<lparr>reg_pid = of_int pid, reg_session_name = Some nm, reg_port = 7192,
      reg_created_at = ucast (ses_created_at s), reg_path = Some path, reg_open = True\<rparr>" m3] assms(4) 3(2) by auto
  then show ?thesis
    using M J 3 assms(2,3,5) by (simp add: InstanceRegistryNew_def SessionGetName_def SessionGetCreatedAt_def Let_def)
qed

lemma ContextNew_reaches_loop:
  assumes "working_host h" "\<And>home. h_home h = Some home \<Longrightarrow> length home \<le> 4000" "nofail m"
  shows "\<exists>c m'. ContextNew h m = ContextNew_queues h c m' \<and> ctx_loop c = None \<and> ctx_audioEngine c
    \<and> ctx_session c \<noteq> None \<and> ctx_paths c \<noteq> None \<and> ctx_instanceRegFile c \<noteq> None"
proof -
  obtain home where home: "h_home h = Some home" "length home \<le> 4000" using assms(1,2) by (auto simp: working_host_def)
  obtain m2 where 2: "AudioEngineNew (h_audio h) (mem_add 1 m) = (True, m2)" "nofail m2"
    using assms(1,3) by (simp add: AudioEngineNew_def working_host_def alloc_simps)
  obtain s m3 where 3: "SessionNew (h_audio h) (h_now h) (h_rand1 h) (h_rand2 h) None True m2 = Some (Some s, m3)" "nofail m3"
    using session_new_random_nofail [OF 2(2)] assms(1) unfolding working_host_def by blast
  obtain nm where nm: "ses_name s = Some nm" "length nm < 20" using SessionNew_random [OF 3(1)] by auto
  obtain P dirs m4 where 4: "PathsNew (Some home) m3 = Some (Some P, dirs, m4)" "nofail m4"
      "\<And>k. PathsGet (Some P) k = Some (path_of home k)"
    using PathsNew_outcome [OF home(2), of m3] 3(2) by auto
  have d: "PathsGet (Some P) PATHS_INSTANCES = Some (slash home @ cstr ''Haze/'' @ cstr ''instances'')"
    using 4(3) by (simp add: path_of_def)
  obtain reg content m5 where 5: "InstanceRegistryNew (h_pid h) (h_fopen h) (Some s) (Some P) 7192 m4 = Some (Some reg, content, m5)"
    using InstanceRegistryNew_nofail [OF 4(2) _ nm d, of "h_fopen h" "h_pid h"] assms(1) home(2) length_slash [of home]
    by (auto simp: working_host_def cstr_def)
  show ?thesis using assms(3) 2 3 4 5 home(1)
    by (intro exI) (auto simp: ContextNew_def ContextNew_fs_def alloc_simps)
qed

text \<open>
  The context never becomes ready: \<^verbatim>\<open>ContextNew\<close> hands the event loop library the \<^verbatim>\<open>NULL\<close> loop of the
  zeroed context, so under any allocator and whatever the audio library and the file system answer,
  a call that returns gives \<^verbatim>\<open>NULL\<close>. It has then released everything except at most the two strings
  of a registry that could not be opened.
\<close>

theorem context_new_never_ready:
  assumes "h_loop_init h None = None" "\<And>home. h_home h = Some home \<Longrightarrow> length home \<le> 4000"
    and "ContextNew h m = Some (r, m')"
  shows "r = None \<and> live m \<le> live m' \<and> live m' \<le> live m + 2"
  by (rule ContextNew_never_ready [OF assms])

text \<open>A host with an audio device, a home directory and a writable file system.\<close>

definition quiet_audio :: miniaudio where
  "quiet_audio = \<lparr>ma_ok = (\<lambda>_ _. True), ma_frames = (\<lambda>_. 0), ma_cursor = (\<lambda>_. 0), ma_is_playing = (\<lambda>_. False),
     ma_engine_rate = 48000, os_readable = (\<lambda>_. True)\<rparr>"

definition plain_host :: host where
  "plain_host = \<lparr>h_audio = quiet_audio, h_now = 1700000000, h_rand1 = 3, h_rand2 = 4, h_pid = 4711,
     h_home = Some (cstr ''/home/ana''), h_fopen = (\<lambda>_. True), h_readdir = (\<lambda>_. Some []),
     h_loop_init = (\<lambda>l. case l of None \<Rightarrow> None | Some _ \<Rightarrow> Some 0),
     h_queue_new = (\<lambda>m. (Some \<lparr>jq_capacity = 8, jq_len = 0, jq_jobs = Some []\<rparr>, mem_add 2 m)),
     h_push = (\<lambda>q j m. (map_option (\<lambda>q. q\<lparr>jq_jobs := map_option (\<lambda>js. js @ [Some j]) (jq_jobs q),
        jq_len := jq_len q + 1\<rparr>) q, m))\<rparr>"

theorem context_new_never_ready_witness:
  "\<exists>m'. ContextNew plain_host \<lparr>outcomes = [True, False], live = 0\<rparr> = Some (None, m') \<and> live m' \<le> 2"
  using context_new_never_ready [of plain_host "\<lparr>outcomes = [True, False], live = 0\<rparr>"]
  by (simp add: ContextNew_def malloc_def mem_add_def AudioEngineNew_def ContextNew_fail_def ContextFree_def
      plain_host_def cstr_def AudioEngineFree_def InstanceRegistryFree_def PathsFree_def SessionFree_def Let_def)

end
