(* ===== verification/Haze_Request.thy ===== *)
theory Haze_Request
  imports Haze_Response
begin

text \<open>
  \<^verbatim>\<open>source/api/proto/Request.c\<close>: MessagePack-RPC requests \<^verbatim>\<open>[type, msgid, method, params]\<close>, their
  encoding, and the decoder the server runs on every connection, which also reports how many bytes
  of the stream it consumed (by shortening the buffer it was given).
\<close>

unbundle bit_operations_syntax

record Request =
  req_type :: u32
  req_msgid :: u32
  req_method :: "byte list option"
  req_parameters :: "ObjectArray option"

definition RequestNew :: "mem \<Rightarrow> Request option \<times> mem" where
  "RequestNew m =
     (let (ok, m) = malloc m in
      if \<not> ok then (None, m)
      else
        let (ok, m) = malloc m in
        if \<not> ok then (None, free1 m)
        else
          let (ps, m) = ObjectArrayCreate m in
          if ps = None then (None, free1 (free1 m))
          else (Some \<lparr>req_type = HAZE_RPC_REQUEST, req_msgid = 0, req_method = Some [],
                      req_parameters = ps\<rparr>, m))"

definition RequestParamNew :: "mem \<Rightarrow> Object option \<times> mem" where
  "RequestParamNew m = ObjectNew m"

definition RequestParamFree :: "Object option \<Rightarrow> mem \<Rightarrow> mem" where
  "RequestParamFree ob m = ObjectFree ob m"

definition RequestParamGet :: "Request option \<Rightarrow> nat \<Rightarrow> Object option" where
  "RequestParamGet r index =
     (case r of
        None \<Rightarrow> None
      | Some rq \<Rightarrow>
          (case req_parameters rq of
             None \<Rightarrow> None
           | Some ps \<Rightarrow>
               if index < ObjectArrayLen (Some ps) then arr_objects ps ! index else None))"

definition RequestParamCount :: "Request option \<Rightarrow> u32" where
  "RequestParamCount r =
     (case r of
        None \<Rightarrow> 0
      | Some rq \<Rightarrow>
          (case req_parameters rq of None \<Rightarrow> 0 | Some ps \<Rightarrow> to_u32 (ObjectArrayLen (Some ps))))"

definition RequestParamIsType :: "Request option \<Rightarrow> ObjectType \<Rightarrow> nat \<Rightarrow> bool" where
  "RequestParamIsType r type index =
     (case r of
        None \<Rightarrow> False
      | Some rq \<Rightarrow>
          (case req_parameters rq of
             None \<Rightarrow> False
           | Some ps \<Rightarrow>
               (case ObjectArrayGet (Some ps) index of
                  None \<Rightarrow> False
                | Some param \<Rightarrow> value_type (obj_value param) = type)))"

text \<open>
  The loop that fills the gap before an index with nil objects. Every iteration lengthens the array
  or uses up a failed allocation; an allocator that fails for ever would keep the C loop running.
\<close>

definition append_nil :: "ObjectArray \<Rightarrow> mem \<Rightarrow> ObjectArray \<times> mem" where
  "append_nil ps m =
     (let (nil, m) = ObjectCreateNil m;
          (_, ps', m) = ObjectArrayAppend (Some ps) nil m
      in (case ps' of None \<Rightarrow> ps | Some a \<Rightarrow> a, m))"

lemma malloc_outcomes:
  "malloc m = (ok, m') \<Longrightarrow>
   length (outcomes m') \<le> length (outcomes m) \<and> (\<not> ok \<longrightarrow> length (outcomes m') < length (outcomes m))"
  by (auto simp: malloc_def mem_add_def split: list.splits if_splits)

lemma realloc_outcomes:
  "realloc (Some x) m = (ok, m') \<Longrightarrow>
   length (outcomes m') \<le> length (outcomes m) \<and> (\<not> ok \<longrightarrow> length (outcomes m') < length (outcomes m))"
  by (auto simp: realloc_def free1_def mem_add_def dest: malloc_outcomes split: prod.splits if_splits)

lemma append_nil_progress:
  assumes "append_nil ps m = (ps', m')"
  shows "length (arr_objects ps') = Suc (length (arr_objects ps)) \<and> length (outcomes m') \<le> length (outcomes m)
    \<or> length (arr_objects ps') = length (arr_objects ps) \<and> length (outcomes m') < length (outcomes m)"
proof -
  obtain ok1 m1 where 1: "malloc m = (ok1, m1)" by fastforce
  obtain ok2 ps2 m2 where 2: "array_reserve ps m1 = (ok2, ps2, m2)" by (metis prod_cases3)
  obtain ok3 m3 where 3: "malloc m2 = (ok3, m3)" by fastforce
  have R: "arr_objects ps2 = arr_objects ps \<and> length (outcomes m2) \<le> length (outcomes m1)
      \<and> (\<not> ok2 \<longrightarrow> length (outcomes m2) < length (outcomes m1))"
    using 2 realloc_outcomes [of "()" m1]
    by (auto simp: array_reserve_def split: if_splits prod.splits)
  show ?thesis
    using assms malloc_outcomes [OF 1] malloc_outcomes [OF 3] R 1 2 3
    by (auto simp: append_nil_def create_defs create_with_def ObjectNew_def split: if_splits)
qed

function fill_nils :: "nat \<Rightarrow> ObjectArray \<Rightarrow> mem \<Rightarrow> ObjectArray \<times> mem" where
  "fill_nils ind ps m =
     (if length (arr_objects ps) < ind
      then fill_nils ind (fst (append_nil ps m)) (snd (append_nil ps m))
      else (ps, m))"
  by pat_completeness auto
termination
proof (relation "measure (\<lambda>(ind, ps, m). (ind - length (arr_objects ps)) + length (outcomes m))")
  fix ind :: nat and ps m
  assume "length (arr_objects ps) < ind"
  then show "((ind, fst (append_nil ps m), snd (append_nil ps m)), (ind, ps, m))
      \<in> measure (\<lambda>(ind, ps, m). (ind - length (arr_objects ps)) + length (outcomes m))"
    using append_nil_progress [of ps m "fst (append_nil ps m)" "snd (append_nil ps m)"]
    by (auto simp: case_prod_beta)
qed simp

declare fill_nils.simps [simp del]

definition RequestParamAppend ::
  "Request option \<Rightarrow> Object option \<Rightarrow> nat \<Rightarrow> mem \<Rightarrow> bool \<times> Request option \<times> mem" where
  "RequestParamAppend rq param ind m =
     (case rq of
        None \<Rightarrow> (False, None, m)
      | Some q \<Rightarrow>
          (case req_parameters q of
             None \<Rightarrow> (False, Some q, m)
           | Some ps \<Rightarrow>
               if param = None then (False, Some q, m)
               else if ind = ObjectArrayLen (Some ps) then
                 (let (ok, ps', m) = ObjectArrayAppend (Some ps) param m
                  in (ok, Some (q\<lparr>req_parameters := ps'\<rparr>), m))
               else if ind < ObjectArrayLen (Some ps) then
                 (if arr_objects ps ! ind \<noteq> None then (False, Some q, m)
                  else (True, Some (q\<lparr>req_parameters :=
                          Some (ObjectArray ((arr_objects ps)[ind := param]) (arr_capacity ps))\<rparr>), m))
               else
                 (let (ps, m) = fill_nils ind ps m;
                      (ok, ps', m) = ObjectArrayAppend (Some ps) param m
                  in (ok, Some (q\<lparr>req_parameters := ps'\<rparr>), m))))"

definition RequestSetMethod :: "Request option \<Rightarrow> byte list option \<Rightarrow> mem \<Rightarrow> Request option \<times> mem" where
  "RequestSetMethod request method m =
     (case request of
        None \<Rightarrow> (None, m)
      | Some q \<Rightarrow>
          (let m = free_opt (req_method q) m
           in case method of
                None \<Rightarrow> (Some (q\<lparr>req_method := None\<rparr>), m)
              | Some s \<Rightarrow>
                  (let (ok, m) = malloc m
                   in if \<not> ok then (Some (q\<lparr>req_method := None\<rparr>), m)
                      else (Some (q\<lparr>req_method := Some s\<rparr>), m))))"

definition RequestFree :: "Request option \<Rightarrow> mem \<Rightarrow> mem" where
  "RequestFree request m =
     (case request of
        None \<Rightarrow> m
      | Some q \<Rightarrow> free1 (ObjectArrayFree (req_parameters q) (free_opt (req_method q) m)))"

definition RequestMarshal :: "Request option \<Rightarrow> mem \<Rightarrow> (RawBuffer option \<times> mem) option" where
  "RequestMarshal request m =
     (case request of
        None \<Rightarrow> Some (None, m)
      | Some q \<Rightarrow>
          (let (w, m) = mpack_writer_init_growable m
           in if w_error w \<noteq> mpack_ok then Some (None, m)
              else
                let (w, m) = mpack_start_array w 4 m;
                    (w, m) = mpack_write_uint w (ucast (req_type q)) m;
                    (w, m) = mpack_write_uint w (ucast (req_msgid q)) m;
                    (w, m) = (case req_method q of
                                Some s \<Rightarrow> mpack_write_str w s m
                              | None \<Rightarrow> mpack_write_nil w m);
                    param_count = RequestParamCount (Some q);
                    (w, m) = mpack_start_array w param_count m
                in do {
                  (w, m) \<leftarrow> RequestObjectMarshalMPack_loop
                       (map (ObjectArrayGet (req_parameters q)) [0..<unat param_count]) w m;
                  let (err, data, m) = mpack_writer_destroy w m;
                  if err \<noteq> mpack_ok then Some (None, free_opt data m)
                  else
                    let (buffer, m) = RawBufferNew data (case data of None \<Rightarrow> 0 | Some d \<Rightarrow> length d) m
                    in if buffer = None then Some (None, free_opt data m) else Some (buffer, m)
                }))"

subsection \<open>Unmarshalling\<close>

text \<open>
  One parameter. The result is \<open>None\<close> for undefined behaviour (an unchecked allocation failed), a
  pair with \<open>None\<close> for a tag the \<^verbatim>\<open>switch\<close> skips, and otherwise the object to append, which may be
  \<^verbatim>\<open>NULL\<close>.
\<close>

definition RequestUnmarshal_param ::
  "mpack_tag \<Rightarrow> mpack_reader \<Rightarrow> mem \<Rightarrow> (Object option option \<times> mpack_reader \<times> mem) option" where
  "RequestUnmarshal_param tag r m =
     (case tag of
        Tag_nil \<Rightarrow> (let (ob, m) = ObjectCreateNil m in Some (Some ob, r, m))
      | Tag_bool v \<Rightarrow> (let (ob, m) = ObjectCreateBool v m in Some (Some ob, r, m))
      | Tag_int v \<Rightarrow> (let (ob, m) = ObjectCreateInt v m in Some (Some ob, r, m))
      | Tag_uint v \<Rightarrow> (let (ob, m) = ObjectCreateUInt v m in Some (Some ob, r, m))
      | Tag_float v \<Rightarrow> (let (ob, m) = ObjectCreateFloat v m in Some (Some ob, r, m))
      | Tag_double v \<Rightarrow> (let (ob, m) = ObjectCreateDouble v m in Some (Some ob, r, m))
      | Tag_str len \<Rightarrow>
          (let (ok, m) = malloc m in
           if \<not> ok then None
           else
             let (buff, r) = mpack_read_bytes r (unat len);
                 (ob, m) = ObjectCreateStr (Some (until_nul buff)) m
             in Some (Some ob, r, m))
      | Tag_bin len \<Rightarrow>
          (let (ok, m) = malloc m in
           if \<not> ok \<and> 0 < unat len then None
           else
             let (buff, r) = mpack_read_bytes r (unat len);
                 (ob, m) = ObjectNew m
             in if ob = None then None
                else
                  let (rb, m) = RawBufferNew (if ok then Some buff else None) (unat len) m
                  in Some (Some (Some (Object (V_BIN rb) (unat len))), r, m))
      | _ \<Rightarrow> Some (None, r, m))"

text \<open>The temporary block of a string or binary is released after the append.\<close>

definition param_buff :: "mpack_tag \<Rightarrow> bool" where
  "param_buff tag = (case tag of Tag_str _ \<Rightarrow> True | Tag_bin _ \<Rightarrow> True | _ \<Rightarrow> False)"

fun RequestUnmarshal_params ::
  "nat \<Rightarrow> nat \<Rightarrow> Request \<Rightarrow> mpack_reader \<Rightarrow> mem \<Rightarrow> (Request \<times> mpack_reader \<times> mem) option" where
  "RequestUnmarshal_params 0 i rq r m = Some (rq, r, m)"
| "RequestUnmarshal_params (Suc n) i rq r m =
     (let (tag, r) = mpack_read_tag r
      in case RequestUnmarshal_param tag r m of
           None \<Rightarrow> None
         | Some (None, r, m) \<Rightarrow> RequestUnmarshal_params n (Suc i) rq r m
         | Some (Some ob, r, m) \<Rightarrow>
             (let (_, rq', m) = RequestParamAppend (Some rq) ob i m;
                  m = (if param_buff tag then free1 m else m)
              in RequestUnmarshal_params n (Suc i) (case rq' of None \<Rightarrow> rq | Some q \<Rightarrow> q) r m))"

text \<open>The \<^verbatim>\<open>fail\<close> label: the partly built request is released.\<close>

definition request_fail :: "RawBuffer \<Rightarrow> Request option \<Rightarrow> mem \<Rightarrow> (Request option \<times> RawBuffer \<times> mem) option" where
  "request_fail b rq m = Some (None, b, RequestFree rq m)"

text \<open>From the method field on.\<close>

definition RequestUnmarshal_body ::
  "RawBuffer \<Rightarrow> Request \<Rightarrow> mpack_reader \<Rightarrow> mem \<Rightarrow> (Request option \<times> RawBuffer \<times> mem) option" where
  "RequestUnmarshal_body b rq r m =
     (let (tag, r) = mpack_read_tag r
      in case tag of
           Tag_str method_len \<Rightarrow>
             (let (bytes, r) = mpack_read_bytes_inplace r (unat method_len)
              in case bytes of
                   None \<Rightarrow> request_fail b (Some rq) m
                 | Some method_bytes \<Rightarrow>
                     (let (ok, m) = malloc m in
                      if \<not> ok then request_fail b (Some rq) m
                      else
                        let (rq', m) = RequestSetMethod (Some rq) (Some (until_nul method_bytes)) m;
                            rq = (case rq' of None \<Rightarrow> rq | Some q \<Rightarrow> q);
                            m = free1 m;
                            (tag, r) = mpack_read_tag r
                        in case tag of
                             Tag_array count \<Rightarrow>
                               (case RequestUnmarshal_params (unat count) 0 rq r m of
                                  None \<Rightarrow> None
                                | Some (rq, r, m) \<Rightarrow>
                                    Some (Some rq, b\<lparr>rb_len := rb_len b - mpack_reader_remaining r\<rparr>, m))
                           | _ \<Rightarrow> request_fail b (Some rq) m))
         | _ \<Rightarrow> request_fail b (Some rq) m)"

text \<open>Reading an integer header field: 64-bit tags are cut to 32 bits.\<close>

definition header_int :: "mpack_tag \<Rightarrow> u32 option" where
  "header_int tag = (case tag of Tag_uint v \<Rightarrow> Some (ucast v) | Tag_int v \<Rightarrow> Some (ucast v) | _ \<Rightarrow> None)"

definition RequestUnmarshal_from ::
  "RawBuffer \<Rightarrow> byte list \<Rightarrow> mem \<Rightarrow> (Request option \<times> RawBuffer \<times> mem) option" where
  "RequestUnmarshal_from b bs m =
     (let r = mpack_reader_init_data bs;
          (tag, r) = mpack_read_tag r
      in if tag \<noteq> Tag_array 4 then request_fail b None m
         else
           let (rq, m) = RequestNew m;
               (tag, r) = mpack_read_tag r
           in case header_int tag of
                None \<Rightarrow> request_fail b rq m
              | Some type \<Rightarrow>
                  (case rq of
                     None \<Rightarrow> None
                   | Some rq \<Rightarrow>
                       (let rq = rq\<lparr>req_type := type\<rparr>
                        in if type \<noteq> HAZE_RPC_REQUEST then request_fail b (Some rq) m
                           else
                             let (tag, r) = mpack_read_tag r
                             in case header_int tag of
                                  None \<Rightarrow> request_fail b (Some rq) m
                                | Some msgid \<Rightarrow>
                                    RequestUnmarshal_body b (rq\<lparr>req_msgid := msgid\<rparr>) r m)))"

definition RequestUnmarshal ::
  "RawBuffer option \<Rightarrow> mem \<Rightarrow> (Request option \<times> RawBuffer option \<times> mem) option" where
  "RequestUnmarshal b m =
     (case b of
        None \<Rightarrow> Some (None, None, m)
      | Some rb \<Rightarrow>
          if RawBufferLen b = 0 then Some (None, b, m)
          else
            (case RawBufferData b of
               None \<Rightarrow> None
             | Some d \<Rightarrow>
                 (case read_block d (RawBufferLen b) of
                    None \<Rightarrow> None
                  | Some bs \<Rightarrow>
                      map_option (\<lambda>(rq, rb', m). (rq, Some rb', m)) (RequestUnmarshal_from rb bs m))))"

subsection \<open>Progress\<close>

lemma r_step_inplace: "mpack_read_bytes_inplace r n = (x, r') \<Longrightarrow> r_step r r'"
  by (auto simp: mpack_read_bytes_inplace_def mpack_reader_ensure_def Let_def
      intro: r_step_drop split: if_splits)

lemma r_step_param:
  "RequestUnmarshal_param tag r m = Some (x, r', m') \<Longrightarrow> r_step r r'"
  using r_step_read_bytes [of r]
  by (cases tag) (auto simp: RequestUnmarshal_param_def Let_def split: prod.splits if_splits,
      (metis snd_conv)+)

lemma r_step_params:
  "RequestUnmarshal_params n i rq r m = Some (rq', r', m') \<Longrightarrow> r_step r r'"
proof (induction n i rq r m rule: RequestUnmarshal_params.induct)
  case (2 n i rq r m)
  obtain tag r1 where t: "mpack_read_tag r = (tag, r1)" by fastforce
  obtain x r2 m2 where p: "RequestUnmarshal_param tag r1 m = Some (x, r2, m2)"
    using 2(3) t by (auto split: option.splits)
  have s: "r_step r r2"
    using r_step_trans [OF r_step_read_tag(1) [OF t] r_step_param [OF p]] .
  show ?case
  proof (cases x)
    case None
    then have "r_step r2 r'" using 2 t p by auto
    with s show ?thesis by (rule r_step_trans)
  next
    case (Some ob)
    then have "r_step r2 r'"
      using 2(2) [OF t [symmetric] refl p refl] 2(3) t p by (auto split: prod.splits)
    with s show ?thesis by (rule r_step_trans)
  qed
qed simp

lemma remaining_le: "mpack_reader_remaining r \<le> length (r_data r)"
  by (simp add: mpack_reader_remaining_def)

lemma RequestUnmarshal_body_consumes:
  assumes "RequestUnmarshal_body b rq r m = Some (x, b', m')"
  shows "x = None \<and> b' = b \<or>
    (\<exists>k \<le> length (r_data r). x \<noteq> None \<and> b' = b\<lparr>rb_len := rb_len b - k\<rparr>)"
proof -
  obtain tag r1 where 1: "mpack_read_tag r = (tag, r1)" by fastforce
  show ?thesis
  proof (cases tag)
    case (Tag_str len)
    obtain bytes r2 where 2: "mpack_read_bytes_inplace r1 (unat len) = (bytes, r2)" by fastforce
    obtain tag3 r3 where 3: "mpack_read_tag r2 = (tag3, r3)" by fastforce
    have s: "r_step r r3"
      by (meson r_step_trans r_step_read_tag(1) [OF 1] r_step_inplace [OF 2] r_step_read_tag(1) [OF 3])
    have L: "mpack_reader_remaining r4 \<le> length (r_data r)"
      if "RequestUnmarshal_params n i rq' r3 m4 = Some (rq4, r4, m5)" for n i rq' m4 rq4 r4 m5
      using r_step_trans [OF s r_step_params [OF that]] remaining_le [of r4]
      by (simp add: r_step_def)
    show ?thesis
    proof (cases bytes)
      case None
      with assms 1 2 Tag_str show ?thesis by (simp add: RequestUnmarshal_body_def request_fail_def)
    next
      case (Some mb)
      obtain ok m1 where 4: "malloc m = (ok, m1)" by fastforce
      obtain rq' m2 where 5: "RequestSetMethod (Some rq) (Some (until_nul mb)) m1 = (rq', m2)"
        by fastforce
      note eq = assms [unfolded RequestUnmarshal_body_def request_fail_def] 1 2 3 4 5 Tag_str Some
      show ?thesis
      proof (cases "ok \<and> (\<exists>n. tag3 = Tag_array n)")
        case True
        then obtain n where n: "tag3 = Tag_array n" "ok" by auto
        let ?q = "case rq' of None \<Rightarrow> rq | Some q \<Rightarrow> q"
        obtain rq4 r4 m4 where p: "RequestUnmarshal_params (unat n) 0 ?q r3 (free1 m2) = Some (rq4, r4, m4)"
            "x = Some rq4" "b' = b\<lparr>rb_len := rb_len b - mpack_reader_remaining r4\<rparr>"
          using eq n by (auto split: option.splits)
        show ?thesis using L [OF p(1)] p(2,3) by auto
      qed (use eq in \<open>auto simp: Let_def split: mpack_tag.splits if_splits\<close>)
    qed
  qed (use assms 1 in \<open>auto simp: RequestUnmarshal_body_def request_fail_def\<close>)
qed

lemma RequestUnmarshal_from_consumes:
  assumes "RequestUnmarshal_from b bs m = Some (x, b', m')"
  shows "x = None \<and> b' = b \<or> (\<exists>k < length bs. x \<noteq> None \<and> b' = b\<lparr>rb_len := rb_len b - k\<rparr>)"
proof -
  obtain tag r1 where 1: "mpack_read_tag (mpack_reader_init_data bs) = (tag, r1)" by fastforce
  show ?thesis
  proof (cases "tag = Tag_array 4")
    case False
    with assms 1 show ?thesis by (simp add: RequestUnmarshal_from_def request_fail_def)
  next
    case True
    then have "r_error r1 = mpack_ok" using r_step_read_tag(3) [OF 1] by auto
    then have lt: "length (r_data r1) < length bs"
      using r_step_read_tag(2) [OF 1] by (simp add: mpack_reader_init_data_def)
    obtain rq m1 where q: "RequestNew m = (rq, m1)" by fastforce
    obtain tag2 r2 where 2: "mpack_read_tag r1 = (tag2, r2)" by fastforce
    obtain tag3 r3 where 3: "mpack_read_tag r2 = (tag3, r3)" by fastforce
    have s: "length (r_data r3) \<le> length (r_data r1)"
      using r_step_trans [OF r_step_read_tag(1) [OF 2] r_step_read_tag(1) [OF 3]] by (simp add: r_step_def)
    consider "x = None" "b' = b"
      | rq' where "RequestUnmarshal_body b rq' r3 m1 = Some (x, b', m')"
      using assms 1 2 3 q True
      by (auto simp: RequestUnmarshal_from_def request_fail_def Let_def
          split: option.splits if_splits)
    then show ?thesis
    proof cases
      case 2
      have "k < length bs" if "k \<le> length (r_data r3)" for k
        using that lt s by simp
      with RequestUnmarshal_body_consumes [OF 2] show ?thesis by blast
    qed simp
  qed
qed

lemma RequestUnmarshal_consumes:
  assumes "RequestUnmarshal (Some b) m = Some (rq, b', m')"
  shows "\<exists>b2. b' = Some b2 \<and> rb_data b2 = rb_data b \<and>
    (if rq = None then b2 = b else 0 < rb_len b2 \<and> rb_len b2 \<le> rb_len b)"
  using assms
  by (auto simp: RequestUnmarshal_def RawBufferLen_def RawBufferData_def read_block_def
      dest!: RequestUnmarshal_from_consumes split: option.splits if_splits)

subsection \<open>Marshalling and round trip\<close>

definition params_of :: "Request \<Rightarrow> Object option list" where
  "params_of q = (case req_parameters q of None \<Rightarrow> [] | Some a \<Rightarrow> arr_objects a)"

definition req_wf :: "Request \<Rightarrow> bool" where
  "req_wf q \<longleftrightarrow> req_parameters q \<noteq> None \<and> arr_wf (req_parameters q)
     \<and> (\<exists>s. req_method q = Some s \<and> no_nul s)"

definition req_abs :: "Request \<Rightarrow> mval" where
  "req_abs q = MArr [MInt (uint (req_type q)), MInt (uint (req_msgid q)),
     (case req_method q of None \<Rightarrow> MNil | Some s \<Rightarrow> MStr s), MArr (map obj_abs (params_of q))]"

text \<open>An object that is not a string without characters.\<close>

definition str_there :: "Object option \<Rightarrow> bool" where
  "str_there x \<longleftrightarrow> (\<forall>n. x \<noteq> Some (Object (V_STR None) n))"

lemma str_there_copy: "str_there x \<Longrightarrow> obj_wf x \<Longrightarrow> str_there (copy_obj x)"
  by (cases x rule: copy_obj.cases) (auto simp: str_there_def split: ObjectValue.splits option.splits)

text \<open>
  The blocks of the object a decoded value becomes, and those \<^verbatim>\<open>ObjectFree\<close> gives back of it (not the contents of a
  binary). The decoder appends a copy of the object and never releases the object itself.
\<close>

fun value_blocks :: "mval \<Rightarrow> int" where
  "value_blocks (MStr s) = 2"
| "value_blocks (MBin s) = (if s = [] then 2 else 3)"
| "value_blocks _ = 1"

fun value_freed :: "mval \<Rightarrow> int" where
  "value_freed (MStr s) = 2"
| "value_freed (MBin s) = 2"
| "value_freed _ = 1"

definition param_leak :: "mval \<Rightarrow> int" where
  "param_leak v = 2 * value_blocks v - value_freed v"

lemma arr_freed_eq: "arr_freed (Some a) = 2 + sum_list (map obj_freed (arr_objects a))"
  by (cases a) simp

lemma RequestNew_nofail:
  "nofail m \<Longrightarrow> RequestNew m = (Some \<lparr>req_type = HAZE_RPC_REQUEST, req_msgid = 0, req_method = Some [],
     req_parameters = Some (ObjectArray [] (cap_for 0))\<rparr>, mem_add 4 m)"
  by (simp add: RequestNew_def malloc_nofail ObjectArrayCreate_nofail)

subsection \<open>What the decoder reads\<close>

text \<open>
  The decoder as a function of the bytes alone. A request is its id, its method and the values of its parameters, all as
  they stand in the buffer.
\<close>

type_synonym request = "u32 \<times> byte list \<times> mval list"

text \<open>The value behind a tag; there is none for the tags the \<^verbatim>\<open>switch\<close> skips (arrays, maps).\<close>

definition read_value :: "mpack_tag \<Rightarrow> mpack_reader \<Rightarrow> mval option \<times> mpack_reader" where
  "read_value tag r =
     (case tag of
        Tag_nil \<Rightarrow> (Some MNil, r)
      | Tag_bool v \<Rightarrow> (Some (MBool v), r)
      | Tag_int v \<Rightarrow> (Some (MInt (sint v)), r)
      | Tag_uint v \<Rightarrow> (Some (MInt (uint v)), r)
      | Tag_float v \<Rightarrow> (Some (MFloat v), r)
      | Tag_double v \<Rightarrow> (Some (MDouble v), r)
      | Tag_str n \<Rightarrow> (let (s, r) = mpack_read_bytes r (unat n) in (Some (MStr s), r))
      | Tag_bin n \<Rightarrow> (let (s, r) = mpack_read_bytes r (unat n) in (Some (MBin s), r))
      | _ \<Rightarrow> (None, r))"

text \<open>
  A value stands at its index: skipped parameters before it become nil, those behind the last value are dropped. The
  elements of an array parameter are read as if they were the parameters that follow. At the end of the bytes every
  further parameter is nil.
\<close>

fun read_params :: "nat \<Rightarrow> nat \<Rightarrow> mval list \<Rightarrow> mpack_reader \<Rightarrow> mval list \<times> mpack_reader" where
  "read_params 0 i vs r = (vs, r)"
| "read_params (Suc n) i vs r =
     (let (tag, r) = mpack_read_tag r;
          (x, r) = read_value tag r
      in read_params n (Suc i) (case x of None \<Rightarrow> vs | Some v \<Rightarrow> vs @ replicate (i - length vs) MNil @ [v]) r)"

definition read_body :: "u32 \<Rightarrow> mpack_reader \<Rightarrow> (request \<times> mpack_reader) option" where
  "read_body i r =
     (let (tag, r) = mpack_read_tag r
      in case tag of
           Tag_str n \<Rightarrow>
             (let (bytes, r) = mpack_read_bytes_inplace r (unat n);
                  (tag, r) = mpack_read_tag r
              in case (bytes, tag) of
                   (Some meth, Tag_array k) \<Rightarrow> (let (vs, r) = read_params (unat k) 0 [] r in Some ((i, meth, vs), r))
                 | _ \<Rightarrow> None)
         | _ \<Rightarrow> None)"

text \<open>The request at the start of some bytes, and the bytes behind it.\<close>

definition read_request :: "byte list \<Rightarrow> (request \<times> byte list) option" where
  "read_request bs =
     (let (tag, r) = mpack_read_tag (mpack_reader_init_data bs)
      in if tag \<noteq> Tag_array 4 then None
         else
           let (tag, r) = mpack_read_tag r
           in if header_int tag \<noteq> Some HAZE_RPC_REQUEST then None
              else
                let (tag, r) = mpack_read_tag r
                in case header_int tag of
                     None \<Rightarrow> None
                   | Some i \<Rightarrow>
                       map_option (\<lambda>(rq, r). (rq, drop (length bs - mpack_reader_remaining r) bs)) (read_body i r))"

text \<open>The blocks a request leaves behind: what the decoder does not release of its parameters.\<close>

definition request_leak :: "request \<Rightarrow> int" where
  "request_leak rq = (case rq of (i, meth, ps) \<Rightarrow> sum_list (map param_leak ps))"

lemma param_decodes:
  assumes "read_value tag r = (x, r')" "nofail m"
  shows "case x of
      None \<Rightarrow> RequestUnmarshal_param tag r m = Some (None, r', m)
    | Some v \<Rightarrow> \<exists>ob. RequestUnmarshal_param tag r m = Some (Some (Some ob), r', mem_add (value_blocks v + of_bool (param_buff tag)) m)
        \<and> obj_wf (Some ob) \<and> obj_abs (Some ob) = mval_recv v \<and> str_there (Some ob)
        \<and> obj_blocks (copy_obj (Some ob)) = value_blocks v \<and> obj_freed (copy_obj (Some ob)) = value_freed v"
proof (cases tag)
  case (Tag_bin n)
  obtain s r1 where 1: "mpack_read_bytes r (unat n) = (s, r1)" by fastforce
  then have "unat n = length s" using r_step_native [of r "unat n" s r1] by (simp add: mpack_read_bytes_def)
  with 1 Tag_bin assms show ?thesis
    by (auto simp: read_value_def str_there_def param_buff_def RequestUnmarshal_param_def alloc_simps RawBufferNew_nofail
        rb_canon_def rb_ok_def rb_bytes_def rb_blocks_def rb_compact_def)
next
  case (Tag_str n)
  obtain s r1 where 1: "mpack_read_bytes r (unat n) = (s, r1)" by fastforce
  with Tag_str assms show ?thesis
    by (auto simp: read_value_def str_there_def param_buff_def RequestUnmarshal_param_def alloc_simps)
qed (use assms in \<open>auto simp: read_value_def str_there_def param_buff_def RequestUnmarshal_param_def create_defs create_nofail\<close>)

lemma param_decoded_cases:
  assumes "read_value tag r = (x, r')" "nofail m"
  obtains (skipped) "x = None" "RequestUnmarshal_param tag r m = Some (None, r', m)"
  | (delivered) v ob where "x = Some v"
      "RequestUnmarshal_param tag r m = Some (Some (Some ob), r', mem_add (value_blocks v + of_bool (param_buff tag)) m)"
      "obj_wf (Some ob)" "obj_abs (Some ob) = mval_recv v" "str_there (Some ob)"
      "obj_blocks (copy_obj (Some ob)) = value_blocks v" "obj_freed (copy_obj (Some ob)) = value_freed v"
  using param_decodes [OF assms] by (cases x) auto

text \<open>Two blocks for every nil that fills a gap, one of which stays.\<close>

lemma append_nil_nofail:
  assumes "nofail m" "arr_wf (Some ps)"
  obtains ps' where "append_nil ps m = (ps', mem_add 2 m)" "arr_wf (Some ps')"
    "arr_objects ps' = arr_objects ps @ [Some (Object V_NIL 0)]"
proof -
  let ?nil = "Object V_NIL 0"
  obtain ok r m1 where ap: "ObjectArrayAppend (Some ps) (Some ?nil) (mem_add 1 m) = (ok, r, m1)"
    by (metis prod_cases3)
  from ap assms(2) obtain ps' where 1: "r = Some ps'" "arr_wf (Some ps')" "m1 = mem_add 2 m"
      "arr_objects ps' = arr_objects ps @ [Some ?nil]"
    using assms(1) by (elim ObjectArrayAppend_wf) auto
  moreover have "ObjectCreateNil m = (Some ?nil, mem_add 1 m)" using assms(1) by (simp add: create_defs create_nofail)
  ultimately have "append_nil ps m = (ps', mem_add 2 m)" using ap by (simp add: append_nil_def del: ObjectArrayAppend.simps)
  with 1(2,4) that show thesis by blast
qed

lemma fill_nils_nofail:
  assumes "nofail m" "arr_wf (Some ps)"
  shows "\<exists>ps'. fill_nils ind ps m = (ps', mem_add (2 * int (ind - length (arr_objects ps))) m) \<and> arr_wf (Some ps')
    \<and> arr_objects ps' = arr_objects ps @ replicate (ind - length (arr_objects ps)) (Some (Object V_NIL 0))"
  using assms
proof (induction "ind - length (arr_objects ps)" arbitrary: ps m)
  case 0
  then show ?case by (subst fill_nils.simps) auto
next
  case (Suc d)
  obtain ps1 where 1: "append_nil ps m = (ps1, mem_add 2 m)" "arr_wf (Some ps1)"
      "arr_objects ps1 = arr_objects ps @ [Some (Object V_NIL 0)]"
    using append_nil_nofail [OF Suc.prems] .
  have d: "d = ind - length (arr_objects ps1)" "length (arr_objects ps) < ind" using Suc(2) 1(3) by simp_all
  obtain ps' where 2: "fill_nils ind ps1 (mem_add 2 m) = (ps', mem_add (2 * int d) (mem_add 2 m))" "arr_wf (Some ps')"
      "arr_objects ps' = arr_objects ps1 @ replicate d (Some (Object V_NIL 0))"
    using Suc(1) [OF d(1), of "mem_add 2 m"] Suc.prems(1) 1(2) d(1) by auto
  have "fill_nils ind ps m = (ps', mem_add (2 * int (Suc d)) m)"
    using d(2) 1(1) 2(1) by (subst fill_nils.simps) (simp add: add.commute)
  moreover have "arr_objects ps' = arr_objects ps @ replicate (Suc d) (Some (Object V_NIL 0))"
    using 1(3) 2(3) by simp
  ultimately show ?case using 2(2) Suc(2) by metis
qed

text \<open>The array of the parameters holds the values, and so much is left behind that was not released.\<close>

definition holds_values :: "ObjectArray \<Rightarrow> mval list \<Rightarrow> mem \<Rightarrow> int \<Rightarrow> bool" where
  "holds_values ps vs m k \<longleftrightarrow> arr_wf (Some ps) \<and> nofail m \<and> list_all str_there (arr_objects ps)
     \<and> map obj_abs (arr_objects ps) = map mval_recv vs
     \<and> live m - arr_freed (Some ps) = k + sum_list (map param_leak vs)"

lemma holds_length: "holds_values ps vs m k \<Longrightarrow> length (arr_objects ps) = length vs"
  unfolding holds_values_def by (metis length_map)

lemma append_holds:
  assumes "req_parameters rq = Some ps" "holds_values ps vs m k" "length vs \<le> i"
    and "obj_wf (Some ob)" "obj_abs (Some ob) = mval_recv v" "str_there (Some ob)"
    and "obj_blocks (copy_obj (Some ob)) = value_blocks v" "obj_freed (copy_obj (Some ob)) = value_freed v"
  shows "\<exists>ok ps' m'. RequestParamAppend (Some rq) (Some ob) i (mem_add (value_blocks v + b) m) =
      (ok, Some (rq\<lparr>req_parameters := Some ps'\<rparr>), mem_add b m')
    \<and> holds_values ps' (vs @ replicate (i - length vs) MNil @ [v]) m' k"
proof -
  let ?d = "i - length vs" and ?m1 = "mem_add (value_blocks v + b) m"
  have H: "arr_wf (Some ps)" "nofail m" "list_all str_there (arr_objects ps)" "map obj_abs (arr_objects ps) = map mval_recv vs"
      "live m - arr_freed (Some ps) = k + sum_list (map param_leak vs)" "length (arr_objects ps) = length vs"
    using assms(2) holds_length [OF assms(2)] by (simp_all add: holds_values_def)
  have n1: "nofail ?m1" using H(2) by simp
  obtain ps1 where 1: "fill_nils i ps ?m1 = (ps1, mem_add (2 * int ?d) ?m1)" "arr_wf (Some ps1)"
      "arr_objects ps1 = arr_objects ps @ replicate ?d (Some (Object V_NIL 0))"
    using fill_nils_nofail [OF n1 H(1), of i] H(6) by auto
  let ?m2 = "mem_add (2 * int ?d) ?m1"
  obtain ok r m3 where ap: "ObjectArrayAppend (Some ps1) (Some ob) ?m2 = (ok, r, m3)" by (metis prod_cases3)
  from ap 1(2) assms(4) obtain ps2 where 2: "r = Some ps2" "arr_wf (Some ps2)"
      "arr_objects ps2 = arr_objects ps1 @ [copy_obj (Some ob)]" "m3 = mem_add (value_blocks v) ?m2"
    using H(2) assms(7) by (elim ObjectArrayAppend_wf) auto
  have "RequestParamAppend (Some rq) (Some ob) i ?m1 = (ok, Some (rq\<lparr>req_parameters := Some ps2\<rparr>), m3)"
  proof (cases "?d = 0")
    case True
    then have "i = length (arr_objects ps)" "ps1 = ps" "?m2 = ?m1"
      using assms(3) H(6) 1(1) by (auto simp: fill_nils.simps)
    then show ?thesis using assms(1) ap 2(1) by (simp add: RequestParamAppend_def ObjectArrayLen_def)
  next
    case False
    then have "length (arr_objects ps) < i" using H(6) by simp
    then show ?thesis using assms(1) ap 1(1) 2(1) by (simp add: RequestParamAppend_def ObjectArrayLen_def)
  qed
  moreover have "m3 = mem_add b (mem_add (value_blocks v + value_blocks v + 2 * int ?d) m)"
    using 2(4) by (simp add: add.commute add.left_commute)
  moreover have "holds_values ps2 (vs @ replicate ?d MNil @ [v]) (mem_add (value_blocks v + value_blocks v + 2 * int ?d) m) k"
    using H 1(3) 2(2,3) assms(4-6,8) str_there_copy [OF assms(6,4)] abs_copy(1) [OF assms(4)]
    by (auto simp: holds_values_def arr_freed_eq sum_list_replicate param_leak_def str_there_def list_all_iff)
  ultimately show ?thesis by blast
qed

lemma params_decode:
  assumes "read_params n i vs r = (vs', r')" "req_parameters rq = Some ps" "holds_values ps vs m k" "length vs \<le> i"
  shows "\<exists>ps' m'. RequestUnmarshal_params n i rq r m = Some (rq\<lparr>req_parameters := Some ps'\<rparr>, r', m')
    \<and> holds_values ps' vs' m' k \<and> length vs' \<le> i + n"
  using assms
proof (induction n arbitrary: i vs r rq ps m)
  case 0
  then show ?case by (auto intro!: exI [of _ ps])
next
  case (Suc n)
  obtain tag r1 where t: "mpack_read_tag r = (tag, r1)" by fastforce
  obtain x r2 where x: "read_value tag r1 = (x, r2)" by fastforce
  have "nofail m" using Suc.prems(3) by (simp add: holds_values_def)
  with x show ?case
  proof (cases rule: param_decoded_cases)
    case skipped
    have "read_params n (Suc i) vs r2 = (vs', r')" "length vs \<le> Suc i" using Suc.prems(1,4) t x skipped by simp_all
    with Suc.IH [OF _ Suc.prems(2,3)] t skipped(2) show ?thesis by fastforce
  next
    case (delivered v ob)
    let ?vs = "vs @ replicate (i - length vs) MNil @ [v]"
    obtain ok ps1 m1 where 1: "RequestParamAppend (Some rq) (Some ob) i (mem_add (value_blocks v + of_bool (param_buff tag)) m) =
        (ok, Some (rq\<lparr>req_parameters := Some ps1\<rparr>), mem_add (of_bool (param_buff tag)) m1)" "holds_values ps1 ?vs m1 k"
      using append_holds [OF Suc.prems(2-4) delivered(3-7)] by blast
    have "read_params n (Suc i) ?vs r2 = (vs', r')" "length ?vs \<le> Suc i" using Suc.prems(1,4) t x delivered(1) by simp_all
    from Suc.IH [OF this(1) _ 1(2) this(2), of "rq\<lparr>req_parameters := Some ps1\<rparr>"] obtain ps' m' where
      2: "RequestUnmarshal_params n (Suc i) (rq\<lparr>req_parameters := Some ps1\<rparr>) r2 m1 = Some (rq\<lparr>req_parameters := Some ps'\<rparr>, r', m')"
        "holds_values ps' vs' m' k" "length vs' \<le> Suc i + n"
      by auto
    have "(if param_buff tag then free1 (mem_add (of_bool (param_buff tag)) m1) else mem_add (of_bool (param_buff tag)) m1) = m1"
      by (simp add: mem_simps)
    then have "RequestUnmarshal_params (Suc n) i rq r m = Some (rq\<lparr>req_parameters := Some ps'\<rparr>, r', m')"
      using t delivered(2) 1(1) 2(1) by (simp add: Let_def)
    with 2(2,3) show ?thesis by auto
  qed
qed

text \<open>
  Under an allocator that does not fail the decoder is that function: it delivers the request that stands at the start of
  the bytes, with its parameters in order, and shortens the buffer to it; releasing the request leaves exactly
  \<open>request_leak\<close> behind. Without a request there it refuses, and nothing is left behind.
\<close>

definition decoded_request :: "request \<Rightarrow> ObjectArray \<Rightarrow> Request" where
  "decoded_request rq ps = (case rq of (i, meth, vs) \<Rightarrow>
     \<lparr>req_type = HAZE_RPC_REQUEST, req_msgid = i, req_method = Some (until_nul meth), req_parameters = Some ps\<rparr>)"

definition refuses :: "RawBuffer \<Rightarrow> mem \<Rightarrow> (Request option \<times> RawBuffer \<times> mem) option \<Rightarrow> bool" where
  "refuses b m d \<longleftrightarrow> (\<exists>m'. d = Some (None, b, m') \<and> nofail m' \<and> live m' = live m)"

definition delivers :: "RawBuffer \<Rightarrow> request \<Rightarrow> nat \<Rightarrow> mem \<Rightarrow> (Request option \<times> RawBuffer \<times> mem) option \<Rightarrow> bool" where
  "delivers b rq rest m d \<longleftrightarrow>
     (\<exists>ps m'. d = Some (Some (decoded_request rq ps), b\<lparr>rb_len := rb_len b - rest\<rparr>, m')
        \<and> arr_wf (Some ps) \<and> nofail m' \<and> list_all str_there (arr_objects ps) \<and> length (arr_objects ps) < 2 ^ 32
        \<and> map obj_abs (arr_objects ps) = map mval_recv (snd (snd rq))
        \<and> live (RequestFree (Some (decoded_request rq ps)) m') = live m + request_leak rq)"

lemma body_decodes:
  fixes i :: u32
  assumes "nofail m"
  defines "q \<equiv> \<lparr>req_type = HAZE_RPC_REQUEST, req_msgid = i, req_method = Some [], req_parameters = Some (ObjectArray [] (cap_for 0))\<rparr>"
  shows "case read_body i r of
      None \<Rightarrow> refuses b m (RequestUnmarshal_body b q r (mem_add 4 m))
    | Some (rq, r') \<Rightarrow> delivers b rq (mpack_reader_remaining r') m (RequestUnmarshal_body b q r (mem_add 4 m))"
proof -
  have F: "refuses b m (request_fail b (Some (q\<lparr>req_method := Some t\<rparr>)) (mem_add 4 m))" for t
    using assms(1) by (simp add: request_fail_def RequestFree_def free_opt_def q_def refuses_def)
  have F0: "refuses b m (request_fail b (Some q) (mem_add 4 m))" using F [of "[]"] by (simp add: q_def)
  obtain tag r1 where 1: "mpack_read_tag r = (tag, r1)" by fastforce
  show ?thesis
  proof (cases "\<exists>n. tag = Tag_str n")
    case False
    with 1 F0 show ?thesis by (cases tag) (simp_all add: read_body_def RequestUnmarshal_body_def)
  next
    case True
    then obtain n where n: "tag = Tag_str n" by blast
    obtain bytes r2 where 2: "mpack_read_bytes_inplace r1 (unat n) = (bytes, r2)" by fastforce
    obtain tag3 r3 where 3: "mpack_read_tag r2 = (tag3, r3)" by fastforce
    show ?thesis
    proof (cases bytes)
      case None
      with 1 2 3 n F0 show ?thesis by (simp add: read_body_def RequestUnmarshal_body_def)
    next
      case (Some meth)
      let ?q = "q\<lparr>req_method := Some (until_nul meth)\<rparr>"
      have step: "RequestUnmarshal_body b q r (mem_add 4 m) =
          (case tag3 of
             Tag_array count \<Rightarrow>
               (case RequestUnmarshal_params (unat count) 0 ?q r3 (mem_add 4 m) of
                  None \<Rightarrow> None
                | Some (rq, r, m) \<Rightarrow> Some (Some rq, b\<lparr>rb_len := rb_len b - mpack_reader_remaining r\<rparr>, m))
           | _ \<Rightarrow> request_fail b (Some ?q) (mem_add 4 m))"
        using assms(1) 1 2 3 n Some
        by (cases tag3) (simp_all add: RequestUnmarshal_body_def RequestSetMethod_def alloc_simps mem_simps free_opt_def q_def)
      show ?thesis
      proof (cases "\<exists>k. tag3 = Tag_array k")
        case False
        then show ?thesis using 1 2 3 n Some F [of "until_nul meth"]
          by (cases tag3) (simp_all add: read_body_def step)
      next
        case True
        then obtain k where k: "tag3 = Tag_array k" by blast
        obtain vs r4 where 4: "read_params (unat k) 0 [] r3 = (vs, r4)" by fastforce
        have h0: "holds_values (ObjectArray [] (cap_for 0)) [] (mem_add 4 m) (live m + 2)"
          using assms(1) by (simp add: holds_values_def cap_for_pos)
        obtain ps m' where 5: "RequestUnmarshal_params (unat k) 0 ?q r3 (mem_add 4 m) = Some (?q\<lparr>req_parameters := Some ps\<rparr>, r4, m')"
            "holds_values ps vs m' (live m + 2)" "length vs \<le> 0 + unat k"
          using params_decode [OF 4, of ?q, OF _ h0] by (auto simp: q_def)
        have "?q\<lparr>req_parameters := Some ps\<rparr> = decoded_request (i, meth, vs) ps" by (simp add: decoded_request_def q_def)
        moreover have "length vs < 2 ^ 32" using le_less_trans [OF 5(3)] unat_u32_lt [of k] by auto
        ultimately have "delivers b (i, meth, vs) (mpack_reader_remaining r4) m (RequestUnmarshal_body b q r (mem_add 4 m))"
          using 5 k holds_length [OF 5(2)]
          by (simp add: step delivers_def holds_values_def decoded_request_def RequestFree_def free_opt_def free_add request_leak_def)
        then show ?thesis using 1 2 3 4 n Some k by (simp add: read_body_def)
      qed
    qed
  qed
qed

lemma request_decodes:
  assumes "nofail m"
  shows "case read_request bs of
      None \<Rightarrow> refuses b m (RequestUnmarshal_from b bs m)
    | Some (rq, rest) \<Rightarrow> delivers b rq (length rest) m (RequestUnmarshal_from b bs m) \<and> length rest < length bs
        \<and> rest = drop (length bs - length rest) bs"
proof -
  obtain tag1 r1 where 1: "mpack_read_tag (mpack_reader_init_data bs) = (tag1, r1)" by fastforce
  obtain tag2 r2 where 2: "mpack_read_tag r1 = (tag2, r2)" by fastforce
  obtain tag3 r3 where 3: "mpack_read_tag r2 = (tag3, r3)" by fastforce
  note simps = RequestUnmarshal_from_def 1 2 3 RequestNew_nofail [OF assms] request_fail_def RequestFree_def mem_simps free_opt_def
    refuses_def
  consider "tag1 \<noteq> Tag_array 4" | "tag1 = Tag_array 4" "header_int tag2 \<noteq> Some HAZE_RPC_REQUEST"
    | "tag1 = Tag_array 4" "header_int tag2 = Some HAZE_RPC_REQUEST" "header_int tag3 = None"
    | i where "tag1 = Tag_array 4" "header_int tag2 = Some HAZE_RPC_REQUEST" "header_int tag3 = Some i"
    by blast
  then show ?thesis
  proof cases
    case 4
    let ?q = "\<lparr>req_type = HAZE_RPC_REQUEST, req_msgid = i, req_method = Some [], req_parameters = Some (ObjectArray [] (cap_for 0))\<rparr>"
    have u: "RequestUnmarshal_from b bs m = RequestUnmarshal_body b ?q r3 (mem_add 4 m)" using 4 by (simp add: simps)
    have p: "read_request bs = map_option (\<lambda>(rq, r). (rq, drop (length bs - mpack_reader_remaining r) bs)) (read_body i r3)"
      using 1 2 3 4 by (simp add: read_request_def)
    note B = body_decodes [OF assms, where i = i and r = r3 and b = b]
    show ?thesis
    proof (cases "read_body i r3")
      case None
      with B show ?thesis by (simp add: u p)
    next
      case (Some y)
      then obtain rq r' where y: "read_body i r3 = Some (rq, r')" by (cases y) auto
      obtain ps m' where d: "RequestUnmarshal_from (RawBufferInit (Some bs) (length bs)) bs m =
          Some (Some (decoded_request rq ps), (RawBufferInit (Some bs) (length bs))\<lparr>rb_len := length bs - mpack_reader_remaining r'\<rparr>, m')"
        using body_decodes [OF assms, where i = i and r = r3 and b = "RawBufferInit (Some bs) (length bs)"] y 4
        by (auto simp: simps delivers_def RawBufferInit_def)
      have "mpack_reader_remaining r' < length bs"
        using RequestUnmarshal_from_consumes [OF d] by (auto simp: RawBufferInit_def)
      then show ?thesis using B y by (simp add: u p)
    qed
  qed (use assms in \<open>auto simp: simps read_request_def split: option.splits\<close>)
qed

text \<open>
  C2: Whatever bytes a buffer holds and whatever the allocator does, a call of \<^verbatim>\<open>RequestUnmarshal\<close> on it either delivers a
  request and has consumed at least one byte and no more than the buffer holds, or delivers none and leaves the buffer as
  it was; it is undefined only when an allocation failed (the source does not check \<^verbatim>\<open>RequestNew\<close> and the blocks of string
  parameters). The read loop of the server relies on it to make progress.
\<close>

theorem request_unmarshal_consumes:
  assumes "rb_ok b"
  shows "case RequestUnmarshal (Some b) m of
      None \<Rightarrow> \<not> nofail m
    | Some (rq, b', m') \<Rightarrow> (\<exists>b2. b' = Some b2 \<and> rb_data b2 = rb_data b \<and>
        (if rq = None then b2 = b else 0 < rb_len b2 \<and> rb_len b2 \<le> rb_len b))"
proof (cases "RequestUnmarshal (Some b) m")
  case None
  have "RequestUnmarshal (Some b) m \<noteq> None" if "nofail m"
  proof (cases "rb_len b = 0")
    case False
    then obtain d where d: "rb_data b = Some d" "rb_len b \<le> length d"
      using assms by (auto simp: rb_ok_def split: option.splits)
    then show ?thesis
      using request_decodes [OF that, where bs = "take (rb_len b) d" and b = b]
      by (auto simp: RequestUnmarshal_def RawBufferLen_def RawBufferData_def read_block_def refuses_def delivers_def
          split: option.splits)
  qed (simp add: RequestUnmarshal_def RawBufferLen_def)
  with None show ?thesis by auto
next
  case (Some x)
  then show ?thesis using RequestUnmarshal_consumes [of b m] by (cases x) auto
qed

theorem request_unmarshal_consumes_witness:
  "\<exists>b2. fst (snd (the (RequestUnmarshal (Some \<lparr>rb_data = Some [0x94, 0, 5, 0xa1, 0x61, 0x90, 7],
       rb_len = 7\<rparr>) \<lparr>outcomes = [], live = 0\<rparr>))) = Some b2 \<and> 0 < rb_len b2 \<and> rb_len b2 \<le> 7"
proof -
  let ?b = "\<lparr>rb_data = Some [0x94, 0, 5, 0xa1, 0x61, 0x90, 7 :: byte], rb_len = 7\<rparr>"
  let ?m = "\<lparr>outcomes = [], live = 0\<rparr> :: mem"
  obtain rq b' m' where e: "RequestUnmarshal (Some ?b) ?m = Some (Some rq, b', m')"
    by (simp add: RequestUnmarshal_def RawBufferLen_def RawBufferData_def read_block_def
        RequestUnmarshal_from_def mpack_reader_init_data_def mpack_read_tag_def parse_defs
        RequestNew_def malloc_def ObjectArrayCreate_def header_int_def HAZE_RPC_REQUEST_def
        RequestUnmarshal_body_def mpack_read_bytes_inplace_def mem_add_def RequestSetMethod_def
        free_opt_def free1_def)
  show ?thesis
    using request_unmarshal_consumes [of ?b ?m] e by (auto simp: rb_ok_def)
qed

text \<open>The requests in the bytes of a read, one after the other, and what is left when there is no further one.\<close>

lemma read_request_suffix:
  "read_request bs = Some (rq, rest) \<Longrightarrow> length rest < length bs \<and> rest = drop (length bs - length rest) bs"
  using request_decodes [where bs = bs and m = "\<lparr>outcomes = [], live = 0\<rparr>"] by (auto simp: nofail_def)

function read_requests :: "byte list \<Rightarrow> request list \<times> byte list" where
  "read_requests bs =
     (case read_request bs of
        None \<Rightarrow> ([], bs)
      | Some (rq, rest) \<Rightarrow> (let (rqs, g) = read_requests rest in (rq # rqs, g)))"
  by pat_completeness auto
termination
  by (relation "measure length") (auto dest!: read_request_suffix)

declare read_requests.simps [simp del]

subsection \<open>Encoded requests\<close>

definition wire_request :: "request \<Rightarrow> byte list" where
  "wire_request rq = (case rq of (i, meth, ps) \<Rightarrow> enc (MArr [MInt 0, MInt (uint i), MStr meth, MArr ps]))"

text \<open>The requests the format can carry and the decoder gives back: no array among the parameters.\<close>

definition good_request :: "request \<Rightarrow> bool" where
  "good_request rq = (case rq of (i, meth, ps) \<Rightarrow>
     list_all mval_ok ps \<and> list_all (\<lambda>v. \<forall>us. v \<noteq> MArr us) ps \<and> length ps < 2 ^ 32 \<and> length meth < 2 ^ 32)"

lemma read_value_enc:
  assumes "mval_ok v" "\<And>us. v \<noteq> MArr us"
  shows "\<exists>tag r1. mpack_read_tag (rd (enc v @ rest)) = (tag, r1) \<and> read_value tag r1 = (Some v, rd rest)"
proof (cases v)
  case (MInt i)
  then show ?thesis
    using assms(1) read_tag_uint [of i rest] read_tag_int [of i rest]
    by (cases "0 \<le> i") (auto simp: read_value_def uint_word_of_int_eq take_bit_int_eq_self signed_of_int signed_take_bit_int_eq_self)
next
  case (MStr s)
  then show ?thesis
    using assms(1) read_tag_str_head [of "length s" "s @ rest"] by (auto simp: read_value_def unat_of_nat)
next
  case (MBin s)
  then show ?thesis
    using assms(1) read_tag_bin_head [of "length s" "s @ rest"] by (auto simp: read_value_def unat_of_nat)
qed (use assms(2) in \<open>auto simp: read_tag_simple read_value_def\<close>)

lemma read_params_enc:
  assumes "list_all mval_ok vs" "list_all (\<lambda>v. \<forall>us. v \<noteq> MArr us) vs" "length us = i"
  shows "read_params (length vs) i us (rd (enc_list vs @ rest)) = (us @ vs, rd rest)"
  using assms
proof (induction vs arbitrary: i us)
  case (Cons v vs)
  obtain tag r1 where t: "mpack_read_tag (rd (enc v @ enc_list vs @ rest)) = (tag, r1)" "read_value tag r1 = (Some v, rd (enc_list vs @ rest))"
    using read_value_enc [of v "enc_list vs @ rest"] Cons.prems by auto
  with Cons.IH [of "us @ [v]" "Suc i"] Cons.prems show ?case by simp
qed simp

lemma header_int_enc:
  "0 \<le> i \<Longrightarrow> i < 2 ^ 32 \<Longrightarrow> \<exists>tag. mpack_read_tag (rd (enc_int i @ rest)) = (tag, rd rest)
     \<and> header_int tag = Some (of_int i)"
  using read_tag_uint [of i rest]
  by (simp add: header_int_def unsigned_of_int take_bit_int_eq_self)

lemma read_request_wire:
  assumes "good_request rq"
  shows "read_request (wire_request rq @ rest) = Some (rq, rest)"
proof -
  obtain i meth vs where q: "rq = (i, meth, vs)" by (cases rq)
  have g: "list_all mval_ok vs" "list_all (\<lambda>v. \<forall>us. v \<noteq> MArr us) vs" "length vs < 2 ^ 32" "length meth < 2 ^ 32"
    using assms by (simp_all add: good_request_def q)
  let ?t3 = "enc_str_head (length meth) @ meth @ enc_arr_head (length vs) @ enc_list vs @ rest"
  let ?t2 = "enc_int (uint i) @ ?t3"
  have w: "wire_request rq @ rest = enc_arr_head 4 @ enc_int 0 @ ?t2"
    by (simp add: wire_request_def q Suc_4 enc_list_def)
  have 1: "mpack_read_tag (rd (enc_arr_head 4 @ enc_int 0 @ ?t2)) = (Tag_array 4, rd (enc_int 0 @ ?t2))"
    using read_tag_arr_head [of 4] by simp
  obtain t2 where 2: "mpack_read_tag (rd (enc_int 0 @ ?t2)) = (t2, rd ?t2)" "header_int t2 = Some 0"
    using header_int_enc [of 0 ?t2] by fastforce
  obtain t3 where 3: "mpack_read_tag (rd ?t2) = (t3, rd ?t3)" "header_int t3 = Some i"
    using header_int_enc [of "uint i" ?t3] uint_lt2p [of i] by fastforce
  have "read_body i (rd ?t3) = Some (rq, rd rest)"
    using g read_tag_str_head [of "length meth"] read_tag_arr_head [of "length vs"] read_params_enc [OF g(1,2), of "[]" 0 rest]
    by (simp add: read_body_def unat_of_nat q)
  with 1 2 3 show ?thesis
    by (simp add: read_request_def w mpack_reader_init_data_def HAZE_RPC_REQUEST_def mpack_reader_remaining_def)
qed

lemma read_requests_wire:
  assumes "list_all good_request rqs" "read_request g = None"
  shows "read_requests (concat (map wire_request rqs) @ g) = (rqs, g)"
  using assms
proof (induction rqs)
  case Nil
  then show ?case by (simp add: read_requests.simps [of g])
next
  case (Cons rq rqs)
  then show ?case by (simp add: read_requests.simps [of "wire_request rq @ _"] read_request_wire)
qed

lemma read_request_Nil [simp]: "read_request [] = None"
  using read_request_suffix [of "[]"] by (cases "read_request []") auto

text \<open>Decoding a buffer, and an encoded request with more of the stream behind it.\<close>

lemma RequestUnmarshal_read:
  assumes "read_request bs = Some (rq, rest)" "nofail m"
  shows "\<exists>ps m'. RequestUnmarshal (Some \<lparr>rb_data = Some (bs @ junk), rb_len = length bs\<rparr>) m
       = Some (Some (decoded_request rq ps), Some \<lparr>rb_data = Some (bs @ junk), rb_len = length bs - length rest\<rparr>, m')
     \<and> arr_wf (Some ps) \<and> nofail m' \<and> list_all str_there (arr_objects ps) \<and> length (arr_objects ps) < 2 ^ 32
     \<and> map obj_abs (arr_objects ps) = map mval_recv (snd (snd rq))
     \<and> live (RequestFree (Some (decoded_request rq ps)) m') = live m + request_leak rq"
  using request_decodes [OF assms(2), where bs = bs and b = "\<lparr>rb_data = Some (bs @ junk), rb_len = length bs\<rparr>"] assms(1)
  by (auto simp: RequestUnmarshal_def RawBufferLen_def RawBufferData_def read_block_def delivers_def)

lemma RequestUnmarshal_refused:
  assumes "read_request bs = None" "nofail m"
  shows "\<exists>m'. RequestUnmarshal (Some (RawBufferInit (Some bs) (length bs))) m
       = Some (None, Some (RawBufferInit (Some bs) (length bs)), m') \<and> nofail m' \<and> live m' = live m"
  using request_decodes [OF assms(2), where bs = bs and b = "RawBufferInit (Some bs) (length bs)"] assms
  by (auto simp: RequestUnmarshal_def RawBufferLen_def RawBufferData_def read_block_def refuses_def RawBufferInit_def)

lemma request_params_get:
  assumes "req_parameters q = Some a" "length (arr_objects a) < 2 ^ 32"
  shows "map (ObjectArrayGet (req_parameters q)) [0..<unat (RequestParamCount (Some q))] = arr_objects a"
    and "unat (RequestParamCount (Some q)) = length (arr_objects a)"
  using assms by (auto simp: RequestParamCount_def ObjectArrayLen_def ObjectArrayGet_def intro: nth_equalityI)

lemma RequestMarshal_cases:
  assumes wf: "req_wf q" and ok: "mval_ok (req_abs q)"
  shows "\<exists>r m'. RequestMarshal (Some q) m = Some (r, m')
      \<and> (r = None \<and> live m' = live m
         \<or> r = Some \<lparr>rb_data = Some (enc (req_abs q)), rb_len = length (enc (req_abs q))\<rparr>
           \<and> live m' = live m + 3)
      \<and> (nofail m \<and> length (enc (req_abs q)) \<le> 2 ^ 62 \<longrightarrow> r \<noteq> None \<and> m' = mem_add 3 m)"
proof -
  obtain a s where a: "req_parameters q = Some a" "arr_wf (Some a)" "req_method q = Some s" "no_nul s"
    using wf by (auto simp: req_wf_def)
  have len: "length (arr_objects a) < 2 ^ 32" "length s < 2 ^ 32"
    using ok a by (simp_all add: req_abs_def params_of_def)
  note P = request_params_get [OF a(1) len(1)]
  obtain w0 m0 where 0: "mpack_writer_init_growable m = (w0, m0)" by fastforce
  obtain w1 m1 where 1: "mpack_start_array w0 4 m0 = (w1, m1)" by fastforce
  obtain w2 m2 where 2: "mpack_write_uint w1 (ucast (req_type q)) m1 = (w2, m2)" by fastforce
  obtain w3 m3 where 3: "mpack_write_uint w2 (ucast (req_msgid q)) m2 = (w3, m3)" by fastforce
  obtain w4 m4 where 4: "mpack_write_str w3 s m3 = (w4, m4)" by fastforce
  obtain w5 m5 where 5: "mpack_start_array w4 (RequestParamCount (Some q)) m4 = (w5, m5)" by fastforce
  have "list_all obj_wf (arr_objects a)" "list_all (\<lambda>x. mval_ok (obj_abs x)) (arr_objects a)"
    using a ok by (cases a; auto simp: list_all_iff req_abs_def params_of_def)+
  then obtain w6 m6 where 6: "ObjectMarshalMPack_loop (arr_objects a) w5 m5 = Some (w6, m6)"
      "emitted (enc_list (map obj_abs (arr_objects a))) w5 m5 w6 m6"
    using marshal_emits(2) [of "arr_objects a" w5 m5] by (auto simp: emits_def)
  obtain e data m7 where 7: "mpack_writer_destroy w6 m6 = (e, data, m7)" by (metis prod_cases3)
  have u: "uint (ucast x :: u64) = uint (x :: u32)" for x by (simp add: uint_up_ucast is_up)
  note E2 = emitted_u64 [OF 2 [unfolded mpack_write_uint_def], unfolded u]
  note E3 = emitted_u64 [OF 3 [unfolded mpack_write_uint_def], unfolded u]
  have em: "emitted (enc (req_abs q)) w0 m0 w6 m6"
    using emitted_trans [OF emitted_array [OF 1] emitted_trans [OF E2 emitted_trans [OF E3
          emitted_trans [OF emitted_str [OF 4 len(2)] emitted_trans [OF emitted_array [OF 5] 6(2)]]]]]
    by (simp add: req_abs_def Suc_4 a params_of_def P(2) enc_list_def)
  note I = init_growable [OF 0] and S = growable_session [OF 0 em 7]
  obtain b m8 where b: "RawBufferNew (Some (enc (req_abs q))) (length (enc (req_abs q))) m7 = (b, m8)"
    by fastforce
  have nf: "nofail m \<and> length (enc (req_abs q)) \<le> 2 ^ 62 \<Longrightarrow> b \<noteq> None \<and> m8 = mem_add 3 m"
    using S(3) b by (auto simp: RawBufferNew_nofail simp del: enc.simps)
  from b have B: "b = None \<and> live m8 = live m7
      \<or> b = Some \<lparr>rb_data = Some (enc (req_abs q)), rb_len = length (enc (req_abs q))\<rparr> \<and> live m8 = live m7 + 2"
    by (cases rule: RawBufferNew_cases) auto
  define res where "res = (if w_error w0 \<noteq> mpack_ok then (None, m0)
      else if e \<noteq> mpack_ok then (None, m7) else if b = None then (None, free1 m8) else (b, m8))"
  have "RequestMarshal (Some q) m = Some res"
    using 0 1 2 3 4 5 6(1) 7 a(3) P(1) S(1,2) b
    by (auto simp: RequestMarshal_def res_def request_marshal_eq free_opt_def simp del: enc.simps)
  moreover have "w_error w0 \<noteq> mpack_ok \<Longrightarrow> live m0 = live m" using I(5) by simp
  moreover have "nofail m \<Longrightarrow> w_error w0 = mpack_ok" using I(6) by simp
  ultimately show ?thesis
    using S B nf by (cases res) (auto simp: res_def simp del: enc.simps split: if_splits)
qed

text \<open>
  C3: A request without array parameters survives the wire, also when more of the stream follows it
  in the buffer: \<^verbatim>\<open>RequestUnmarshal\<close> gives back the type, message id, method and the values of the
  parameters, and shortens the buffer to exactly the bytes of this request.
\<close>

theorem request_roundtrip_stream:
  fixes rest :: "byte list"
  assumes wf: "req_wf q" "req_type q = HAZE_RPC_REQUEST" "mval_ok (req_abs q)"
    and flat: "\<forall>vs. MArr vs \<notin> set (map obj_abs (params_of q))"
    and m: "nofail m" "length (enc (req_abs q)) \<le> 2 ^ 62"
  shows "\<exists>bs m1 q' m2. RequestMarshal (Some q) m = Some (Some \<lparr>rb_data = Some bs, rb_len = length bs\<rparr>, m1)
     \<and> RequestUnmarshal (Some \<lparr>rb_data = Some (bs @ rest), rb_len = length (bs @ rest)\<rparr>) m1
       = Some (Some q', Some \<lparr>rb_data = Some (bs @ rest), rb_len = length bs\<rparr>, m2)
     \<and> req_abs q' = req_abs q"
proof -
  obtain a s where a: "req_parameters q = Some a" "arr_wf (Some a)" "req_method q = Some s" "no_nul s"
    using wf by (auto simp: req_wf_def)
  let ?vs = "map obj_abs (arr_objects a)"
  have abs: "req_abs q = MArr [MInt 0, MInt (uint (req_msgid q)), MStr s, MArr ?vs]"
    using a wf(2) by (simp add: req_abs_def HAZE_RPC_REQUEST_def params_of_def)
  have v: "list_all mval_ok ?vs" "length ?vs < 2 ^ 32" "length s < 2 ^ 32" "\<And>us. MArr us \<notin> set ?vs"
    using wf(3) flat a by (simp_all add: abs params_of_def)
  have id: "map mval_recv ?vs = ?vs"
    using a by (cases a) (auto simp: list_all_iff intro!: mval_recv_exact wf_exact)
  have M: "RequestMarshal (Some q) m = Some (Some \<lparr>rb_data = Some (enc (req_abs q)),
      rb_len = length (enc (req_abs q))\<rparr>, mem_add 3 m)"
    using RequestMarshal_cases [OF wf(1,3), of m] m by auto
  have n: "nofail (mem_add 3 m)" using m by simp
  let ?rq = "(req_msgid q, s, ?vs)"
  have w: "enc (req_abs q) = wire_request ?rq" by (simp add: abs wire_request_def)
  have "good_request ?rq" using v by (auto simp: good_request_def list_all_iff) (metis image_eqI)
  from RequestUnmarshal_read [OF read_request_wire [OF this, of rest] n, of "[]"] obtain ps m' where
    U: "RequestUnmarshal (Some \<lparr>rb_data = Some (enc (req_abs q) @ rest), rb_len = length (enc (req_abs q) @ rest)\<rparr>) (mem_add 3 m)
      = Some (Some (decoded_request ?rq ps), Some \<lparr>rb_data = Some (enc (req_abs q) @ rest), rb_len = length (enc (req_abs q))\<rparr>, m')"
      "map obj_abs (arr_objects ps) = map mval_recv ?vs"
    by (auto simp: w simp del: enc.simps)
  have "req_abs (decoded_request ?rq ps) = req_abs q"
    using a U(2) id wf(2) by (simp add: decoded_request_def req_abs_def params_of_def HAZE_RPC_REQUEST_def)
  with M U(1) show ?thesis by auto
qed

theorem request_roundtrip_stream_witness:
  "\<exists>bs m1 q' m2. RequestMarshal (Some \<lparr>req_type = 0, req_msgid = 9, req_method = Some [112],
        req_parameters = Some (ObjectArray [Some (Object (V_INT 5) 8)] 8)\<rparr>)
        \<lparr>outcomes = [], live = 0\<rparr> = Some (Some \<lparr>rb_data = Some bs, rb_len = length bs\<rparr>, m1)
     \<and> RequestUnmarshal (Some \<lparr>rb_data = Some (bs @ [0x94, 0]), rb_len = length (bs @ [0x94, 0])\<rparr>) m1
       = Some (Some q', Some \<lparr>rb_data = Some (bs @ [0x94, 0]), rb_len = length bs\<rparr>, m2)
     \<and> req_abs q' = MArr [MInt 0, MInt 9, MStr [112], MArr [MInt 5]]"
  using request_roundtrip_stream [of "\<lparr>req_type = 0, req_msgid = 9, req_method = Some [112],
        req_parameters = Some (ObjectArray [Some (Object (V_INT 5) 8)] 8)\<rparr>"
        "\<lparr>outcomes = [], live = 0\<rparr>" "[0x94, 0]"]
  by (simp add: req_wf_def req_abs_def params_of_def HAZE_RPC_REQUEST_def nofail_def no_nul_def
      enc_arr_head_def enc_int_def enc_str_head_def)

text \<open>
  \<^verbatim>\<open>RequestMarshal\<close> is defined and all-or-nothing under any allocator, but a success leaves three
  blocks allocated although the buffer it returns owns only two: the encoded \<^verbatim>\<open>data\<close> is copied and
  never released.
\<close>

theorem request_marshal_leaks_data:
  assumes "req_wf q" and "mval_ok (req_abs q)"
  shows "\<exists>r m'. RequestMarshal (Some q) m = Some (r, m')
      \<and> (r = None \<and> live m' = live m
         \<or> (\<exists>b. r = Some b \<and> rb_bytes b = enc (req_abs q)
              \<and> live (RawBufferFree (Some b) m') = live m + 1))"
  using RequestMarshal_cases [OF assms, of m]
  by (fastforce simp: rb_bytes_def RawBufferFree_live rb_blocks_def)

theorem request_marshal_leaks_data_witness:
  "\<exists>r m'. RequestMarshal (Some \<lparr>req_type = 0, req_msgid = 9, req_method = Some [112],
        req_parameters = Some (ObjectArray [] 8)\<rparr>) \<lparr>outcomes = [], live = 0\<rparr> = Some (r, m')
     \<and> (r = None \<and> live m' = 0 \<or> (\<exists>b. r = Some b \<and> live (RawBufferFree (Some b) m') = 1))"
  using request_marshal_leaks_data [of "\<lparr>req_type = 0, req_msgid = 9, req_method = Some [112],
        req_parameters = Some (ObjectArray [] 8)\<rparr>" "\<lparr>outcomes = [], live = 0\<rparr>"]
  by (auto simp: req_wf_def req_abs_def params_of_def no_nul_def)

subsection \<open>Incomplete messages\<close>

lemma params_at_end:
  assumes "mpack_read_tag r = (Tag_nil, re)" "r_error re \<noteq> mpack_ok" "nofail m" "0 < n"
    and "req_parameters rq = Some ps" "arr_wf (Some ps)" "i = length (arr_objects ps)"
  shows "\<exists>ps' m'. RequestUnmarshal_params n i rq r m = Some (rq\<lparr>req_parameters := Some ps'\<rparr>, re, m')
     \<and> arr_wf (Some ps') \<and> nofail m'
     \<and> map obj_abs (arr_objects ps') = map obj_abs (arr_objects ps) @ replicate n MNil"
  using assms
proof (induction n arbitrary: i rq r ps m)
  case (Suc n)
  let ?ob = "Object V_NIL 0"
  obtain ok r2 m1 where ap: "ObjectArrayAppend (Some ps) (Some ?ob) (mem_add 1 m) = (ok, r2, m1)"
    by (metis prod_cases3)
  from ap Suc.prems(6) obtain ps1 where ps1: "r2 = Some ps1" "arr_wf (Some ps1)" "nofail m1"
      "arr_objects ps1 = arr_objects ps @ [copy_obj (Some ?ob)]"
    using Suc.prems(3) by (elim ObjectArrayAppend_wf) auto
  have step: "RequestUnmarshal_params (Suc n) i rq r m =
      RequestUnmarshal_params n (Suc i) (rq\<lparr>req_parameters := Some ps1\<rparr>) re m1"
    using Suc.prems ap ps1
    by (simp add: RequestUnmarshal_param_def create_defs create_nofail RequestParamAppend_def
        ObjectArrayLen_def param_buff_def)
  show ?case
  proof (cases n)
    case 0
    with step ps1 show ?thesis by auto
  next
    case (Suc k)
    have "\<exists>ps' m'. RequestUnmarshal_params n (Suc i) (rq\<lparr>req_parameters := Some ps1\<rparr>) re m1
        = Some ((rq\<lparr>req_parameters := Some ps1\<rparr>)\<lparr>req_parameters := Some ps'\<rparr>, re, m')
     \<and> arr_wf (Some ps') \<and> nofail m'
     \<and> map obj_abs (arr_objects ps') = map obj_abs (arr_objects ps1) @ replicate n MNil"
      using Suc.prems ps1 Suc by (intro Suc.IH) (auto simp: mpack_read_tag_def)
    with step ps1 show ?thesis by auto
  qed
qed simp

lemma read_tag_end: "mpack_read_tag (rd []) = (Tag_nil, \<lparr>r_data = [], r_error = mpack_error_invalid\<rparr>)"
  by (simp add: mpack_read_tag_def parse_defs mpack_reader_flag_error_def)

text \<open>
  C35: A request that is cut off before its parameters is not recognised as incomplete: if the
  header announces \<open>n > 0\<close> parameters and the buffer ends there, \<^verbatim>\<open>RequestUnmarshal\<close> delivers a request
  with \<open>n\<close> nil parameters (up to \<open>2 ^ 32 - 1\<close> of them for a five byte head) and reports the whole
  buffer as consumed, because the parameter loop never looks at the reader's error.
\<close>

theorem request_truncated_params_accepted:
  assumes n: "0 < n" "n < 2 ^ 32" and i: "0 \<le> i" "i < 2 ^ 32" and s: "length s < 2 ^ 32" and m: "nofail m"
    and bs: "bs = enc_arr_head 4 @ enc_int 0 @ enc_int i @ enc (MStr s) @ enc_arr_head n"
  shows "\<exists>q m'. RequestUnmarshal (Some \<lparr>rb_data = Some bs, rb_len = length bs\<rparr>) m
       = Some (Some q, Some \<lparr>rb_data = Some bs, rb_len = length bs\<rparr>, m')
     \<and> req_msgid q = of_int i \<and> req_method q = Some (until_nul s)
     \<and> map obj_abs (params_of q) = replicate n MNil"
proof -
  let ?tl = "enc_str_head (length s) @ s @ enc_arr_head n"
  have r: "mpack_reader_init_data bs = rd bs"
    by (simp add: mpack_reader_init_data_def)
  have 1: "mpack_read_tag (rd bs) = (Tag_array 4, rd (enc_int 0 @ enc_int i @ ?tl))"
    using read_tag_arr_head [of 4] by (simp add: bs)
  obtain t2 where 2: "mpack_read_tag (rd (enc_int 0 @ enc_int i @ ?tl)) = (t2, rd (enc_int i @ ?tl))"
      "header_int t2 = Some 0"
    using header_int_enc [of 0] by fastforce
  obtain t3 where 3: "mpack_read_tag (rd (enc_int i @ ?tl)) = (t3, rd ?tl)"
      "header_int t3 = Some (of_int i)"
    using header_int_enc [of i] i by fastforce
  let ?q = "\<lparr>req_type = HAZE_RPC_REQUEST, req_msgid = of_int i, req_method = Some (until_nul s),
           req_parameters = Some (ObjectArray [] (cap_for 0))\<rparr>"
  let ?re = "\<lparr>r_data = [], r_error = mpack_error_invalid\<rparr>"
  obtain ps' m' where p: "RequestUnmarshal_params n 0 ?q (rd []) (mem_add 4 m)
       = Some (?q\<lparr>req_parameters := Some ps'\<rparr>, ?re, m')"
     "map obj_abs (arr_objects ps') = replicate n MNil"
    using params_at_end [OF read_tag_end, of "mem_add 4 m" n ?q "ObjectArray [] (cap_for 0)" 0] n m
    by (auto simp: cap_for_pos)
  have u: "unat (of_nat n :: u32) = n" using n by (simp add: unat_of_nat)
  have b: "RequestUnmarshal_body b \<lparr>req_type = HAZE_RPC_REQUEST, req_msgid = of_int i,
        req_method = Some [], req_parameters = Some (ObjectArray [] (cap_for 0))\<rparr> (rd ?tl) (mem_add 4 m)
      = Some (Some (?q\<lparr>req_parameters := Some ps'\<rparr>), b, m')" for b
    using p(1) m s n read_tag_str_head [of "length s"] read_tag_arr_head [of n "[]"]
    by (simp add: RequestUnmarshal_body_def unat_of_nat u alloc_simps mem_simps RequestSetMethod_def
        free_opt_def mpack_reader_remaining_def)
  have "RequestUnmarshal_from \<lparr>rb_data = Some bs, rb_len = length bs\<rparr> bs m
      = Some (Some (?q\<lparr>req_parameters := Some ps'\<rparr>), \<lparr>rb_data = Some bs, rb_len = length bs\<rparr>, m')"
    using 1 2 3 b m by (simp add: RequestUnmarshal_from_def r RequestNew_nofail HAZE_RPC_REQUEST_def)
  moreover have "length bs \<noteq> 0" by (simp add: bs)
  ultimately show ?thesis
    using p by (auto simp: RequestUnmarshal_def RawBufferLen_def RawBufferData_def read_block_def
        params_of_def)
qed

theorem request_truncated_params_accepted_witness:
  "\<exists>q m'. RequestUnmarshal (Some \<lparr>rb_data = Some [0x94, 0, 5, 0xa1, 0x61, 0x92], rb_len = length [0x94, 0, 5, 0xa1, 0x61, 0x92 :: byte]\<rparr>)
       \<lparr>outcomes = [], live = 0\<rparr>
     = Some (Some q, Some \<lparr>rb_data = Some [0x94, 0, 5, 0xa1, 0x61, 0x92], rb_len = length [0x94, 0, 5, 0xa1, 0x61, 0x92 :: byte]\<rparr>, m')
     \<and> req_msgid q = 5 \<and> req_method q = Some (until_nul [0x61])
     \<and> map obj_abs (params_of q) = replicate 2 MNil"
  using request_truncated_params_accepted [of 2 5 "[0x61]" "\<lparr>outcomes = [], live = 0\<rparr>"
      "[0x94, 0, 5, 0xa1, 0x61, 0x92]"]
  by (simp add: nofail_def enc_arr_head_def enc_int_def enc_str_head_def)

text \<open>
  C36: An array parameter is not decoded and not skipped either: a request whose only parameter is an
  array is delivered without parameters, and the elements of that array are left in the stream,
  where the server takes them for the start of the next message.
\<close>

theorem request_array_param_desynchronises:
  assumes us: "length us < 2 ^ 32" and i: "0 \<le> i" "i < 2 ^ 32" and s: "length s < 2 ^ 32" and m: "nofail m"
    and bs: "bs = enc (MArr [MInt 0, MInt i, MStr s, MArr [MArr us]])"
  shows "\<exists>q m'. RequestUnmarshal (Some \<lparr>rb_data = Some bs, rb_len = length bs\<rparr>) m
       = Some (Some q, Some \<lparr>rb_data = Some bs, rb_len = length bs - length (enc_list us)\<rparr>, m')
     \<and> req_method q = Some (until_nul s) \<and> params_of q = []"
proof -
  let ?us = "enc_arr_head (length us) @ enc_list us"
  let ?tl = "enc_str_head (length s) @ s @ enc_arr_head 1 @ ?us"
  have bs': "bs = enc_arr_head 4 @ enc_int 0 @ enc_int i @ ?tl"
    by (simp add: bs Suc_4 enc_list_def)
  have r: "mpack_reader_init_data bs = rd bs"
    by (simp add: mpack_reader_init_data_def)
  have 1: "mpack_read_tag (rd bs) = (Tag_array 4, rd (enc_int 0 @ enc_int i @ ?tl))"
    using read_tag_arr_head [of 4] by (simp add: bs')
  obtain t2 where 2: "mpack_read_tag (rd (enc_int 0 @ enc_int i @ ?tl)) = (t2, rd (enc_int i @ ?tl))"
      "header_int t2 = Some 0"
    using header_int_enc [of 0] by fastforce
  obtain t3 where 3: "mpack_read_tag (rd (enc_int i @ ?tl)) = (t3, rd ?tl)"
      "header_int t3 = Some (of_int i)"
    using header_int_enc [of i] i by fastforce
  let ?q = "\<lparr>req_type = HAZE_RPC_REQUEST, req_msgid = of_int i, req_method = Some (until_nul s),
           req_parameters = Some (ObjectArray [] (cap_for 0))\<rparr>"
  have p: "RequestUnmarshal_params 1 0 ?q (rd ?us) m' = Some (?q, rd (enc_list us), m')" for m'
    using us read_tag_arr_head [of "length us" "enc_list us"]
    by (simp add: RequestUnmarshal_param_def)
  have b: "RequestUnmarshal_body b \<lparr>req_type = HAZE_RPC_REQUEST, req_msgid = of_int i,
        req_method = Some [], req_parameters = Some (ObjectArray [] (cap_for 0))\<rparr> (rd ?tl) (mem_add 4 m)
      = Some (Some ?q, b\<lparr>rb_len := rb_len b - length (enc_list us)\<rparr>, mem_add 4 m)" for b
    using p m s read_tag_str_head [of "length s"] read_tag_arr_head [of 1]
    by (simp add: RequestUnmarshal_body_def unat_of_nat alloc_simps mem_simps RequestSetMethod_def
        free_opt_def mpack_reader_remaining_def)
  have "RequestUnmarshal_from \<lparr>rb_data = Some bs, rb_len = length bs\<rparr> bs m
      = Some (Some ?q, \<lparr>rb_data = Some bs, rb_len = length bs - length (enc_list us)\<rparr>, mem_add 4 m)"
    using 1 2 3 b m by (simp add: RequestUnmarshal_from_def r RequestNew_nofail HAZE_RPC_REQUEST_def)
  moreover have "length bs \<noteq> 0" by (simp add: bs)
  ultimately show ?thesis
    by (auto simp: RequestUnmarshal_def RawBufferLen_def RawBufferData_def read_block_def params_of_def)
qed

theorem request_array_param_desynchronises_witness:
  "\<exists>q m'. RequestUnmarshal (Some \<lparr>rb_data = Some (enc (MArr [MInt 0, MInt 5, MStr [97], MArr [MArr [MInt 1, MInt 2]]])),
        rb_len = length (enc (MArr [MInt 0, MInt 5, MStr [97], MArr [MArr [MInt 1, MInt 2]]]))\<rparr>)
       \<lparr>outcomes = [], live = 0\<rparr>
     = Some (Some q, Some \<lparr>rb_data = Some (enc (MArr [MInt 0, MInt 5, MStr [97], MArr [MArr [MInt 1, MInt 2]]])),
        rb_len = length (enc (MArr [MInt 0, MInt 5, MStr [97], MArr [MArr [MInt 1, MInt 2]]])) - length (enc_list [MInt 1, MInt 2])\<rparr>, m')
     \<and> req_method q = Some (until_nul [97]) \<and> params_of q = []"
  by (rule request_array_param_desynchronises [of _ 5]) (simp_all add: nofail_def)

end
