(* ===== verification/Haze_Notification.thy ===== *)
theory Haze_Notification
  imports Haze_Response
begin

text \<open>
  \<^verbatim>\<open>source/api/proto/Notification.c\<close>: MessagePack-RPC notifications \<^verbatim>\<open>[2, method, params]\<close> with
  their own recursive writer and reader. Unlike the other two message types the reader checks its
  error state after every step.
\<close>

unbundle bit_operations_syntax

definition NOTIFICATION_MAX_METHOD_SIZE :: nat where "NOTIFICATION_MAX_METHOD_SIZE = 4096"
definition NOTIFICATION_MAX_PARAMS :: u32 where "NOTIFICATION_MAX_PARAMS = 4096"

record Notification =
  not_type :: u32
  not_method :: "byte list option"
  not_params :: "ObjectArray option"

subsection \<open>Writing\<close>

fun NotificationWriteObject ::
  "Object option \<Rightarrow> mpack_writer \<Rightarrow> mem \<Rightarrow> (bool \<times> mpack_writer \<times> mem) option"
and NotificationWriteObject_loop ::
  "Object option list \<Rightarrow> mpack_writer \<Rightarrow> mem \<Rightarrow> (bool \<times> mpack_writer \<times> mem) option" where
  "NotificationWriteObject None w m = Some (False, w, m)"
| "NotificationWriteObject (Some (Object v sz)) w m =
     (let done = (\<lambda>(w, m). Some (w_error w = mpack_ok, w, m)) in
      case v of
        V_NIL \<Rightarrow> done (mpack_write_nil w m)
      | V_BOOL b \<Rightarrow> done (mpack_write_bool w b m)
      | V_INT i \<Rightarrow> done (mpack_write_i64 w i m)
      | V_UINT u \<Rightarrow> done (mpack_write_u64 w u m)
      | V_FLOAT f \<Rightarrow> done (mpack_write_float w f m)
      | V_DOUBLE d \<Rightarrow> done (mpack_write_double w d m)
      | V_STR None \<Rightarrow> Some (False, w, m)
      | V_STR (Some s) \<Rightarrow>
          (if 2 ^ 32 - 1 < sz then Some (False, w, m)
           else (case read_cstr s sz of None \<Rightarrow> None | Some bs \<Rightarrow> done (mpack_write_str w bs m)))
      | V_BIN None \<Rightarrow> Some (False, w, m)
      | V_BIN (Some rb) \<Rightarrow>
          (if 2 ^ 32 - 1 < rb_len rb then Some (False, w, m)
           else if 0 < rb_len rb \<and> rb_data rb = None then Some (False, w, m)
           else (case read_block (case rb_data rb of None \<Rightarrow> [] | Some d \<Rightarrow> d) (rb_len rb) of
                   None \<Rightarrow> None
                 | Some bs \<Rightarrow> done (mpack_write_bin w bs m)))
      | V_ARRAY None \<Rightarrow> Some (False, w, m)
      | V_ARRAY (Some (ObjectArray objs cap)) \<Rightarrow>
          (if 2 ^ 32 - 1 < length objs then Some (False, w, m)
           else
             let (w, m) = mpack_start_array w (to_u32 (length objs)) m
             in case NotificationWriteObject_loop objs w m of
                  None \<Rightarrow> None
                | Some (ok, w, m) \<Rightarrow> if \<not> ok then Some (False, w, m) else done (w, m))
      | _ \<Rightarrow> Some (False, w, m))"
| "NotificationWriteObject_loop [] w m = Some (True, w, m)"
| "NotificationWriteObject_loop (x # xs) w m =
     (case NotificationWriteObject x w m of
        None \<Rightarrow> None
      | Some (ok, w, m) \<Rightarrow>
          if \<not> ok then Some (False, w, m) else NotificationWriteObject_loop xs w m)"

subsection \<open>Reading\<close>

text \<open>
  Fuel stands for the nesting depth, as in \<open>ObjectUnmarshalMPack\<close>; \<open>None\<close> is the run without fuel,
  excluded by \<open>notification_read_has_fuel\<close>. The loop returns \<open>Inl\<close> when the caller must return
  \<^verbatim>\<open>NULL\<close> with the array already released.
\<close>

fun NotificationReadObject ::
  "nat \<Rightarrow> mpack_reader \<Rightarrow> mem \<Rightarrow> (Object option \<times> mpack_reader \<times> mem) option"
and NotificationReadObject_loop ::
  "nat \<Rightarrow> nat \<Rightarrow> ObjectArray \<Rightarrow> mpack_reader \<Rightarrow> mem \<Rightarrow>
   (ObjectArray option \<times> mpack_reader \<times> mem) option" where
  "NotificationReadObject 0 r m = None"
| "NotificationReadObject (Suc fuel) r m =
     (let (tag, r) = mpack_peek_tag r in
      case tag of
        Tag_nil \<Rightarrow>
          (let r = mpack_expect_nil r; (ob, m) = ObjectCreateNil m in Some (ob, r, m))
      | Tag_bool _ \<Rightarrow>
          (let (b, r) = mpack_expect_bool r; (ob, m) = ObjectCreateBool b m in Some (ob, r, m))
      | Tag_int _ \<Rightarrow>
          (let (i, r) = mpack_expect_i64 r; (ob, m) = ObjectCreateInt i m in Some (ob, r, m))
      | Tag_uint _ \<Rightarrow>
          (let (u, r) = mpack_expect_u64 r; (ob, m) = ObjectCreateUInt u m in Some (ob, r, m))
      | Tag_float _ \<Rightarrow>
          (let (f, r) = mpack_expect_float_strict r; (ob, m) = ObjectCreateFloat f m in Some (ob, r, m))
      | Tag_double _ \<Rightarrow>
          (let (d, r) = mpack_expect_double_strict r; (ob, m) = ObjectCreateDouble d m in Some (ob, r, m))
      | Tag_str _ \<Rightarrow>
          (let (len, r) = mpack_expect_str r in
           if r_error r \<noteq> mpack_ok then Some (None, r, m)
           else
             let (ok, m) = malloc m in
             if \<not> ok then Some (None, mpack_reader_flag_error r mpack_error_memory, m)
             else
               let (buffer, r) = mpack_read_bytes r (unat len) in
               if r_error r \<noteq> mpack_ok then Some (None, r, free1 m)
               else if 0 \<in> set buffer
                 then Some (None, mpack_reader_flag_error r mpack_error_type, free1 m)
               else
                 let (ob, m) = ObjectNew m in
                 if ob = None then Some (None, mpack_reader_flag_error r mpack_error_memory, free1 m)
                 else Some (Some (Object (V_STR (Some buffer)) (unat len)), r, m))
      | Tag_bin _ \<Rightarrow>
          (let (len, r) = mpack_expect_bin r in
           if r_error r \<noteq> mpack_ok then Some (None, r, m)
           else
             let (ok, m) = malloc m in
             if \<not> ok then Some (None, mpack_reader_flag_error r mpack_error_memory, m)
             else
               let (data, r) =
                     (if 0 < unat len
                      then let (d, r) = mpack_read_bytes r (unat len) in (Some d, r)
                      else (None, r))
               in if r_error r \<noteq> mpack_ok then Some (None, r, free1 m)
                  else
                    let (ob, m) = ObjectNew m in
                    if ob = None then Some (None, mpack_reader_flag_error r mpack_error_memory, free1 m)
                    else Some (Some (Object (V_BIN (Some \<lparr>rb_data = data, rb_len = unat len\<rparr>)) (unat len)),
                               r, m))
      | Tag_array _ \<Rightarrow>
          (let (count, r) = mpack_expect_array_max r NOTIFICATION_MAX_PARAMS in
           if r_error r \<noteq> mpack_ok then Some (None, r, m)
           else
             let (array, m) = ObjectArrayCreate m in
             case array of
               None \<Rightarrow> Some (None, mpack_reader_flag_error r mpack_error_memory, m)
             | Some a \<Rightarrow>
                 (case NotificationReadObject_loop fuel (unat count) a r m of
                    None \<Rightarrow> None
                  | Some (None, r, m) \<Rightarrow> Some (None, r, m)
                  | Some (Some a, r, m) \<Rightarrow>
                      if r_error r \<noteq> mpack_ok then Some (None, r, ObjectArrayFree (Some a) m)
                      else
                        let (ob, m) = ObjectNew m in
                        if ob = None
                        then Some (None, mpack_reader_flag_error r mpack_error_memory,
                                   ObjectArrayFree (Some a) m)
                        else Some (Some (Object (V_ARRAY (Some a)) (unat count)), r, m)))
      | _ \<Rightarrow> Some (None, mpack_reader_flag_error (mpack_discard r) mpack_error_unsupported, m))"
| "NotificationReadObject_loop fuel 0 a r m = Some (Some a, r, m)"
| "NotificationReadObject_loop fuel (Suc n) a r m =
     (if r_error r \<noteq> mpack_ok then Some (None, r, ObjectArrayFree (Some a) m)
      else (case NotificationReadObject fuel r m of
          None \<Rightarrow> None
        | Some (None, r, m) \<Rightarrow> Some (None, r, ObjectArrayFree (Some a) m)
        | Some (Some v, r, m) \<Rightarrow>
            (let (ok, a', m) = ObjectArrayAppend (Some a) (Some v) m in
             if \<not> ok
             then Some (None, mpack_reader_flag_error r mpack_error_memory,
                        ObjectArrayFree a' (ObjectFree (Some v) m))
             else NotificationReadObject_loop fuel n (case a' of None \<Rightarrow> a | Some x \<Rightarrow> x) r
                    (ObjectFree (Some v) m))))"

subsection \<open>Public functions\<close>

definition NotificationNew :: "mem \<Rightarrow> Notification option \<times> mem" where
  "NotificationNew m =
     (let (ok, m) = malloc m in
      if \<not> ok then (None, m)
      else
        let (ps, m) = ObjectArrayCreate m in
        if ps = None then (None, free1 m)
        else (Some \<lparr>not_type = HAZE_RPC_NOTIFICATION, not_method = None, not_params = ps\<rparr>, m))"

definition NotificationFree :: "Notification option \<Rightarrow> mem \<Rightarrow> mem" where
  "NotificationFree n m =
     (case n of
        None \<Rightarrow> m
      | Some x \<Rightarrow> free1 (ObjectArrayFree (not_params x) (free_opt (not_method x) m)))"

definition NotificationSetMethod ::
  "Notification option \<Rightarrow> byte list option \<Rightarrow> mem \<Rightarrow> Notification option \<times> mem" where
  "NotificationSetMethod n method m =
     (case n of
        None \<Rightarrow> (None, m)
      | Some x \<Rightarrow>
          (case method of
             None \<Rightarrow> (Some (x\<lparr>not_method := None\<rparr>), free_opt (not_method x) m)
           | Some s \<Rightarrow>
               (let (copy, m) = strdup s m in
                if copy = None then (Some x, m)
                else (Some (x\<lparr>not_method := copy\<rparr>), free_opt (not_method x) m))))"

fun NotificationMarshal_params ::
  "Object option list \<Rightarrow> mpack_writer \<Rightarrow> mem \<Rightarrow> (mpack_writer \<times> mem) option" where
  "NotificationMarshal_params [] w m = Some (w, m)"
| "NotificationMarshal_params (x # xs) w m =
     (case NotificationWriteObject x w m of
        None \<Rightarrow> None
      | Some (ok, w, m) \<Rightarrow>
          if \<not> ok then Some (mpack_writer_flag_error w mpack_error_invalid, m)
          else NotificationMarshal_params xs w m)"

definition NotificationMarshal :: "Notification option \<Rightarrow> mem \<Rightarrow> (RawBuffer option \<times> mem) option" where
  "NotificationMarshal n m =
     (case n of
        None \<Rightarrow> Some (None, m)
      | Some x \<Rightarrow>
          (case (not_method x, not_params x) of
             (Some method, Some ps) \<Rightarrow>
               (if 2 ^ 32 - 1 < length method \<or> 2 ^ 32 - 1 < length (arr_objects ps)
                then Some (None, m)
                else
                  let (w, m) = mpack_writer_init_growable m;
                      (w, m) = mpack_start_array w 3 m;
                      (w, m) = mpack_write_u64 w (ucast HAZE_RPC_NOTIFICATION) m;
                      (w, m) = mpack_write_str w method m;
                      (w, m) = mpack_start_array w (to_u32 (length (arr_objects ps))) m
                  in do {
                    (w, m) \<leftarrow> NotificationMarshal_params (arr_objects ps) w m;
                    let (err, data, m) = mpack_writer_destroy w m;
                    if err \<noteq> mpack_ok then Some (None, free_opt data m)
                    else
                      let (ok, m) = malloc m in
                      if \<not> ok then Some (None, free_opt data m)
                      else Some (Some \<lparr>rb_data = data,
                                       rb_len = (case data of None \<Rightarrow> 0 | Some d \<Rightarrow> length d)\<rparr>, m)
                  })
           | _ \<Rightarrow> Some (None, m)))"

fun NotificationUnmarshal_params ::
  "nat \<Rightarrow> nat \<Rightarrow> Notification \<Rightarrow> mpack_reader \<Rightarrow> mem \<Rightarrow>
   (Notification option \<times> mpack_reader \<times> mem) option" where
  "NotificationUnmarshal_params fuel 0 x r m = Some (Some x, r, m)"
| "NotificationUnmarshal_params fuel (Suc n) x r m =
     (case NotificationReadObject fuel r m of
        None \<Rightarrow> None
      | Some (None, r, m) \<Rightarrow> Some (None, r, NotificationFree (Some x) m)
      | Some (Some ob, r, m) \<Rightarrow>
          (let (ok, ps, m) = ObjectArrayAppend (not_params x) (Some ob) m;
               x = x\<lparr>not_params := ps\<rparr>;
               m = ObjectFree (Some ob) m
           in if \<not> ok then Some (None, r, NotificationFree (Some x) m)
              else NotificationUnmarshal_params fuel n x r m))"

definition NotificationUnmarshal :: "RawBuffer option \<Rightarrow> mem \<Rightarrow> (Notification option \<times> mem) option" where
  "NotificationUnmarshal b m =
     (case RawBufferData b of
        None \<Rightarrow> Some (None, m)
      | Some d \<Rightarrow>
          if RawBufferLen b = 0 then Some (None, m)
          else (case read_block d (RawBufferLen b) of
              None \<Rightarrow> None
            | Some bs \<Rightarrow>
                (let r = mpack_reader_init_data bs;
                     (count, r) = mpack_expect_array_max r 3
                 in if r_error r \<noteq> mpack_ok \<or> count \<noteq> 3 then Some (None, m)
                    else
                      let r = mpack_expect_uint_match r (ucast HAZE_RPC_NOTIFICATION)
                      in if r_error r \<noteq> mpack_ok then Some (None, m)
                         else
                           let (method, r, m) = mpack_expect_cstr_alloc r NOTIFICATION_MAX_METHOD_SIZE m
                           in if method = None \<or> r_error r \<noteq> mpack_ok
                              then Some (None, free_opt method m)
                              else
                                let (param_count, r) = mpack_expect_array_max r NOTIFICATION_MAX_PARAMS
                                in if r_error r \<noteq> mpack_ok then Some (None, free_opt method m)
                                   else
                                     let (x, m) = NotificationNew m
                                     in case x of
                                          None \<Rightarrow> Some (None, free_opt method m)
                                        | Some x \<Rightarrow>
                                            (case NotificationUnmarshal_params (Suc (length bs))
                                                    (unat param_count) (x\<lparr>not_method := method\<rparr>) r m of
                                               None \<Rightarrow> None
                                             | Some (None, r, m) \<Rightarrow> Some (None, m)
                                             | Some (Some x, r, m) \<Rightarrow>
                                                 if mpack_reader_destroy r \<noteq> mpack_ok
                                                 then Some (None, NotificationFree (Some x) m)
                                                 else Some (Some x, m)))))"

fun NotificationCreate_params ::
  "Object option list \<Rightarrow> Notification \<Rightarrow> mem \<Rightarrow> Notification option \<times> mem" where
  "NotificationCreate_params [] x m = (Some x, m)"
| "NotificationCreate_params (p # ps) x m =
     (if p = None then (None, NotificationFree (Some x) m)
      else
        let (ok, a, m) = ObjectArrayAppend (not_params x) p m;
            x = x\<lparr>not_params := a\<rparr>
        in if \<not> ok then (None, NotificationFree (Some x) m)
           else NotificationCreate_params ps x m)"

text \<open>\<open>params\<close> is the vector of \<^verbatim>\<open>param_count\<close> pointers.\<close>

definition NotificationCreate ::
  "byte list option \<Rightarrow> Object option list \<Rightarrow> mem \<Rightarrow> Notification option \<times> mem" where
  "NotificationCreate method params m =
     (if method = None \<and> length params \<noteq> 0 then (None, m)
      else if 2 ^ 32 - 1 < length params then (None, m)
      else
        let (n, m) = NotificationNew m in
        if n = None then (None, m)
        else
          let (n, m) = NotificationSetMethod n method m
          in case n of
               None \<Rightarrow> (None, m)
             | Some x \<Rightarrow>
                 if method \<noteq> None \<and> not_method x = None then (None, NotificationFree (Some x) m)
                 else NotificationCreate_params params x m)"

subsection \<open>The values of a notification\<close>

text \<open>The value the writer sends for an object; \<open>None\<close> where it refuses.\<close>

fun not_val :: "Object option \<Rightarrow> mval option" where
  "not_val None = None"
| "not_val (Some (Object v sz)) =
     (case v of
        V_NIL \<Rightarrow> Some MNil
      | V_BOOL b \<Rightarrow> Some (MBool b)
      | V_INT i \<Rightarrow> Some (MInt (sint i))
      | V_UINT u \<Rightarrow> Some (MInt (uint u))
      | V_FLOAT f \<Rightarrow> Some (MFloat f)
      | V_DOUBLE d \<Rightarrow> Some (MDouble d)
      | V_STR (Some s) \<Rightarrow> Some (MStr s)
      | V_BIN (Some rb) \<Rightarrow> Some (MBin (rb_bytes rb))
      | V_ARRAY (Some (ObjectArray objs cap)) \<Rightarrow> map_option MArr (those (map not_val objs))
      | _ \<Rightarrow> None)"

text \<open>The values the reader accepts: strings without NUL, arrays of at most 4096 elements.\<close>

fun mval_notif :: "mval \<Rightarrow> bool" where
  "mval_notif (MStr s) = no_nul s"
| "mval_notif (MArr vs) = (length vs \<le> 4096 \<and> list_all mval_notif vs)"
| "mval_notif _ = True"

lemma those_map_Some:
  "those (map f xs) = Some ys \<longleftrightarrow> length ys = length xs \<and> (\<forall>i < length xs. f (xs ! i) = Some (ys ! i))"
proof (induction xs arbitrary: ys)
  case (Cons x xs)
  show ?case
  proof
    assume "those (map f (x # xs)) = Some ys"
    then obtain y zs where "f x = Some y" "those (map f xs) = Some zs" "ys = y # zs"
      by (auto split: option.splits)
    with Cons [of zs] show "length ys = length (x # xs) \<and> (\<forall>i < length (x # xs). f ((x # xs) ! i) = Some (ys ! i))"
      by (auto simp: less_Suc_eq_0_disj)
  next
    assume a: "length ys = length (x # xs) \<and> (\<forall>i < length (x # xs). f ((x # xs) ! i) = Some (ys ! i))"
    then obtain y zs where ys: "ys = y # zs" by (cases ys) auto
    have "f x = Some y" using a ys by force
    moreover have "those (map f xs) = Some zs"
      using Cons [of zs] a ys by (fastforce)
    ultimately show "those (map f (x # xs)) = Some ys" by (simp add: ys)
  qed
qed auto

lemma those_Some_map [simp]: "those (map Some xs) = Some xs"
  by (induction xs) auto

lemma those_map_append:
  "those (map f (xs @ ys)) = Option.bind (those (map f xs)) (\<lambda>a. map_option (\<lambda>b. a @ b) (those (map f ys)))"
  by (induction xs) (auto split: option.split simp: option.map_comp comp_def map_option_case)

lemma not_val_copy: "obj_wf x \<Longrightarrow> not_val (copy_obj x) = not_val x"
proof (induction x rule: not_val.induct)
  case (2 v sz)
  show ?case
  proof (cases v)
    case (V_ARRAY a)
    show ?thesis
    proof (cases a)
      case (Some arr)
      obtain objs cap where arr: "arr = ObjectArray objs cap" by (cases arr)
      have "map (not_val \<circ> copy_obj) objs = map not_val objs"
        using 2 V_ARRAY Some arr by (auto simp: list_all_iff)
      with V_ARRAY Some arr show ?thesis by (simp del: map_eq_conv)
    qed (simp add: V_ARRAY)
  qed (auto split: option.splits)
qed simp

subsection \<open>The writer\<close>

lemma emitted_stop:
  assumes "emitted a w m w1 m1" and "w_error w1 \<noteq> mpack_ok"
  shows "emitted (a @ b) w m w1 m1"
proof (cases "w_inv w")
  case True
  note E = emittedD [OF assms(1) True]
  show ?thesis
    using E assms(2) by (auto simp: emitted_def)
qed (simp add: emitted_def)

definition nwrites :: "byte list \<Rightarrow> mpack_writer \<Rightarrow> mem \<Rightarrow> (bool \<times> mpack_writer \<times> mem) option \<Rightarrow> bool" where
  "nwrites bs w m res \<longleftrightarrow>
     (\<exists>w' m'. res = Some (w_error w' = mpack_ok, w', m') \<and> emitted bs w m w' m')"

text \<open>The loop reports a failure only when the writer has one.\<close>

definition nwrites_all :: "byte list \<Rightarrow> mpack_writer \<Rightarrow> mem \<Rightarrow> (bool \<times> mpack_writer \<times> mem) option \<Rightarrow> bool" where
  "nwrites_all bs w m res \<longleftrightarrow>
     (\<exists>ok w' m'. res = Some (ok, w', m') \<and> emitted bs w m w' m' \<and> (ok \<or> w_error w' \<noteq> mpack_ok))"

lemma nwrites_prim:
  "emits bs w m (Some p) \<Longrightarrow> nwrites bs w m ((\<lambda>(w, m). Some (w_error w = mpack_ok, w, m)) p)"
  by (cases p) (auto simp: emits_def nwrites_def)

lemma notification_write_bin:
  assumes "rb_canon rb" "mval_ok (MBin (rb_bytes rb))"
  shows "nwrites (enc (MBin (rb_bytes rb))) w m (NotificationWriteObject (Some (Object (V_BIN (Some rb)) sz)) w m)"
proof -
  have "length (rb_bytes rb) = rb_len rb"
    using assms(1) by (auto simp: rb_canon_def rb_ok_def rb_bytes_def split: option.splits)
  moreover from this have "read_block (case rb_data rb of None \<Rightarrow> [] | Some d \<Rightarrow> d) (rb_len rb) = Some (rb_bytes rb)"
    using assms(1) by (auto simp: rb_canon_def rb_ok_def rb_bytes_def read_block_def split: option.splits)
  ultimately show ?thesis
    using assms nwrites_prim [OF emits_blobs(2) [of "rb_bytes rb" w m]]
    by (auto simp: Let_def rb_canon_def rb_ok_def)
qed

lemma notification_write_array:
  assumes vs: "those (map not_val objs) = Some vs" "length vs < 2 ^ 32"
    and loop: "\<And>w1 m1. mpack_start_array w (to_u32 (length objs)) m = (w1, m1)
      \<Longrightarrow> nwrites_all (enc_list vs) w1 m1 (NotificationWriteObject_loop objs w1 m1)"
  shows "nwrites (enc (MArr vs)) w m (NotificationWriteObject (Some (Object (V_ARRAY (Some (ObjectArray objs cap))) sz)) w m)"
proof -
  have len: "length vs = length objs" using vs(1) by (simp add: those_map_Some)
  obtain w1 m1 where s: "mpack_start_array w (to_u32 (length objs)) m = (w1, m1)" by fastforce
  have e: "emitted (enc_arr_head (length vs)) w m w1 m1"
    using emitted_array [OF s] vs(2) len by simp
  obtain ok w2 m2 where "NotificationWriteObject_loop objs w1 m1 = Some (ok, w2, m2)"
      "emitted (enc_list vs) w1 m1 w2 m2" "ok \<or> w_error w2 \<noteq> mpack_ok"
    using loop [OF s] by (auto simp: nwrites_all_def)
  with e s vs(2) len show ?thesis
    by (auto simp: nwrites_def enc_MArr Let_def simp del: enc.simps intro: emitted_trans)
qed

lemma notification_write:
  "obj_wf x \<Longrightarrow> not_val x = Some v \<Longrightarrow> mval_ok v \<Longrightarrow> nwrites (enc v) w m (NotificationWriteObject x w m)"
  "list_all obj_wf xs \<Longrightarrow> those (map not_val xs) = Some vs \<Longrightarrow> list_all mval_ok vs \<Longrightarrow>
   nwrites_all (enc_list vs) w m (NotificationWriteObject_loop xs w m)"
proof (induction x w m and xs w m arbitrary: v and vs
    rule: NotificationWriteObject_NotificationWriteObject_loop.induct)
  case (2 va sz w m)
  show ?case
  proof (cases va)
    case (V_STR s)
    with 2 show ?thesis
      using nwrites_prim [OF emits_blobs(1)] by (auto split: option.splits simp: Let_def)
  next
    case (V_BIN b)
    show ?thesis
    proof (cases b)
      case (Some rb)
      with 2 V_BIN have "rb_canon rb" "v = MBin (rb_bytes rb)" by auto
      with 2(4) V_BIN Some show ?thesis using notification_write_bin by blast
    qed (use 2 V_BIN in simp)
  next
    case (V_ARRAY a)
    show ?thesis
    proof (cases a)
      case (Some arr)
      obtain objs cap where arr: "arr = ObjectArray objs cap" by (cases arr)
      obtain vs where vs: "v = MArr vs" "those (map not_val objs) = Some vs"
        using 2(3) V_ARRAY Some arr by auto
      then have "length vs = length objs" by (simp add: those_map_Some)
      with 2 V_ARRAY Some arr vs show ?thesis
        by (auto simp del: enc.simps NotificationWriteObject.simps simp: list_all_iff intro!: notification_write_array)
    qed (use 2 V_ARRAY in simp)
  qed (use 2 in \<open>auto intro: nwrites_prim emits_nil emits_scalars [unfolded mpack_write_int_def mpack_write_uint_def] simp: Let_def\<close>)
next
  case (4 x xs w m)
  obtain y ys where vs: "vs = y # ys" "not_val x = Some y" "those (map not_val xs) = Some ys"
    using 4(4) by (auto split: option.splits)
  obtain w1 m1 where e: "NotificationWriteObject x w m = Some (w_error w1 = mpack_ok, w1, m1)"
      "emitted (enc y) w m w1 m1"
    using 4(1) [of y] 4(3,5) vs by (auto simp: nwrites_def)
  show ?case
  proof (cases "w_error w1 = mpack_ok")
    case True
    then have "nwrites_all (enc_list ys) w1 m1 (NotificationWriteObject_loop xs w1 m1)"
      using 4(2) [OF e(1) refl refl] 4(3,5) vs by simp
    with e True vs show ?thesis by (auto simp: nwrites_all_def intro: emitted_trans)
  next
    case False
    with e vs show ?thesis by (auto simp: nwrites_all_def intro: emitted_stop)
  qed
qed (auto simp: nwrites_def nwrites_all_def emitted_refl)

lemma notification_params_emits:
  assumes "list_all obj_wf xs" "those (map not_val xs) = Some vs" "list_all mval_ok vs"
  shows "emits (enc_list vs) w m (NotificationMarshal_params xs w m)"
  using assms
proof (induction xs arbitrary: vs w m)
  case (Cons x xs)
  obtain y ys where vs: "vs = y # ys" "not_val x = Some y" "those (map not_val xs) = Some ys"
    using Cons.prems(2) by (auto split: option.splits)
  obtain w1 m1 where e: "NotificationWriteObject x w m = Some (w_error w1 = mpack_ok, w1, m1)"
      "emitted (enc y) w m w1 m1"
    using notification_write(1) [of x y w m] Cons.prems vs by (auto simp: nwrites_def)
  show ?case
  proof (cases "w_error w1 = mpack_ok")
    case True
    have "emits (enc_list ys) w1 m1 (NotificationMarshal_params xs w1 m1)"
      using Cons vs by simp
    with e True vs show ?thesis by (auto simp: emits_def intro: emitted_trans)
  next
    case False
    with e vs show ?thesis by (auto simp: emits_def mpack_writer_flag_error_def intro: emitted_stop)
  qed
qed (simp add: emits_def emitted_refl)

definition not_abs :: "byte list \<Rightarrow> mval list \<Rightarrow> mval" where
  "not_abs method vs = MArr [MInt 2, MStr method, MArr vs]"

lemma NotificationMarshal_cases:
  assumes x: "not_method x = Some s" "not_params x = Some ps"
    and s: "length s < 2 ^ 32" and vs: "arr_wf (Some ps)"
      "those (map not_val (arr_objects ps)) = Some vs" "list_all mval_ok vs" "length vs < 2 ^ 32"
  defines "bs \<equiv> enc (not_abs s vs)"
  shows "\<exists>r m'. NotificationMarshal (Some x) m = Some (r, m')
      \<and> (r = None \<and> live m' = live m
         \<or> r = Some \<lparr>rb_data = Some bs, rb_len = length bs\<rparr> \<and> live m' = live m + 2)
      \<and> (nofail m \<and> length bs \<le> 2 ^ 62 \<longrightarrow> r \<noteq> None \<and> m' = mem_add 2 m)"
proof -
  let ?n = "length (arr_objects ps)"
  have n: "length vs = ?n" using vs(2) by (simp add: those_map_Some)
  have wf: "list_all obj_wf (arr_objects ps)" using vs(1) by (cases ps) (auto simp: list_all_iff)
  obtain w0 m0 where 0: "mpack_writer_init_growable m = (w0, m0)" by fastforce
  obtain w1 m1 where 1: "mpack_start_array w0 3 m0 = (w1, m1)" by fastforce
  obtain w2 m2 where 2: "mpack_write_u64 w1 2 m1 = (w2, m2)" by fastforce
  obtain w3 m3 where 3: "mpack_write_str w2 s m2 = (w3, m3)" by fastforce
  obtain w4 m4 where 4: "mpack_start_array w3 (to_u32 ?n) m3 = (w4, m4)" by fastforce
  obtain w5 m5 where 5: "NotificationMarshal_params (arr_objects ps) w4 m4 = Some (w5, m5)"
      "emitted (enc_list vs) w4 m4 w5 m5"
    using notification_params_emits [OF wf vs(2,3), of w4 m4] by (auto simp: emits_def)
  obtain e data m6 where 6: "mpack_writer_destroy w5 m5 = (e, data, m6)" by (metis prod_cases3)
  have em: "emitted bs w0 m0 w5 m5"
    using emitted_trans [OF emitted_array [OF 1] emitted_trans [OF emitted_u64 [OF 2]
          emitted_trans [OF emitted_str [OF 3 s] emitted_trans [OF emitted_array [OF 4] 5(2)]]]] n vs(4)
    by (simp add: bs_def not_abs_def Suc_3 enc_list_def)
  obtain ok m7 where 7: "malloc m6 = (ok, m7)" by fastforce
  note S = growable_session [OF 0 em 6]
  have "NotificationMarshal (Some x) m = Some (if e \<noteq> mpack_ok \<or> \<not> ok
      then (None, free_opt data (if e \<noteq> mpack_ok then m6 else m7))
      else (Some \<lparr>rb_data = data, rb_len = (case data of None \<Rightarrow> 0 | Some d \<Rightarrow> length d)\<rparr>, m7))"
    using x s vs(4) n 0 1 2 3 4 5(1) 6 7
    by (simp add: NotificationMarshal_def HAZE_RPC_NOTIFICATION_def)
  then show ?thesis
    using S malloc_live [OF 7] 7 by (auto simp: free_opt_live malloc_nofail)
qed

subsection \<open>The reader\<close>

definition nfueled :: "mpack_reader \<Rightarrow> ('a \<times> mpack_reader \<times> mem) option \<Rightarrow> bool" where
  "nfueled r res \<longleftrightarrow> (\<exists>x r' m'. res = Some (x, r', m') \<and> r_step r r')"

lemma nfueled_Some [simp]: "nfueled r (Some (x, r', m')) = r_step r r'"
  by (simp add: nfueled_def)

lemma nfueled_trans: "r_step r r1 \<Longrightarrow> nfueled r1 res \<Longrightarrow> nfueled r res"
  by (auto simp: nfueled_def intro: r_step_trans)

lemma expect_array_max_shorter:
  assumes "mpack_expect_array_max r n = (count, r')" and "r_error r' = mpack_ok"
  shows "length (r_data r') < length (r_data r)"
proof -
  obtain t r1 where t: "mpack_read_tag r = (t, r1)" by fastforce
  have "r' = r1"
    using assms t by (auto simp: mpack_expect_array_max_def mpack_expect_array_range_def
        mpack_expect_array_def Let_def split: if_splits mpack_tag.splits)
  with r_step_read_tag(2) [OF t] assms(2) show ?thesis by simp
qed

lemma r_step_discard_flag: "r_step r (mpack_reader_flag_error (mpack_discard r) e)"
  by (intro r_step_flag_trans r_step_discard)

lemma notification_array_fueled:
  assumes t: "mpack_peek_tag r = (Tag_array c, r0)"
    and loop: "\<And>count r1 a m1. length (r_data r1) < length (r_data r0) \<Longrightarrow>
      mpack_expect_array_max r0 NOTIFICATION_MAX_PARAMS = (count, r1) \<Longrightarrow> r_error r1 = mpack_ok \<Longrightarrow>
      ObjectArrayCreate m = (Some a, m1) \<Longrightarrow> nfueled r1 (NotificationReadObject_loop fuel (unat count) a r1 m1)"
  shows "nfueled r0 (NotificationReadObject (Suc fuel) r m)"
proof -
  obtain count r1 where a: "mpack_expect_array_max r0 NOTIFICATION_MAX_PARAMS = (count, r1)" by fastforce
  have s1: "r_step r0 r1" using r_step_expect_array_max [of r0] a by (metis snd_conv)
  show ?thesis
  proof (cases "r_error r1 = mpack_ok")
    case ok: True
    obtain arr m1 where c: "ObjectArrayCreate m = (arr, m1)" by fastforce
    have "nfueled r1 (NotificationReadObject_loop fuel (unat count) x r1 m1)" if "arr = Some x" for x
      using loop [OF expect_array_max_shorter [OF a ok] a ok] c that by simp
    with t a ok c s1 show ?thesis
      by (cases arr) (auto simp: nfueled_def Let_def split: option.split prod.split intro: r_step_trans r_step_flag_trans)
  qed (use t a s1 in simp)
qed

lemma notification_read_has_fuel:
  "length (r_data r) < fuel \<Longrightarrow> nfueled r (NotificationReadObject fuel r m)"
  "length (r_data r) < fuel \<Longrightarrow> nfueled r (NotificationReadObject_loop fuel n a r m)"
proof (induction fuel r m and fuel n a r m
    rule: NotificationReadObject_NotificationReadObject_loop.induct)
  case (2 fuel r m)
  obtain tag r0 where t: "mpack_peek_tag r = (tag, r0)" by fastforce
  have s0: "r_step r r0" using r_step_peek [of r] t by simp
  have l0: "length (r_data r0) \<le> length (r_data r)" using s0 by (simp add: r_step_def)
  show ?case
  proof (rule nfueled_trans [OF s0], cases tag)
    case (Tag_array c)
    show "nfueled r0 (NotificationReadObject (Suc fuel) r m)"
      by (rule notification_array_fueled [OF t [unfolded Tag_array]]) (use 2 t Tag_array l0 in auto)
  next
    case (Tag_str l)
    obtain len r1 where e: "mpack_expect_str r0 = (len, r1)" by fastforce
    have s1: "r_step r0 r1" using r_step_expect_str [of r0] e by simp
    obtain b r2 where b: "mpack_read_bytes r1 (unat len) = (b, r2)" by fastforce
    have s2: "r_step r0 r2" using r_step_trans [OF s1] r_step_read_bytes [of r1 "unat len"] b by simp
    show "nfueled r0 (NotificationReadObject (Suc fuel) r m)"
      using t Tag_str e s1 b s2 by (auto simp: Let_def split: prod.split intro: r_step_flag_trans)
  next
    case (Tag_bin l)
    obtain len r1 where e: "mpack_expect_bin r0 = (len, r1)" by fastforce
    have s1: "r_step r0 r1" using r_step_expects(8) [of r0] e by simp
    obtain b r2 where b: "mpack_read_bytes r1 (unat len) = (b, r2)" by fastforce
    have s2: "r_step r0 r2" using r_step_trans [OF s1] r_step_read_bytes [of r1 "unat len"] b by simp
    show "nfueled r0 (NotificationReadObject (Suc fuel) r m)"
      using t Tag_bin e s1 b s2 by (auto simp: Let_def split: prod.split intro: r_step_flag_trans)
  qed (use t r_step_expects [of r0] r_step_expect_simple(1,2) [of r0] r_step_discard_flag [of r0] in
      \<open>auto simp: Let_def split: prod.split\<close>)
next
  case (4 fuel n a r m)
  show ?case
  proof (cases "r_error r = mpack_ok")
    case ok: True
    obtain ob r1 m1 where e: "NotificationReadObject fuel r m = Some (ob, r1, m1)" and s: "r_step r r1"
      using 4(1) [OF _ 4(3)] ok by (auto simp: nfueled_def)
    have l: "length (r_data r1) < fuel" using s 4(3) by (simp add: r_step_def)
    show ?thesis
    proof (cases ob)
      case (Some v)
      obtain ap a' m2 where ap: "ObjectArrayAppend (Some a) (Some v) m1 = (ap, a', m2)" by (metis prod_cases3)
      have "nfueled r1 (NotificationReadObject_loop fuel n (case a' of None \<Rightarrow> a | Some x \<Rightarrow> x) r1
              (ObjectFree (Some v) m2))" if ap
        using 4(2) [OF _ e refl Some refl ap [symmetric] refl refl] ok l that by auto
      with ok e Some ap s show ?thesis
        by (auto intro: r_step_flag_trans nfueled_trans)
    qed (use ok e s in simp)
  qed simp
qed simp_all

text \<open>Reading back.\<close>

definition nreads ::
  "mval \<Rightarrow> byte list \<Rightarrow> mem \<Rightarrow> (Object option \<times> mpack_reader \<times> mem) option \<Rightarrow> bool" where
  "nreads v rest m res \<longleftrightarrow>
     (\<exists>ob k. res = Some (Some ob, rd rest, mem_add k m) \<and> obj_wf (Some ob) \<and> not_val (Some ob) = Some v)"

lemma nreadsI:
  "res = Some (Some ob, rd rest, mem_add k m) \<Longrightarrow> obj_wf (Some ob) \<Longrightarrow> not_val (Some ob) = Some v \<Longrightarrow>
   nreads v rest m res"
  by (auto simp: nreads_def)

text \<open>One element read and appended: the array grows by a copy of equal value.\<close>

lemma append_reads:
  assumes "ObjectArrayAppend (Some a) (Some ob) m = (ok, r, m')" "arr_wf (Some a)" "obj_wf (Some ob)"
    and "nofail m" "not_val (Some ob) = Some v"
  obtains a' k where "ok" "r = Some a'" "arr_wf (Some a')" "m' = mem_add k m"
    "map not_val (arr_objects a') = map not_val (arr_objects a) @ [Some v]"
  using assms by (elim ObjectArrayAppend_wf) (auto simp: not_val_copy)

lemma notification_read_loop:
  assumes elem: "\<And>v rest m. v \<in> set vs \<Longrightarrow> nofail m \<Longrightarrow>
      nreads v rest m (NotificationReadObject fuel (rd (enc v @ rest)) m)"
    and "nofail m" "arr_wf (Some a)"
  shows "\<exists>a' k. NotificationReadObject_loop fuel (length vs) a (rd (enc_list vs @ rest)) m
           = Some (Some a', rd rest, mem_add k m) \<and> arr_wf (Some a')
         \<and> map not_val (arr_objects a') = map not_val (arr_objects a) @ map Some vs"
  using assms
proof (induction vs arbitrary: a m)
  case Nil
  then show ?case by (auto intro: exI [of _ 0])
next
  case (Cons v vs)
  have "nreads v (enc_list vs @ rest) m (NotificationReadObject fuel (rd (enc v @ enc_list vs @ rest)) m)"
    using Cons.prems by simp
  then obtain ob k where u: "NotificationReadObject fuel (rd (enc v @ enc_list vs @ rest)) m
      = Some (Some ob, rd (enc_list vs @ rest), mem_add k m)"
    and ob: "obj_wf (Some ob)" "not_val (Some ob) = Some v"
    by (auto simp: nreads_def)
  obtain ok r m1 where ap: "ObjectArrayAppend (Some a) (Some ob) (mem_add k m) = (ok, r, m1)"
    by (metis prod_cases3)
  have nf: "nofail (mem_add k m)" using Cons.prems(2) by simp
  from ap Cons.prems(3) ob(1) nf ob(2) obtain a1 k1 where a1: "ok" "r = Some a1" "arr_wf (Some a1)"
      "m1 = mem_add k1 (mem_add k m)" "map not_val (arr_objects a1) = map not_val (arr_objects a) @ [Some v]"
    by (rule append_reads)
  obtain k2 where f: "ObjectFree (Some ob) m1 = mem_add k2 m" by (auto simp: free_add a1)
  have "\<exists>a' k. NotificationReadObject_loop fuel (length vs) a1 (rd (enc_list vs @ rest)) (mem_add k2 m)
           = Some (Some a', rd rest, mem_add k (mem_add k2 m)) \<and> arr_wf (Some a')
         \<and> map not_val (arr_objects a') = map not_val (arr_objects a1) @ map Some vs"
    using Cons.prems a1 by (intro Cons.IH) auto
  then show ?case
    using u ap a1 f by auto
qed

lemma notification_reads_int:
  assumes "mval_ok (MInt i)" "nofail m"
  shows "nreads (MInt i) rest m (NotificationReadObject (Suc f) (rd (enc (MInt i) @ rest)) m)"
proof -
  note p = peek_tag_of_read [OF read_tag_enc_int, of i rest]
  show ?thesis
  proof (cases "0 \<le> i")
    case True
    with assms p show ?thesis
      using expect_u64_enc [of i rest]
      by (auto simp: create_defs create_nofail uint_word_of_int_eq take_bit_int_eq_self intro!: nreadsI)
  next
    case False
    with assms p show ?thesis
      using expect_i64_enc [of i rest]
      by (auto simp: create_defs create_nofail signed_of_int signed_take_bit_int_eq_self intro!: nreadsI)
  qed
qed

text \<open>An array, once its elements are read with one unit of fuel less.\<close>

lemma notification_reads_array:
  assumes elem: "\<And>v rest m. v \<in> set vs \<Longrightarrow> nofail m \<Longrightarrow>
      nreads v rest m (NotificationReadObject f (rd (enc v @ rest)) m)"
    and "length vs \<le> 4096" "nofail m"
  shows "nreads (MArr vs) rest m (NotificationReadObject (Suc f) (rd (enc (MArr vs) @ rest)) m)"
proof -
  have n: "unat (of_nat (length vs) :: u32) = length vs" using assms(2) by (simp add: unat_of_nat)
  have "\<exists>a' k. NotificationReadObject_loop f (length vs) (ObjectArray [] (cap_for 0))
        (rd (enc_list vs @ rest)) (mem_add 2 m)
      = Some (Some a', rd rest, mem_add k (mem_add 2 m)) \<and> arr_wf (Some a')
      \<and> map not_val (arr_objects a') = [] @ map Some vs"
    using notification_read_loop [of vs f "mem_add 2 m" "ObjectArray [] (cap_for 0)" rest] assms
    by (auto simp: cap_for_pos)
  then obtain a' k where l: "NotificationReadObject_loop f (length vs) (ObjectArray [] (cap_for 0))
        (rd (enc_list vs @ rest)) (mem_add 2 m) = Some (Some a', rd rest, mem_add (k + 2) m)"
      "arr_wf (Some a')" "map not_val (arr_objects a') = map Some vs"
    by auto
  then have "those (map not_val (arr_objects a')) = Some vs" by (simp add: those_Some_map)
  with l n assms(2,3) show ?thesis
    using peek_tag_of_read [OF read_tag_arr_head [of "length vs" "enc_list vs @ rest"]]
      expect_array_max_enc [of "length vs" NOTIFICATION_MAX_PARAMS "enc_list vs @ rest"]
    by (cases a') (auto simp: alloc_simps enc_MArr NOTIFICATION_MAX_PARAMS_def simp del: enc.simps
        intro!: nreadsI)
qed

lemma notification_reads:
  assumes "mval_ok v" "mval_notif v" "nofail m" "length (enc v) \<le> fuel"
  shows "nreads v rest m (NotificationReadObject fuel (rd (enc v @ rest)) m)"
  using assms
proof (induction v arbitrary: fuel rest m)
  case MNil
  then show ?case
    by (cases fuel) (auto simp: peek_tag_of_read [OF read_tag_simple(1)] expect_nil_enc create_defs
        create_nofail intro: nreadsI)
next
  case (MBool b)
  have "mpack_peek_tag (rd ((if b then 0xc3 else 0xc2) # rest)) =
      (Tag_bool b, rd ((if b then 0xc3 else 0xc2) # rest))"
    by (rule peek_tag_of_read) (simp add: read_tag_simple)
  with MBool show ?case
    using expect_bool_enc [of b rest]
    by (cases fuel) (auto simp: create_defs create_nofail intro!: nreadsI)
next
  case (MInt i)
  then show ?case using enc_int_nonempty [of i] notification_reads_int by (cases fuel) auto
next
  case (MFloat d)
  have "mpack_peek_tag (rd (enc (MFloat d) @ rest)) = (Tag_float d, rd (enc (MFloat d) @ rest))"
    by (rule peek_tag_of_read) (simp add: read_tag_simple)
  with MFloat show ?case
    by (cases fuel) (auto simp: expect_floats_enc create_defs create_nofail intro!: nreadsI)
next
  case (MDouble d)
  have "mpack_peek_tag (rd (enc (MDouble d) @ rest)) = (Tag_double d, rd (enc (MDouble d) @ rest))"
    by (rule peek_tag_of_read) (simp add: read_tag_simple)
  with MDouble show ?case
    by (cases fuel) (auto simp: expect_floats_enc create_defs create_nofail intro!: nreadsI)
next
  case (MStr s)
  obtain f where f: "fuel = Suc f" using MStr by (cases fuel) auto
  have n: "unat (of_nat (length s) :: u32) = length s" using MStr by (auto simp: unat_of_nat)
  show ?case
    using MStr f n peek_tag_of_read [OF read_tag_str_head [of "length s" "s @ rest"]]
      expect_str_enc [of "length s" "s @ rest"]
    by (auto simp: alloc_simps no_nul_def intro!: nreadsI)
next
  case (MBin s)
  obtain f where f: "fuel = Suc f" using MBin by (cases fuel) auto
  have n: "unat (of_nat (length s) :: u32) = length s" using MBin by (auto simp: unat_of_nat)
  show ?case
    using MBin f n peek_tag_of_read [OF read_tag_bin_head [of "length s" "s @ rest"]]
      expect_bin_enc [of "length s" "s @ rest"]
    by (auto simp: alloc_simps rb_canon_def rb_ok_def rb_bytes_def intro!: nreadsI)
next
  case (MArr vs)
  then obtain f where f: "fuel = Suc f" by (cases fuel) auto
  have "length (enc v) \<le> f" if "v \<in> set vs" for v
    using enc_element_shorter [OF that] MArr.prems(4) f by simp
  with MArr f show ?case
    using notification_reads_array [of vs f m rest] by (auto simp: list_all_iff)
qed

lemma notification_params_read:
  assumes "list_all mval_ok vs" "list_all mval_notif vs" "nofail m" "length (enc_list vs) \<le> fuel"
    and "not_params x = Some a" "arr_wf (Some a)"
  shows "\<exists>a' k. NotificationUnmarshal_params fuel (length vs) x (rd (enc_list vs @ rest)) m
           = Some (Some (x\<lparr>not_params := Some a'\<rparr>), rd rest, mem_add k m)
         \<and> map not_val (arr_objects a') = map not_val (arr_objects a) @ map Some vs"
  using assms
proof (induction vs arbitrary: x a m)
  case Nil
  then show ?case by (auto intro!: exI [of _ 0] exI [of _ a])
next
  case (Cons v vs)
  have "nreads v (enc_list vs @ rest) m (NotificationReadObject fuel (rd (enc v @ enc_list vs @ rest)) m)"
    using Cons.prems by (intro notification_reads) auto
  then obtain ob k where u: "NotificationReadObject fuel (rd (enc v @ enc_list vs @ rest)) m
      = Some (Some ob, rd (enc_list vs @ rest), mem_add k m)"
    and ob: "obj_wf (Some ob)" "not_val (Some ob) = Some v"
    by (auto simp: nreads_def)
  obtain ok r m1 where ap: "ObjectArrayAppend (Some a) (Some ob) (mem_add k m) = (ok, r, m1)"
    by (metis prod_cases3)
  have nf: "nofail (mem_add k m)" using Cons.prems(3) by simp
  from ap Cons.prems(6) ob(1) nf ob(2) obtain a1 k1 where a1: "ok" "r = Some a1" "arr_wf (Some a1)"
      "m1 = mem_add k1 (mem_add k m)" "map not_val (arr_objects a1) = map not_val (arr_objects a) @ [Some v]"
    by (rule append_reads)
  obtain k2 where f: "ObjectFree (Some ob) m1 = mem_add k2 m" by (auto simp: free_add a1)
  let ?x = "x\<lparr>not_params := Some a1\<rparr>"
  have "\<exists>a' k. NotificationUnmarshal_params fuel (length vs) ?x (rd (enc_list vs @ rest)) (mem_add k2 m)
           = Some (Some (?x\<lparr>not_params := Some a'\<rparr>), rd rest, mem_add k (mem_add k2 m))
         \<and> map not_val (arr_objects a') = map not_val (arr_objects a1) @ map Some vs"
    using Cons.prems a1 by (intro Cons.IH) auto
  then show ?case
    using u ap a1 f Cons.prems(5) by (auto simp: Let_def)
qed

lemma expect_cstr_alloc_enc:
  assumes "no_nul s" "length s < maxsize" "maxsize < 2 ^ 32" "nofail m"
  shows "mpack_expect_cstr_alloc (rd (enc_str_head (length s) @ s @ rest)) maxsize m
    = (Some s, rd rest, mem_add 1 m)"
proof -
  have u: "unat (to_u32 maxsize - 1) = maxsize - 1"
    using assms by (subst unat_minus_one) (auto simp: unat_eq_0 [symmetric])
  have n: "unat (of_nat (length s) :: u32) = length s" using assms by (simp add: unat_of_nat)
  have k: "mpack_str_check_no_null s" using assms(1) by (simp add: mpack_str_check_no_null_iff)
  show ?thesis
    using assms k n expect_str_max_enc [of "length s" "to_u32 maxsize - 1" "s @ rest"]
    by (auto simp: u mpack_expect_cstr_alloc_def mpack_expect_cstr_alloc_unchecked_def
        mpack_read_bytes_alloc_impl_def alloc_simps min_def)
qed

lemma NotificationUnmarshal_reads:
  assumes "no_nul s" "length s < NOTIFICATION_MAX_METHOD_SIZE" "length vs \<le> 4096"
    and "list_all mval_ok vs" "list_all mval_notif vs" "nofail m"
  defines "bs \<equiv> enc (not_abs s vs)"
  shows "\<exists>x a m'. NotificationUnmarshal (Some \<lparr>rb_data = Some bs, rb_len = length bs\<rparr>) m = Some (Some x, m')
      \<and> not_type x = HAZE_RPC_NOTIFICATION \<and> not_method x = Some s \<and> not_params x = Some a
      \<and> map not_val (arr_objects a) = map Some vs"
proof -
  let ?n = "length vs"
  let ?p = "enc_arr_head ?n @ enc_list vs"
  let ?a = "ObjectArray [] (cap_for 0)"
  have bs: "bs = enc_arr_head 3 @ enc_int 2 @ enc_str_head (length s) @ s @ ?p"
    by (simp add: bs_def not_abs_def Suc_3 enc_list_def)
  have n: "unat (of_nat ?n :: u32) = ?n" using assms(3) by (simp add: unat_of_nat)
  have 1: "mpack_expect_array_max (rd bs) 3 = (3, rd (enc_int 2 @ enc_str_head (length s) @ s @ ?p))"
    using expect_array_max_enc [of 3 3] by (simp add: bs)
  have 2: "mpack_expect_uint_match (rd (enc_int 2 @ enc_str_head (length s) @ s @ ?p)) 2
      = rd (enc_str_head (length s) @ s @ ?p)"
    using expect_u64_enc [of 2] by (simp add: mpack_expect_uint_match_def)
  have 3: "mpack_expect_cstr_alloc (rd (enc_str_head (length s) @ s @ ?p)) NOTIFICATION_MAX_METHOD_SIZE m
      = (Some s, rd ?p, mem_add 1 m)"
    using assms by (intro expect_cstr_alloc_enc) (auto simp: NOTIFICATION_MAX_METHOD_SIZE_def)
  have 4: "mpack_expect_array_max (rd ?p) NOTIFICATION_MAX_PARAMS = (of_nat ?n, rd (enc_list vs))"
    using assms(3) by (intro expect_array_max_enc) (simp add: NOTIFICATION_MAX_PARAMS_def)
  let ?x = "\<lparr>not_type = HAZE_RPC_NOTIFICATION, not_method = Some s, not_params = Some ?a\<rparr>"
  have "\<exists>a' k. NotificationUnmarshal_params (Suc (length bs)) ?n ?x (rd (enc_list vs @ [])) (mem_add 4 m)
           = Some (Some (?x\<lparr>not_params := Some a'\<rparr>), rd [], mem_add k (mem_add 4 m))
         \<and> map not_val (arr_objects a') = map not_val (arr_objects ?a) @ map Some vs"
    using assms(4-6) by (intro notification_params_read) (auto simp: bs cap_for_pos)
  then obtain a k where 5: "NotificationUnmarshal_params (Suc (length bs)) ?n ?x (rd (enc_list vs)) (mem_add 4 m)
           = Some (Some (?x\<lparr>not_params := Some a\<rparr>), rd [], mem_add k (mem_add 4 m))"
      "map not_val (arr_objects a) = map Some vs"
    by auto
  have "NotificationNew (mem_add 1 m) = (Some (?x\<lparr>not_method := None\<rparr>), mem_add 4 m)"
    using assms(6) by (simp add: NotificationNew_def alloc_simps)
  moreover have "length bs \<noteq> 0" by (simp add: bs)
  ultimately have "NotificationUnmarshal (Some \<lparr>rb_data = Some bs, rb_len = length bs\<rparr>) m
      = Some (Some (?x\<lparr>not_params := Some a\<rparr>), mem_add k (mem_add 4 m))"
    using 1 2 3 4 5(1) n
    by (simp add: NotificationUnmarshal_def RawBufferData_def RawBufferLen_def mpack_reader_init_data_def
        HAZE_RPC_NOTIFICATION_def mpack_reader_destroy_def)
  with 5(2) show ?thesis by auto
qed

text \<open>Any input.\<close>

lemma expect_cstr_alloc_bounds:
  assumes "mpack_expect_cstr_alloc r maxsize m = (Some s, r', m')" "maxsize < 2 ^ 32"
  shows "no_nul s" and "length s < maxsize" and "r_step r r'"
proof -
  obtain len r1 where e: "mpack_expect_str_max r (to_u32 maxsize - 1) = (len, r1)" by fastforce
  have s1: "r_step r r1" using r_step_expect_str_max [of r] e by (metis snd_conv)
  have pos: "1 \<le> maxsize"
    using assms(1) by (auto simp: mpack_expect_cstr_alloc_def mpack_expect_cstr_alloc_unchecked_def
        split: if_splits)
  have u: "unat (to_u32 maxsize - 1) = maxsize - 1"
    using assms pos by (subst unat_minus_one) (auto simp: unat_eq_0 [symmetric])
  have l: "r_error r1 = mpack_ok \<Longrightarrow> unat len < maxsize"
    using e u pos by (auto simp: mpack_expect_str_max_def word_less_nat_alt split: if_splits prod.splits)
  show "no_nul s" "length s < maxsize" "r_step r r'"
    using assms e pos l s1 r_step_native [of r1 "unat len"]
    by (auto simp: mpack_expect_cstr_alloc_def mpack_expect_cstr_alloc_unchecked_def min_def
        mpack_read_bytes_alloc_impl_def mpack_str_check_no_null_iff Let_def intro: r_step_trans
        split: if_splits prod.splits option.splits)
qed

lemma ObjectArrayAppend_length:
  assumes "ObjectArrayAppend (Some a) (Some ob) m = (ok, r, m')" and "ok"
  obtains a' where "r = Some a'" "length (arr_objects a') = Suc (length (arr_objects a))"
  using assms by (cases a) (auto simp: array_reserve_def split: if_splits prod.splits)

lemma notification_params_total:
  assumes "length (r_data r) < fuel" and "not_params x = Some a"
  shows "\<exists>y r' m'. NotificationUnmarshal_params fuel n x r m = Some (y, r', m')
    \<and> (\<forall>x'. y = Some x' \<longrightarrow> not_type x' = not_type x \<and> not_method x' = not_method x
        \<and> (\<exists>a'. not_params x' = Some a' \<and> length (arr_objects a') = length (arr_objects a) + n))"
  using assms
proof (induction n arbitrary: x a r m)
  case (Suc n)
  obtain ob r1 m1 where e: "NotificationReadObject fuel r m = Some (ob, r1, m1)" and s: "r_step r r1"
    using notification_read_has_fuel(1) [OF Suc.prems(1), of m] by (auto simp: nfueled_def)
  have l: "length (r_data r1) < fuel" using s Suc.prems(1) by (simp add: r_step_def)
  show ?case
  proof (cases ob)
    case (Some v)
    obtain ok a' m2 where ap: "ObjectArrayAppend (Some a) (Some v) m1 = (ok, a', m2)" by (metis prod_cases3)
    show ?thesis
    proof (cases ok)
      case True
      with ap obtain a1 where a1: "a' = Some a1" "length (arr_objects a1) = Suc (length (arr_objects a))"
        by (rule ObjectArrayAppend_length)
      show ?thesis
        using Suc.IH [OF l, of "x\<lparr>not_params := Some a1\<rparr>" a1 "ObjectFree (Some v) m2"] a1 e Some ap True Suc.prems(2)
        by auto
    qed (use e Some ap Suc.prems(2) in simp)
  qed (use e in simp)
qed auto

lemma expect_array_max_le:
  assumes "mpack_expect_array_max r k = (c, r')" "r_error r' = mpack_ok"
  shows "unat c \<le> unat k"
  using assms by (auto simp: mpack_expect_array_max_def mpack_expect_array_range_def word_le_nat_alt word_less_nat_alt
      split: if_splits prod.splits)

lemma NotificationNew_empty:
  assumes "NotificationNew m = (Some x, m')"
  obtains a where "not_params x = Some a" "arr_objects a = []" "not_type x = HAZE_RPC_NOTIFICATION"
  using assms by (auto simp: NotificationNew_def ObjectArrayCreate_def Let_def split: prod.splits if_splits)

text \<open>From the empty notification on: the parameters are read into it, as many as announced.\<close>

lemma notification_filled:
  assumes "NotificationNew m = (Some x, m')" "length (r_data r) < fuel"
  shows "\<exists>y r' m2. NotificationUnmarshal_params fuel n (x\<lparr>not_method := mth\<rparr>) r m' = Some (y, r', m2)
    \<and> (\<forall>x'. y = Some x' \<longrightarrow> not_type x' = HAZE_RPC_NOTIFICATION \<and> not_method x' = mth
        \<and> (\<exists>a'. not_params x' = Some a' \<and> length (arr_objects a') = n))"
proof -
  obtain a where "not_params x = Some a" "arr_objects a = []" "not_type x = HAZE_RPC_NOTIFICATION"
    by (rule NotificationNew_empty [OF assms(1)])
  with notification_params_total [OF assms(2), of "x\<lparr>not_method := mth\<rparr>" a n m'] show ?thesis by auto
qed

subsection \<open>Properties\<close>

text \<open>
  C11: A notification survives the wire: for a method without NUL of at most 4095 bytes and up to 4096
  parameters (nested arrays of up to 4096 elements included), marshalling and unmarshalling gives a
  notification with the same method and parameters of the same values.
\<close>

theorem notification_roundtrip:
  assumes x: "not_method x = Some s" "not_params x = Some ps" "arr_wf (Some ps)"
    and s: "no_nul s" "length s < NOTIFICATION_MAX_METHOD_SIZE"
    and vs: "those (map not_val (arr_objects ps)) = Some vs" "length vs \<le> 4096"
      "list_all mval_ok vs" "list_all mval_notif vs"
    and m: "nofail m" "length (enc (not_abs s vs)) \<le> 2 ^ 62"
  shows "\<exists>b m1 x' m2 ps'. NotificationMarshal (Some x) m = Some (Some b, m1)
      \<and> NotificationUnmarshal (Some b) m1 = Some (Some x', m2)
      \<and> not_type x' = HAZE_RPC_NOTIFICATION \<and> not_method x' = not_method x \<and> not_params x' = Some ps'
      \<and> map not_val (arr_objects ps') = map not_val (arr_objects ps)"
proof -
  let ?bs = "enc (not_abs s vs)"
  have "length s < 2 ^ 32" "length vs < 2 ^ 32"
    using s(2) vs(2) by (auto simp: NOTIFICATION_MAX_METHOD_SIZE_def)
  then have M: "NotificationMarshal (Some x) m =
      Some (Some \<lparr>rb_data = Some ?bs, rb_len = length ?bs\<rparr>, mem_add 2 m)"
    using NotificationMarshal_cases [OF x(1,2) _ x(3) vs(1,3), of m] m by auto
  have "map not_val (arr_objects ps) = map Some vs"
    using vs(1) by (auto simp: those_map_Some intro!: nth_equalityI)
  moreover note NotificationUnmarshal_reads [OF s vs(2-4), of "mem_add 2 m"]
  ultimately show ?thesis using M m(1) x(1) by auto
qed

theorem notification_roundtrip_witness:
  "\<exists>b m1 x' m2 ps'. NotificationMarshal (Some \<lparr>not_type = 2, not_method = Some (cstr ''tick''),
        not_params = Some (ObjectArray [Some (Object (V_INT (- 3)) 8), Some (Object (V_ARRAY (Some
          (ObjectArray [Some (Object (V_BOOL True) 1)] 8))) 1)] 8)\<rparr>) \<lparr>outcomes = [], live = 0\<rparr> = Some (Some b, m1)
     \<and> NotificationUnmarshal (Some b) m1 = Some (Some x', m2)
     \<and> not_method x' = Some (cstr ''tick'') \<and> not_params x' = Some ps'
     \<and> map not_val (arr_objects ps') = [Some (MInt (- 3)), Some (MArr [MBool True])]"
  using notification_roundtrip [of "\<lparr>not_type = 2, not_method = Some (cstr ''tick''),
        not_params = Some (ObjectArray [Some (Object (V_INT (- 3)) 8), Some (Object (V_ARRAY (Some
          (ObjectArray [Some (Object (V_BOOL True) 1)] 8))) 1)] 8)\<rparr>" "cstr ''tick''"
      "ObjectArray [Some (Object (V_INT (- 3)) 8), Some (Object (V_ARRAY (Some
          (ObjectArray [Some (Object (V_BOOL True) 1)] 8))) 1)] 8"
      "[MInt (- 3), MArr [MBool True]]" "\<lparr>outcomes = [], live = 0\<rparr>"]
  by (auto simp: cstr_def no_nul_def NOTIFICATION_MAX_METHOD_SIZE_def not_abs_def nofail_def
      enc_arr_head_def enc_str_head_def enc_int_def mpack_store_u8_def)

text \<open>
  C21: Unmarshalling a notification is defined on every buffer and under every allocator: the nesting
  of the input never exhausts the recursion, and a notification that comes out has type 2, a method
  of at most 4095 bytes without NUL and at most 4096 parameters.
\<close>

theorem notification_unmarshal_total:
  assumes "rb_ok b"
  shows "\<exists>y m'. NotificationUnmarshal (Some b) m = Some (y, m')
    \<and> (\<forall>x. y = Some x \<longrightarrow> not_type x = HAZE_RPC_NOTIFICATION
        \<and> (\<exists>s. not_method x = Some s \<and> no_nul s \<and> length s < NOTIFICATION_MAX_METHOD_SIZE)
        \<and> (\<exists>a. not_params x = Some a \<and> length (arr_objects a) \<le> 4096))"
proof (cases "\<exists>d. rb_data b = Some d \<and> rb_len b \<noteq> 0")
  case False
  then show ?thesis
    by (auto simp: NotificationUnmarshal_def RawBufferData_def RawBufferLen_def split: option.split)
next
  case True
  then obtain d where d: "rb_data b = Some d" "rb_len b \<noteq> 0" by auto
  define bs where "bs = take (rb_len b) d"
  have rb: "read_block d (rb_len b) = Some bs"
    using assms d by (simp add: rb_ok_def read_block_def bs_def)
  obtain count r1 where 1: "mpack_expect_array_max (mpack_reader_init_data bs) 3 = (count, r1)" by fastforce
  define r2 where "r2 = mpack_expect_uint_match r1 (ucast HAZE_RPC_NOTIFICATION)"
  obtain mth r3 m3 where 3: "mpack_expect_cstr_alloc r2 NOTIFICATION_MAX_METHOD_SIZE m = (mth, r3, m3)"
    by (metis prod_cases3)
  obtain pc r4 where 4: "mpack_expect_array_max r3 NOTIFICATION_MAX_PARAMS = (pc, r4)" by fastforce
  note simps = NotificationUnmarshal_def RawBufferData_def RawBufferLen_def d rb 1 3 4 r2_def [symmetric]
  show ?thesis
  proof (cases "r_error r1 = mpack_ok \<and> count = 3 \<and> r_error r2 = mpack_ok \<and> mth \<noteq> None
      \<and> r_error r3 = mpack_ok \<and> r_error r4 = mpack_ok")
    case False
    then show ?thesis by (auto simp: simps)
  next
    case ok: True
    then obtain s where s: "mth = Some s" by auto
    have S: "no_nul s" "length s < 4096" "r_step r2 r3"
      using expect_cstr_alloc_bounds [OF 3 [unfolded s]] by (simp_all add: NOTIFICATION_MAX_METHOD_SIZE_def)
    have "r_step (mpack_reader_init_data bs) r1" "r_step r1 r2" "r_step r3 r4"
      using r_step_expect_array_max r_step_expect_simple(3) 1 4 r2_def by (metis snd_conv)+
    then have "r_step (mpack_reader_init_data bs) r4"
      using S(3) by (blast intro: r_step_trans)
    then have fuel: "length (r_data r4) < Suc (length bs)"
      by (simp add: r_step_def mpack_reader_init_data_def)
    have pc: "unat pc \<le> 4096"
      using expect_array_max_le [OF 4] ok by (simp add: NOTIFICATION_MAX_PARAMS_def)
    obtain x m5 where 5: "NotificationNew m3 = (x, m5)" by fastforce
    show ?thesis
    proof (cases x)
      case (Some x1)
      obtain y r5 m6 where 6: "NotificationUnmarshal_params (Suc (length bs)) (unat pc)
          (x1\<lparr>not_method := mth\<rparr>) r4 m5 = Some (y, r5, m6)"
        and Y: "\<forall>x'. y = Some x' \<longrightarrow> not_type x' = HAZE_RPC_NOTIFICATION \<and> not_method x' = Some s
          \<and> (\<exists>a'. not_params x' = Some a' \<and> length (arr_objects a') = unat pc)"
        using notification_filled [OF 5 [unfolded Some] fuel, of "unat pc" mth] s by blast
      have "NotificationUnmarshal (Some b) m = Some (case y of None \<Rightarrow> (None, m6) | Some x' \<Rightarrow>
          if mpack_reader_destroy r5 \<noteq> mpack_ok then (None, NotificationFree (Some x') m6) else (Some x', m6))"
        using ok s 6 by (cases y) (simp_all add: simps 5 Some)
      then show ?thesis
        using Y S pc by (auto simp: NOTIFICATION_MAX_METHOD_SIZE_def split: option.splits if_splits)
    qed (use ok 5 s in \<open>simp add: simps\<close>)
  qed
qed

theorem notification_unmarshal_total_witness:
  "\<exists>y m'. NotificationUnmarshal (Some \<lparr>rb_data = Some [0x93, 2, 0xa1, 97, 0x91, 0x91, 0x91], rb_len = 7\<rparr>)
      \<lparr>outcomes = [], live = 0\<rparr> = Some (y, m')"
  using notification_unmarshal_total [of "\<lparr>rb_data = Some [0x93, 2, 0xa1, 97, 0x91, 0x91, 0x91], rb_len = 7\<rparr>"
      "\<lparr>outcomes = [], live = 0\<rparr>"]
  by (auto simp: rb_ok_def)

end
