(* ===== verification/Haze_Dispatcher.thy ===== *)
theory Haze_Dispatcher
  imports Haze_Context Haze_Request Haze_Notification "HOL-Library.AList"
begin

text \<open>
  \<^verbatim>\<open>source/api/Dispatcher.c\<close>: the method table of the service. A request is answered on the state of the
  context; the pointers of the source alias the context's session, so the changed session is put
  back into the context. \<open>None\<close> is undefined behaviour: a context without a session, or a job
  written through the \<^verbatim>\<open>NULL\<close> of a failed allocation.
\<close>

definition RequestMsgId :: "Request \<Rightarrow> u32" where "RequestMsgId r = req_msgid r"
definition RequestMethod :: "Request \<Rightarrow> byte list option" where "RequestMethod r = req_method r"

record DispatchResult =
  dr_response :: "Response option"
  dr_notification :: "Notification option"

type_synonym dispatched = "(DispatchResult \<times> Context option \<times> mem) option"

text \<open>\<^verbatim>\<open>return (DispatchResult){.response = ..., .notification = NULL}\<close>\<close>

definition respond :: "Context option \<Rightarrow> Response option \<times> mem \<Rightarrow> dispatched" where
  "respond c rm = Some (\<lparr>dr_response = fst rm, dr_notification = None\<rparr>, c, snd rm)"

definition respond_error :: "Context option \<Rightarrow> u32 \<Rightarrow> string \<Rightarrow> mem \<Rightarrow> dispatched" where
  "respond_error c msgid msg m = respond c (ResponseCreateError msgid (Some (cstr msg)) m)"

text \<open>The checks every method with one string parameter starts with.\<close>

definition with_str_param ::
  "Context \<Rightarrow> Request \<Rightarrow> (byte list option \<Rightarrow> mem \<Rightarrow> dispatched) \<Rightarrow> mem \<Rightarrow> dispatched" where
  "with_str_param c rq k m =
     (if RequestParamCount (Some rq) \<noteq> 1
      then respond_error (Some c) (RequestMsgId rq) ''Expected 1 parameter.'' m
      else
        let obj = RequestParamGet (Some rq) 0
        in if \<not> ObjectExpect obj OBJ_STR
           then respond_error (Some c) (RequestMsgId rq) ''Expected a string.'' m
           else (case obj of
               None \<Rightarrow> None
             | Some ob \<Rightarrow> (case ObjectGetStr ob of None \<Rightarrow> None | Some s \<Rightarrow> k s m)))"

definition put_samples :: "SampleList option \<Rightarrow> Context \<Rightarrow> Context" where
  "put_samples l c = c\<lparr>ctx_session := map_option (\<lambda>s. s\<lparr>ses_SampleList := l\<rparr>) (ctx_session c)\<rparr>"

text \<open>Answering with the result of a function of the sample list.\<close>

definition respond_audio ::
  "Context \<Rightarrow> u32 \<Rightarrow> (ResultAudio \<times> SampleList option \<times> mem) option \<Rightarrow> dispatched" where
  "respond_audio c msgid res =
     (case res of
        None \<Rightarrow> None
      | Some (r, l, m) \<Rightarrow> respond (Some (put_samples l c)) (ResponseCreateResultAudio msgid r m))"

definition dispatch_import :: "host \<Rightarrow> Context \<Rightarrow> nat \<Rightarrow> Request \<Rightarrow> byte list option \<Rightarrow> mem \<Rightarrow> dispatched" where
  "dispatch_import h c connection rq path m =
     (let (ok, m) = malloc m in
      if \<not> ok then None
      else
        let (q, m) = h_push h (ContextGetRequestQueue c)
              \<lparr>job_msgid = RequestMsgId rq, job_connection = connection, job_type = JOB_SAMPLELIST_ADD,
               job_payload = (case path of None \<Rightarrow> No_payload | Some s \<Rightarrow> In_request s)\<rparr> m
        in respond (Some (c\<lparr>ctx_requests := q\<rparr>)) (None, m))"

definition DispatchRPCMessage ::
  "host \<Rightarrow> Context option \<Rightarrow> nat \<Rightarrow> Request option \<Rightarrow> mem \<Rightarrow> dispatched" where
  "DispatchRPCMessage h ctx connection request m =
     (case (ctx, request) of
        (Some c, Some rq) \<Rightarrow>
          let eng = ContextGetAudioEngine c;
              session = ContextGetSession c;
              msgid = RequestMsgId rq
          in (case SessionGetSampleList session of
                None \<Rightarrow> None
              | Some sampleList \<Rightarrow>
                  (case RequestMethod rq of
                     None \<Rightarrow> respond_error ctx msgid ''Method not specified.'' m
                   | Some method_name \<Rightarrow>
                       if method_name = cstr ''test/ping'' then
                         (if RequestParamCount request \<noteq> 0
                          then respond_error ctx msgid ''Pong, but those arguments weren't necessary.'' m
                          else respond ctx (ResponseCreateString msgid (Some (cstr ''pong!'')) m))
                       else if method_name = cstr ''session/create'' then
                         with_str_param c rq (\<lambda>s m.
                           case FnSessionCreate (h_audio h) (h_now h) (h_rand1 h) (h_rand2 h) session eng s m of
                             None \<Rightarrow> None
                           | Some (r, m) \<Rightarrow> respond ctx (ResponseCreateResult msgid r m)) m
                       else if method_name = cstr ''session/get_name'' then
                         (if RequestParamCount request \<noteq> 0
                          then respond_error ctx msgid ''Expected 0 parameters.'' m
                          else respond ctx (ResponseCreateString msgid (Some (FnSessionGetName session)) m))
                       else if method_name = cstr ''session/get_working_time'' then
                         (if RequestParamCount request \<noteq> 0
                          then respond_error ctx msgid ''Expected 0 parameters.'' m
                          else respond ctx (ResponseCreateInt msgid (FnSessionGetWorkingTime (h_now h) session) m))
                       else if method_name = cstr ''samplelist/import'' then
                         with_str_param c rq (dispatch_import h c connection rq) m
                       else if method_name = cstr ''samplelist/remove'' then
                         with_str_param c rq (\<lambda>s m. respond_audio c msgid (FnSampleListRemoveSample sampleList s m)) m
                       else if method_name = cstr ''samplelist/play'' then
                         with_str_param c rq (\<lambda>s m. respond_audio c msgid (FnSamplePlay (h_audio h) sampleList s m)) m
                       else respond_error ctx msgid ''Method not found.'' m))
      | _ \<Rightarrow> respond_error ctx 0 ''Invalid context or request.'' m)"

subsection \<open>The service, abstractly\<close>

text \<open>
  What a client sees of the context: the session's name and start, the samples by name with what
  was asked of each of them, and the queue of jobs. A request is answered at once with an error and a result field, or it
  becomes a job in the queue and nothing is sent.
\<close>

record view =
  v_name :: "byte list"
  v_created :: time_t
  v_samples :: "(byte list \<times> handle) list"
  v_jobs :: "JobQueue option"

datatype reply = Queued Job | Reply mval mval

definition rsp_view :: "Response \<Rightarrow> reply" where
  "rsp_view s = Reply (obj_abs (rsp_error s)) (obj_abs (rsp_result s))"

definition sl_view :: "SampleList \<Rightarrow> (byte list \<times> handle) list" where
  "sl_view l = map (\<lambda>s. (sample_name s, smp_handle s)) (sl_list l)"

definition ctx_view :: "Context \<Rightarrow> view" where
  "ctx_view c =
     (case ctx_session c of
        None \<Rightarrow> \<lparr>v_name = [], v_created = 0, v_samples = [], v_jobs = ctx_requests c\<rparr>
      | Some s \<Rightarrow> \<lparr>v_name = SessionGetName (Some s), v_created = ses_created_at s,
          v_samples = (case ses_SampleList s of None \<Rightarrow> [] | Some l \<Rightarrow> sl_view l), v_jobs = ctx_requests c\<rparr>)"

fun drop_first :: "'k \<Rightarrow> ('k \<times> 'v) list \<Rightarrow> ('k \<times> 'v) list" where
  "drop_first k [] = []"
| "drop_first k (p # ps) = (if fst p = k then ps else p # drop_first k ps)"

definition fails :: "view \<Rightarrow> byte list \<Rightarrow> reply \<times> view" where
  "fails v msg = (Reply (MStr msg) MNil, v)"

definition yields :: "view \<Rightarrow> mval \<Rightarrow> reply \<times> view" where
  "yields v x = (Reply MNil x, v)"

definition no_params :: "view \<Rightarrow> mval list \<Rightarrow> string \<Rightarrow> reply \<times> view \<Rightarrow> reply \<times> view" where
  "no_params v ps msg r = (if ps = [] then r else fails v (cstr msg))"

definition str_param :: "view \<Rightarrow> mval list \<Rightarrow> (byte list \<Rightarrow> reply \<times> view) \<Rightarrow> reply \<times> view" where
  "str_param v ps k =
     (case ps of
        [p] \<Rightarrow> (case p of MStr s \<Rightarrow> k s | _ \<Rightarrow> fails v (cstr ''Expected a string.''))
      | _ \<Rightarrow> fails v (cstr ''Expected 1 parameter.''))"

definition spec_remove :: "view \<Rightarrow> byte list \<Rightarrow> reply \<times> view" where
  "spec_remove v nm =
     (if nm = [] then fails v (cstr ''Invalid sample name.'')
      else if nm \<notin> fst ` set (v_samples v) then fails v (cstr ''sample not found'')
      else yields (v\<lparr>v_samples := drop_first nm (v_samples v)\<rparr>) MNil)"

definition spec_play :: "miniaudio \<Rightarrow> view \<Rightarrow> byte list \<Rightarrow> reply \<times> view" where
  "spec_play ma v nm =
     (if nm = [] then fails v (cstr ''Invalid sample name.'')
      else (case map_of (v_samples v) nm of
          None \<Rightarrow> fails v (cstr ''Sample not found.'')
        | Some hist \<Rightarrow>
            (let v' = v\<lparr>v_samples := AList.update nm (hist @ [Sound_start]) (v_samples v)\<rparr>
             in if ma_ok ma hist Sound_start then yields v' MNil
                else fails v' (take 255 (quoted ''failed to play sample '' nm)))))"

text \<open>
  \<open>enq\<close> is what a push does to the queue. \<open>pushes\<close> states that \<^verbatim>\<open>JobQueuePush\<close> does it whenever there
  is memory, and that the blocks it takes depend only on the queue and the job; \<open>push_blocks\<close> is their number.
\<close>

definition spec_import ::
  "(JobQueue option \<Rightarrow> Job \<Rightarrow> JobQueue option) \<Rightarrow> view \<Rightarrow> nat \<Rightarrow> u32 \<Rightarrow> byte list \<Rightarrow> reply \<times> view" where
  "spec_import enq v connection msgid path =
     (let job = JobInit msgid JOB_SAMPLELIST_ADD connection (In_request path)
      in (Queued job, v\<lparr>v_jobs := enq (v_jobs v) job\<rparr>))"

definition push_blocks :: "host \<Rightarrow> JobQueue option \<Rightarrow> Job \<Rightarrow> int" where
  "push_blocks h q j = live (snd (h_push h q j \<lparr>outcomes = [], live = 0\<rparr>))"

definition pushes :: "host \<Rightarrow> (JobQueue option \<Rightarrow> Job \<Rightarrow> JobQueue option) \<Rightarrow> bool" where
  "pushes h enq \<longleftrightarrow> (\<forall>q j m. nofail m \<longrightarrow> h_push h q j m = (enq q j, mem_add (push_blocks h q j) m))"

text \<open>The method table.\<close>

definition service ::
  "host \<Rightarrow> (JobQueue option \<Rightarrow> Job \<Rightarrow> JobQueue option) \<Rightarrow> view \<Rightarrow> nat \<Rightarrow> u32 \<Rightarrow> byte list option \<Rightarrow> mval list \<Rightarrow>
   reply \<times> view" where
  "service h enq v connection msgid meth ps =
     (case meth of
        None \<Rightarrow> fails v (cstr ''Method not specified.'')
      | Some meth \<Rightarrow>
          (case map_of
             [(cstr ''test/ping'',
                no_params v ps ''Pong, but those arguments weren't necessary.'' (yields v (MStr (cstr ''pong!'')))),
              (cstr ''session/create'', str_param v ps (\<lambda>s. yields v (MStr (cstr ''Session already started!'')))),
              (cstr ''session/get_name'', no_params v ps ''Expected 0 parameters.'' (yields v (MStr (v_name v)))),
              (cstr ''session/get_working_time'',
                no_params v ps ''Expected 0 parameters.'' (yields v (MInt (sint (h_now h - v_created v))))),
              (cstr ''samplelist/import'', str_param v ps (spec_import enq v connection msgid)),
              (cstr ''samplelist/remove'', str_param v ps (spec_remove v)),
              (cstr ''samplelist/play'', str_param v ps (spec_play (h_audio h) v))] meth of
             None \<Rightarrow> fails v (cstr ''Method not found.'')
           | Some r \<Rightarrow> r))"

text \<open>Parameters as the decoder delivers them: no string without characters behind its pointer.\<close>

definition params_wf :: "Request \<Rightarrow> bool" where
  "params_wf rq \<longleftrightarrow> length (params_of rq) < 2 ^ 32
     \<and> list_all (\<lambda>p. obj_wf p \<and> str_there p) (params_of rq)"

subsection \<open>Sample list functions on the view\<close>

lemma sl_names_view: "sl_names l = map fst (sl_view l)"
  by (simp add: sl_names_def sl_view_def)

lemma length_sl_view [simp]: "length (sl_view l) = length (sl_list l)"
  by (simp add: sl_view_def)

lemma nofail_SampleFree [simp]: "nofail (snd (SampleFree sp m)) = nofail m"
  by (simp add: SampleFree_def split: option.split)

lemma drop_first_at:
  assumes "i < length xs" "fst (xs ! i) = k" "k \<notin> set (take i (map fst xs))"
  shows "take i xs @ drop (Suc i) xs = drop_first k xs"
  using assms
proof (induction xs arbitrary: i)
  case (Cons x xs)
  then show ?case by (cases i) auto
qed simp

lemma map_of_at:
  "i < length xs \<Longrightarrow> fst (xs ! i) = k \<Longrightarrow> \<forall>j < i. fst (xs ! j) \<noteq> k \<Longrightarrow> map_of xs k = Some (snd (xs ! i))"
proof (induction xs arbitrary: i)
  case (Cons x xs)
  then show ?case by (cases i) force+
qed simp

lemma update_at:
  "i < length xs \<Longrightarrow> fst (xs ! i) = k \<Longrightarrow> \<forall>j < i. fst (xs ! j) \<noteq> k \<Longrightarrow>
   AList.update k v xs = xs[i := (k, v)]"
proof (induction xs arbitrary: i)
  case (Cons x xs)
  then show ?case by (cases i; cases x) force+
qed simp

lemma FnSampleListRemoveSample_view:
  assumes "sl_wf l"
  shows "\<exists>r l' m'. FnSampleListRemoveSample (Some l) (Some nm) m = Some (r, Some l', m') \<and> sl_wf l'
    \<and> live m' - sl_blocks l' = live m - sl_blocks l + ra_blocks r \<and> (nofail m \<longrightarrow> nofail m')
    \<and> spec_remove (v\<lparr>v_samples := sl_view l\<rparr>) nm =
        (if ra_success r then yields (v\<lparr>v_samples := sl_view l'\<rparr>) MNil
         else fails (v\<lparr>v_samples := sl_view l'\<rparr>) (the (ra_msg r)))
    \<and> (ra_success r \<or> (\<exists>e. ra_msg r = Some e \<and> no_nul e))"
proof (cases "nm = []")
  case True
  with assms show ?thesis
    by (simp add: FnSampleListRemoveSample_def spec_remove_def audio_err_def ResultAudioErr_def ra_blocks_def cstr_def no_nul_def)
next
  case n: False
  from assms show ?thesis
  proof (cases rule: SampleListDeleteSampleByName_cases [of l nm m])
    case absent
    with n assms show ?thesis
      by (simp add: FnSampleListRemoveSample_def spec_remove_def sl_names_view audio_err_def ResultAudioErr_def ra_blocks_def
          cstr_def no_nul_def)
  next
    case (found i l' m')
    have "sl_view l' = drop_first nm (sl_view l)"
      using found(1,2,3,6) drop_first_at [of i "sl_view l" nm]
      by (simp add: sl_view_def sl_names_def take_map drop_map o_def)
    moreover have "nm \<in> fst ` set (sl_view l)"
      using found(1,2) nth_mem [of i "sl_names l"] by (simp add: sl_names_view)
    moreover have "nofail m \<Longrightarrow> nofail m'"
      using found(4) assms by (auto simp: SampleListDeleteSampleByName_def Let_def nofail_SampleFree split: option.splits)
    ultimately show ?thesis
      using n found by (simp add: FnSampleListRemoveSample_def spec_remove_def ResultAudioOk_def ra_blocks_def)
  qed
qed

lemma no_nul_quoted: "no_nul nm \<Longrightarrow> no_nul (take 255 (quoted ''failed to play sample '' nm))"
  by (auto simp: no_nul_def quoted_def cstr_def dest!: in_set_takeD)

text \<open>What starting the sample of a slot does to the list.\<close>

definition slot_started :: "SampleList \<Rightarrow> nat \<Rightarrow> Sample \<Rightarrow> SampleList" where
  "slot_started l i s = l\<lparr>sl_samples := (sl_samples l)[i := Some (s\<lparr>smp_handle := smp_handle s @ [Sound_start]\<rparr>)]\<rparr>"

lemma slot_started:
  assumes "sl_wf l" "i < length (sl_list l)" "sl_samples l ! i = Some s" "smp_name s = Some nm"
    and "\<forall>j < i. fst (sl_view l ! j) \<noteq> nm"
  shows "sl_wf (slot_started l i s)" "sl_blocks (slot_started l i s) = sl_blocks l"
    "sl_view (slot_started l i s) = AList.update nm (smp_handle s @ [Sound_start]) (sl_view l)"
    "map_of (sl_view l) nm = Some (smp_handle s)"
proof -
  define s' where "s' = s\<lparr>smp_handle := smp_handle s @ [Sound_start]\<rparr>"
  note l' = slot_started_def [of l i s, folded s'_def]
  have sv: "sl_view l ! i = (nm, smp_handle s)"
    using assms(2-4) by (auto simp: sl_view_def sl_list_def sample_name_def)
  have list: "sl_list (slot_started l i s) = (sl_list l)[i := s']" by (simp add: l' sl_list_def map_update)
  show "sl_wf (slot_started l i s)" using assms(1,2,4)
    by (auto simp: sl_wf_def l' s'_def sl_list_def list_all_length nth_list_update)
  have "sample_blocks s' = sample_blocks (sl_list l ! i)"
    using assms(2,3) by (simp add: s'_def sample_blocks_def sl_list_def)
  then have "map sample_blocks (sl_list (slot_started l i s)) = map sample_blocks (sl_list l)"
    using assms(2) by (simp add: list map_update list_update_same_conv)
  then show "sl_blocks (slot_started l i s) = sl_blocks l"
    unfolding sl_blocks_def by (simp add: l')
  show "sl_view (slot_started l i s) = AList.update nm (smp_handle s @ [Sound_start]) (sl_view l)"
    using update_at [of i "sl_view l" nm] assms(2,4,5) sv by (simp add: sl_view_def list map_update s'_def sample_name_def)
  show "map_of (sl_view l) nm = Some (smp_handle s)"
    using map_of_at [of i "sl_view l" nm] assms(2,5) sv by simp
qed

lemma FnSamplePlay_view:
  assumes "sl_wf l"
  shows "\<exists>r l' m'. FnSamplePlay ma (Some l) (Some nm) m = Some (r, Some l', m') \<and> sl_wf l'
    \<and> live m' - sl_blocks l' = live m - sl_blocks l + ra_blocks r \<and> (nofail m \<longrightarrow> nofail m')
    \<and> (nofail m \<longrightarrow> spec_play ma (v\<lparr>v_samples := sl_view l\<rparr>) nm =
        (if ra_success r then yields (v\<lparr>v_samples := sl_view l'\<rparr>) MNil
         else fails (v\<lparr>v_samples := sl_view l'\<rparr>) (the (ra_msg r)))
       \<and> (no_nul nm \<longrightarrow> ra_success r \<or> (\<exists>e. ra_msg r = Some e \<and> no_nul e)))"
proof (cases "nm = []")
  case True
  with assms show ?thesis
    by (simp add: FnSamplePlay_def spec_play_def audio_err_def ResultAudioErr_def ra_blocks_def cstr_def no_nul_def)
next
  case n: False
  note get = SampleListGetSampleByName_eq [OF assms, of nm]
  show ?thesis
  proof (cases "find_index (\<lambda>x. x = nm) (sl_names l)")
    case None
    then have "map_of (sl_view l) nm = None"
      by (auto simp: find_index_None sl_names_view map_of_eq_None_iff)
    with None n assms get show ?thesis
      by (simp add: FnSamplePlay_def spec_play_def audio_err_def ResultAudioErr_def ra_blocks_def cstr_def no_nul_def)
  next
    case (Some i)
    then have i: "i < length (sl_list l)" "fst (sl_view l ! i) = nm" "\<forall>j < i. fst (sl_view l ! j) \<noteq> nm"
      by (auto simp: find_index_Some sl_names_view)
    then obtain s where s: "sl_samples l ! i = Some s" "smp_name s \<noteq> None"
      using assms by (auto simp: sl_wf_def sl_list_def list_all_length)
    then have nm: "smp_name s = Some nm"
      using i by (auto simp: sl_view_def sl_list_def sample_name_def)
    note S = slot_started [OF assms i(1) s(1) nm i(3)]
    obtain e m1 where e: "ResultAudioErrF (quoted ''failed to play sample '' nm) m = (e, m1)" by fastforce
    have eq: "FnSamplePlay ma (Some l) (Some nm) m =
        (if ma_ok ma (smp_handle s) Sound_start then Some (ResultAudioOk, Some (slot_started l i s), m)
         else Some (e, Some (slot_started l i s), m1))"
      using n get Some s nm e
      by (simp add: FnSamplePlay_def SamplePlay_def named_errf_def audio_errf_def slot_started_def Let_def)
    have "nofail m \<Longrightarrow> nofail m1 \<and> \<not> ra_success e \<and> ra_msg e = Some (take 255 (quoted ''failed to play sample '' nm))"
      using e by (auto simp: ResultAudioErrF_def ResultAudioStrdup_def malloc_nofail)
    with eq S n ResultAudioErrF_live [OF e] show ?thesis
      using no_nul_quoted by (simp add: spec_play_def Let_def ResultAudioOk_def ra_blocks_def)
  qed
qed

lemma ResponseCreateResultAudio_reply:
  assumes "nofail m" "ra_success r \<or> (\<exists>e. ra_msg r = Some e \<and> no_nul e)"
  shows "\<exists>s m'. ResponseCreateResultAudio msgid r m = (Some s, m') \<and> rsp_wf s \<and> nofail m' \<and> rsp_msgid s = msgid
    \<and> rsp_type s = HAZE_RPC_RESPONSE \<and> live (snd (ResponseFree (Some s) m')) = live m - ra_blocks r
    \<and> rsp_view s = (if ra_success r then Reply MNil MNil else Reply (MStr (the (ra_msg r))) MNil)"
proof (cases "ra_success r")
  case True
  then show ?thesis using assms
    by (auto simp: ResponseCreateResultAudio_def ResponseCreateNilResult_nofail ResultAudioFree_def ra_blocks_def
        rsp_view_def ResponseFree_def free_add rsp_wf_def)
next
  case False
  then obtain msg where msg: "ra_msg r = Some msg" "no_nul msg" using assms by auto
  obtain s m1 where 1: "ResponseCreateError msgid (Some msg) m = (s, m1)" by fastforce
  have "created msgid (\<lambda>e r. r = None \<and> e = Some (Object (V_STR (Some msg)) (length msg))) m (s, m1)"
    using ResponseCreateError_created [of msgid "Some msg" m] 1 by simp
  with assms(1) False msg 1 show ?thesis
    by (auto simp: created_def ResponseCreateResultAudio_def rsp_view_def ResponseFree_live ResultAudioFree_def
        ra_blocks_def rsp_wf_def split: option.splits prod.splits)
qed

subsection \<open>Answers\<close>

text \<open>
  A dispatch does what the service says: for a reply there is a response with its fields and the id of the request, which
  can be encoded, and once it is released only what the context owns is left allocated; for a queued job there is no
  response, and exactly the block of the job and what the push took are left beyond what the context owns. The state is
  that of the service.
\<close>

definition answers :: "host \<Rightarrow> Context \<Rightarrow> u32 \<Rightarrow> mem \<Rightarrow> reply \<times> view \<Rightarrow> dispatched \<Rightarrow> bool" where
  "answers h c msgid m rv d \<longleftrightarrow>
     (\<exists>rsp c' m'. d = Some (\<lparr>dr_response = rsp, dr_notification = None\<rparr>, Some c', m') \<and> ctx_wf c' \<and> nofail m'
        \<and> snd rv = ctx_view c'
        \<and> (case fst rv of
             Queued job \<Rightarrow> rsp = None \<and> live m' - ctx_blocks c' = live m - ctx_blocks c + 1 + push_blocks h (ctx_requests c) job
           | Reply e x \<Rightarrow> (\<exists>s. rsp = Some s \<and> rsp_wf s \<and> rsp_msgid s = msgid \<and> rsp_type s = HAZE_RPC_RESPONSE
               \<and> obj_abs (rsp_error s) = e \<and> obj_abs (rsp_result s) = x
               \<and> live (snd (ResponseFree rsp m')) - ctx_blocks c' = live m - ctx_blocks c)))"

lemma answers_created:
  assumes "created msgid P m rm" "nofail m" "ctx_wf c"
    and "\<And>e r. P e r \<Longrightarrow> obj_wf e \<and> obj_wf r \<and> obj_abs e = x \<and> obj_abs r = y"
  shows "answers h c msgid m (Reply x y, ctx_view c) (respond (Some c) rm)"
  using assms
  by (cases rm) (auto simp: created_def answers_def respond_def rsp_view_def rsp_wf_def ResponseFree_live split: option.splits)

lemma answers_error:
  assumes "nofail m" "ctx_wf c" "no_nul (cstr s)"
  shows "answers h c msgid m (fails (ctx_view c) (cstr s)) (respond_error (Some c) msgid s m)"
  unfolding fails_def respond_error_def
  by (rule answers_created [OF ResponseCreateError_created assms(1,2)]) (use assms(3) in auto)

lemma answers_string:
  assumes "nofail m" "ctx_wf c" "no_nul s"
  shows "answers h c msgid m (yields (ctx_view c) (MStr s)) (respond (Some c) (ResponseCreateString msgid (Some s) m))"
  unfolding yields_def
  by (rule answers_created [OF ResponseCreateString_created assms(1,2)]) (use assms(3) in auto)

lemma answers_int:
  assumes "nofail m" "ctx_wf c"
  shows "answers h c msgid m (yields (ctx_view c) (MInt (sint i))) (respond (Some c) (ResponseCreateInt msgid i m))"
  unfolding yields_def
  by (rule answers_created [OF ResponseCreateInt_created assms]) auto

lemma answers_failure:
  assumes "nofail m" "ctx_wf c" "no_nul s"
  shows "answers h c msgid m (yields (ctx_view c) (MStr s)) (respond (Some c) (ResponseCreateResult msgid (ResultErr s) m))"
  unfolding yields_def
  by (rule answers_created [OF ResponseCreateResult_created assms(1,2)]) (use assms(3) in \<open>auto simp: ResultErr_def\<close>)

lemma param_count:
  assumes "length (params_of rq) < 2 ^ 32"
  shows "RequestParamCount (Some rq) = 0 \<longleftrightarrow> params_of rq = []"
    and "RequestParamCount (Some rq) = 1 \<longleftrightarrow> length (params_of rq) = 1"
proof -
  have "unat (RequestParamCount (Some rq)) = length (params_of rq)"
    using assms by (auto simp: RequestParamCount_def params_of_def ObjectArrayLen_def split: option.splits)
  then show "RequestParamCount (Some rq) = 0 \<longleftrightarrow> params_of rq = []"
    and "RequestParamCount (Some rq) = 1 \<longleftrightarrow> length (params_of rq) = 1"
    by (auto simp: unat_eq_0 word_unat_eq_iff)
qed

lemma no_nul_msg [simp]:
  "no_nul (cstr ''Expected 1 parameter.'')" "no_nul (cstr ''Expected a string.'')"
  "no_nul (cstr ''Expected 0 parameters.'')" "no_nul (cstr ''Pong, but those arguments weren't necessary.'')"
  "no_nul (cstr ''Method not found.'')" "no_nul (cstr ''Method not specified.'')" "no_nul (cstr ''pong!'')"
  "no_nul (cstr ''Session already started!'')"
  by (simp_all add: no_nul_def cstr_def)

lemma arr_abs_MStr: "arr_abs a \<noteq> MStr s"
  by (cases a rule: arr_abs.cases) simp_all

text \<open>A parameter counts as a string for the code exactly when its value is one.\<close>

lemma str_value:
  assumes "str_there p"
  shows "ObjectExpect p OBJ_STR \<longleftrightarrow> (\<exists>s. obj_abs p = MStr s)"
    and "obj_abs p = MStr s \<Longrightarrow> obj_wf p \<Longrightarrow> \<exists>ob. p = Some ob \<and> ObjectGetStr ob = Some (Some s) \<and> no_nul s"
  using assms
  by (cases p rule: obj_abs.cases; auto simp: str_there_def ObjectExpect_def ObjectGetStr_def arr_abs_MStr
      split: ObjectValue.splits option.splits if_splits)+

lemma answers_str_param:
  assumes "nofail m" "ctx_wf c" "params_wf rq"
    and "\<And>s. no_nul s \<Longrightarrow> answers h c (req_msgid rq) m (k' s) (k (Some s) m)"
  shows "answers h c (req_msgid rq) m (str_param (ctx_view c) (map obj_abs (params_of rq)) k') (with_str_param c rq k m)"
proof (cases "length (params_of rq) = 1")
  case False
  then have "str_param (ctx_view c) (map obj_abs (params_of rq)) k' = fails (ctx_view c) (cstr ''Expected 1 parameter.'')"
    by (auto simp: str_param_def split: list.split)
  with False assms answers_error [of m c] show ?thesis
    by (simp add: with_str_param_def param_count RequestMsgId_def params_wf_def)
next
  case True
  then obtain p where p: "params_of rq = [p]" by (cases "params_of rq") auto
  then have g: "RequestParamGet (Some rq) 0 = p" "RequestParamCount (Some rq) = 1" "obj_wf p" "str_there p"
    using assms(3) param_count(2) [of rq]
    by (auto simp: RequestParamGet_def params_of_def params_wf_def ObjectArrayLen_def split: option.splits)
  show ?thesis
  proof (cases "\<exists>s. obj_abs p = MStr s")
    case True
    then obtain s ob where s: "obj_abs p = MStr s" "p = Some ob" "ObjectGetStr ob = Some (Some s)" "no_nul s"
      using str_value(2) [OF g(4) _ g(3)] by blast
    then show ?thesis
      using g str_value(1) [OF g(4)] assms(4) [OF s(4)] p by (simp add: with_str_param_def str_param_def)
  next
    case False
    then have "str_param (ctx_view c) [obj_abs p] k' = fails (ctx_view c) (cstr ''Expected a string.'')"
      by (auto simp: str_param_def split: mval.split)
    with False g p str_value(1) [OF g(4)] answers_error [OF assms(1,2)] show ?thesis
      by (simp add: with_str_param_def RequestMsgId_def)
  qed
qed

text \<open>What the context becomes when the sample list of its session changes.\<close>

lemma put_samples_view:
  assumes "ctx_session c = Some s" "ses_wf s" "ses_SampleList s = Some l" "sl_wf l'"
  shows "ctx_wf (put_samples (Some l') c)"
    and "ctx_view (put_samples (Some l') c) = (ctx_view c)\<lparr>v_samples := sl_view l'\<rparr>"
    and "ctx_view c = (ctx_view c)\<lparr>v_samples := sl_view l\<rparr>"
    and "ctx_blocks (put_samples (Some l') c) - sl_blocks l' = ctx_blocks c - sl_blocks l"
  using assms
  by (auto simp: ctx_wf_def ses_wf_def put_samples_def ctx_view_def SessionGetName_def ctx_blocks_def ses_blocks_def)

lemma answers_audio:
  assumes c: "ctx_session c = Some s" "ses_wf s" "ses_SampleList s = Some l"
    and f: "f = Some (r, Some l', m')" "sl_wf l'" "live m' - sl_blocks l' = live m - sl_blocks l + ra_blocks r" "nofail m'"
      "ra_success r \<or> (\<exists>e. ra_msg r = Some e \<and> no_nul e)"
  shows "answers h c msgid m (if ra_success r then yields ((ctx_view c)\<lparr>v_samples := sl_view l'\<rparr>) MNil
         else fails ((ctx_view c)\<lparr>v_samples := sl_view l'\<rparr>) (the (ra_msg r))) (respond_audio c msgid f)"
proof -
  obtain rs m2 where "ResponseCreateResultAudio msgid r m' = (Some rs, m2)" "rsp_wf rs" "nofail m2" "rsp_msgid rs = msgid"
    "rsp_type rs = HAZE_RPC_RESPONSE" "live (snd (ResponseFree (Some rs) m2)) = live m' - ra_blocks r"
    "rsp_view rs = (if ra_success r then Reply MNil MNil else Reply (MStr (the (ra_msg r))) MNil)"
    using ResponseCreateResultAudio_reply [OF f(4,5)] by blast
  with f put_samples_view [OF c f(2)] show ?thesis
    by (auto simp: answers_def respond_audio_def respond_def yields_def fails_def rsp_view_def split: if_splits)
qed

lemma answers_remove:
  assumes "nofail m" "ctx_session c = Some s" "ses_wf s" "ses_SampleList s = Some l" "sl_wf l"
  shows "answers h c msgid m (spec_remove (ctx_view c) nm) (respond_audio c msgid (FnSampleListRemoveSample (Some l) (Some nm) m))"
proof -
  obtain r l' m' where R: "FnSampleListRemoveSample (Some l) (Some nm) m = Some (r, Some l', m')" "sl_wf l'"
    "live m' - sl_blocks l' = live m - sl_blocks l + ra_blocks r" "nofail m'"
    "spec_remove ((ctx_view c)\<lparr>v_samples := sl_view l\<rparr>) nm =
        (if ra_success r then yields ((ctx_view c)\<lparr>v_samples := sl_view l'\<rparr>) MNil
         else fails ((ctx_view c)\<lparr>v_samples := sl_view l'\<rparr>) (the (ra_msg r)))"
    "ra_success r \<or> (\<exists>e. ra_msg r = Some e \<and> no_nul e)"
    using FnSampleListRemoveSample_view [OF assms(5), of nm m "ctx_view c"] assms(1) by blast
  show ?thesis
    using answers_audio [OF assms(2-4) R(1-4,6)] R(5) put_samples_view(3) [OF assms(2-5)] by simp
qed

lemma answers_play:
  assumes "nofail m" "ctx_session c = Some s" "ses_wf s" "ses_SampleList s = Some l" "sl_wf l" "no_nul nm"
  shows "answers h c msgid m (spec_play ma (ctx_view c) nm) (respond_audio c msgid (FnSamplePlay ma (Some l) (Some nm) m))"
proof -
  obtain r l' m' where R: "FnSamplePlay ma (Some l) (Some nm) m = Some (r, Some l', m')" "sl_wf l'"
    "live m' - sl_blocks l' = live m - sl_blocks l + ra_blocks r" "nofail m'"
    "spec_play ma ((ctx_view c)\<lparr>v_samples := sl_view l\<rparr>) nm =
        (if ra_success r then yields ((ctx_view c)\<lparr>v_samples := sl_view l'\<rparr>) MNil
         else fails ((ctx_view c)\<lparr>v_samples := sl_view l'\<rparr>) (the (ra_msg r)))"
    "ra_success r \<or> (\<exists>e. ra_msg r = Some e \<and> no_nul e)"
    using FnSamplePlay_view [OF assms(5), of ma nm m "ctx_view c"] assms(1,6) by blast
  show ?thesis
    using answers_audio [OF assms(2-4) R(1-4,6)] R(5) put_samples_view(3) [OF assms(2-5)] by simp
qed

lemma answers_import:
  assumes "nofail m" "ctx_wf c" "pushes h enq"
  shows "answers h c (req_msgid rq) m (spec_import enq (ctx_view c) connection (req_msgid rq) s)
    (dispatch_import h c connection rq (Some s) m)"
proof -
  let ?job = "JobInit (req_msgid rq) JOB_SAMPLELIST_ADD connection (In_request s)"
  have "h_push h (ctx_requests c) ?job (mem_add 1 m) =
      (enq (ctx_requests c) ?job, mem_add (push_blocks h (ctx_requests c) ?job) (mem_add 1 m))"
    using assms(1,3) by (simp add: pushes_def)
  then have "dispatch_import h c connection rq (Some s) m = respond (Some (c\<lparr>ctx_requests := enq (ctx_requests c) ?job\<rparr>))
      (None, mem_add (push_blocks h (ctx_requests c) ?job) (mem_add 1 m))"
    using assms(1) by (simp add: dispatch_import_def malloc_nofail JobInit_def RequestMsgId_def ContextGetRequestQueue_def)
  moreover have "v_jobs (ctx_view c) = ctx_requests c" by (simp add: ctx_view_def split: option.split)
  ultimately show ?thesis using assms(1,2)
    by (auto simp: answers_def respond_def spec_import_def Let_def ctx_wf_def ctx_blocks_def ctx_view_def)
qed

lemma answers_no_params:
  assumes "nofail m" "ctx_wf c" "params_wf rq"
    and "no_nul (cstr msg)" "answers h c (req_msgid rq) m rv d"
  shows "answers h c (req_msgid rq) m (no_params (ctx_view c) (map obj_abs (params_of rq)) msg rv)
    (if RequestParamCount (Some rq) \<noteq> 0 then respond_error (Some c) (req_msgid rq) msg m else d)"
  using assms(3,5) answers_error [OF assms(1,2,4)] by (simp add: no_params_def param_count(1) params_wf_def)

lemma answers_if:
  "(P \<Longrightarrow> answers h c msgid m x y) \<Longrightarrow> (\<not> P \<Longrightarrow> answers h c msgid m x' y') \<Longrightarrow>
   answers h c msgid m (if P then x else x') (if P then y else y')"
  by simp

lemma case_map_of_Cons:
  "(case map_of ((k, v) # ps) x of None \<Rightarrow> d | Some r \<Rightarrow> r) =
   (if x = k then v else case map_of ps x of None \<Rightarrow> d | Some r \<Rightarrow> r)"
  by simp

text \<open>The table as the chain of comparisons the code makes.\<close>

lemma service_chain:
  "service h enq v connection msgid (Some meth) ps =
     (if meth = cstr ''test/ping'' then
        no_params v ps ''Pong, but those arguments weren't necessary.'' (yields v (MStr (cstr ''pong!'')))
      else if meth = cstr ''session/create'' then
        str_param v ps (\<lambda>s. yields v (MStr (cstr ''Session already started!'')))
      else if meth = cstr ''session/get_name'' then
        no_params v ps ''Expected 0 parameters.'' (yields v (MStr (v_name v)))
      else if meth = cstr ''session/get_working_time'' then
        no_params v ps ''Expected 0 parameters.'' (yields v (MInt (sint (h_now h - v_created v))))
      else if meth = cstr ''samplelist/import'' then str_param v ps (spec_import enq v connection msgid)
      else if meth = cstr ''samplelist/remove'' then str_param v ps (spec_remove v)
      else if meth = cstr ''samplelist/play'' then str_param v ps (spec_play (h_audio h) v)
      else fails v (cstr ''Method not found.''))"
  unfolding service_def option.case case_map_of_Cons map_of.simps(1) ..

lemma dispatch_answers:
  assumes "nofail m" "ctx_wf c" "params_wf rq" "pushes h enq"
  shows "answers h c (req_msgid rq) m
    (service h enq (ctx_view c) connection (req_msgid rq) (req_method rq) (map obj_abs (params_of rq)))
    (DispatchRPCMessage h (Some c) connection (Some rq) m)"
proof -
  obtain s l where s: "ctx_session c = Some s" "ses_wf s" "ses_SampleList s = Some l" "sl_wf l"
    using assms(2) by (auto simp: ctx_wf_def ses_wf_def)
  have cr: "answers h c (req_msgid rq) m (yields (ctx_view c) (MStr (cstr ''Session already started!'')))
      (case FnSessionCreate (h_audio h) (h_now h) (h_rand1 h) (h_rand2 h) (Some s) eng (Some x) m of
         None \<Rightarrow> None | Some (r, m) \<Rightarrow> respond (Some c) (ResponseCreateResult (req_msgid rq) r m))" for x eng
    using answers_failure [OF assms(1,2) no_nul_msg(8)] by (simp add: FnSessionCreate_def)
  have nm: "v_name (ctx_view c) = FnSessionGetName (Some s)" "no_nul (FnSessionGetName (Some s))"
      "h_now h - v_created (ctx_view c) = FnSessionGetWorkingTime (h_now h) (Some s)"
    using s(1,2) by (auto simp: ctx_view_def FnSessionGetName_def FnSessionGetWorkingTime_def SessionGetWorkingTime_def
        SessionGetName_def ses_wf_def)
  have get: "SessionGetSampleList (Some s) = Some (Some l)" "ContextGetSession c = Some s"
    using s by (simp_all add: SessionGetSampleList_def ContextGetSession_def)
  note leaf = answers_error [OF assms(1,2)] answers_string [OF assms(1,2)] answers_int [OF assms(1,2)]
      answers_import [OF assms(1,2,4)] answers_remove [OF assms(1) s] answers_play [OF assms(1) s] cr
  show ?thesis
  proof (cases "req_method rq")
    case None
    then show ?thesis
      using answers_error [OF assms(1,2)] get by (simp add: service_def DispatchRPCMessage_def RequestMsgId_def RequestMethod_def)
  next
    case (Some meth)
    then show ?thesis
      unfolding DispatchRPCMessage_def Let_def prod.case option.case get RequestMethod_def RequestMsgId_def Some service_chain nm(1,3)
      by (intro answers_if answers_no_params [OF assms(1-3)] answers_str_param [OF assms(1-3)] leaf no_nul_msg nm(2))
  qed
qed

text \<open>
  C4: Dispatching implements the method table of \<open>service\<close>, which is the table of the code: on a context with a session,
  when no allocation fails, every request (any method, known or not, or none, with any parameters the decoder can deliver)
  is answered as the table says, under its own id and without a notification, the state seen by clients changes as the
  table says, and once the response is released exactly the blocks the context owns are left. An import that is accepted is
  not answered: its job is in the queue, and exactly the block of the job and what the push took are left. (Of
  \<^verbatim>\<open>JobQueuePush\<close> it is used that, when there is memory, it does to the queue what \<open>enq\<close> says and takes a number of blocks
  that depends on the queue and the job only. The documents describe other replies and methods: see the findings.)
\<close>

theorem dispatch_implements_service:
  assumes "nofail m" "ctx_wf c" "params_wf rq" "pushes h enq"
  shows "answers h c (req_msgid rq) m
    (service h enq (ctx_view c) connection (req_msgid rq) (req_method rq) (map obj_abs (params_of rq)))
    (DispatchRPCMessage h (Some c) connection (Some rq) m)"
  by (rule dispatch_answers [OF assms])

text \<open>A context with a session of two samples.\<close>

definition demo_ctx :: Context where
  "demo_ctx = \<lparr>ctx_session = Some \<lparr>ses_name = Some (cstr ''gizmo_silly''), ses_project_path = None,
       ses_created_at = 1700000000, ses_working_time = 0,
       ses_SampleList = Some \<lparr>sl_samples = [Some (blank_sample (cstr ''kick.wav'')), Some (blank_sample (cstr ''hat.wav''))],
                              sl_alloc = True\<rparr>,
       ses_ChannelList = Some \<lparr>cl_channels = []\<rparr>\<rparr>,
     ctx_paths = None, ctx_instanceRegFile = None, ctx_audioEngine = True,
     ctx_requests = Some \<lparr>jq_capacity = 8, jq_len = 0, jq_jobs = Some []\<rparr>, ctx_results = None, ctx_loop = None\<rparr>"

definition demo_remove :: Request where
  "demo_remove = \<lparr>req_type = 0, req_msgid = 77, req_method = Some (cstr ''samplelist/remove''),
     req_parameters = Some (ObjectArray [Some (Object (V_STR (Some (cstr ''kick.wav''))) 8)] 8)\<rparr>"

lemma demo_ctx_wf: "ctx_wf demo_ctx"
  by (simp add: demo_ctx_def ctx_wf_def ses_wf_def sl_wf_def blank_sample_def no_nul_def cstr_def)

definition enqueue :: "JobQueue option \<Rightarrow> Job \<Rightarrow> JobQueue option" where
  "enqueue q j = map_option (\<lambda>q. q\<lparr>jq_jobs := map_option (\<lambda>js. js @ [Some j]) (jq_jobs q), jq_len := jq_len q + 1\<rparr>) q"

lemma plain_host_pushes: "pushes plain_host enqueue"
  by (simp add: pushes_def plain_host_def enqueue_def push_blocks_def)

theorem dispatch_implements_service_witness:
  "answers plain_host demo_ctx 77 \<lparr>outcomes = [], live = 100\<rparr>
     (Reply MNil MNil, (ctx_view demo_ctx)\<lparr>v_samples := [(cstr ''hat.wav'', [])]\<rparr>)
     (DispatchRPCMessage plain_host (Some demo_ctx) 1 (Some demo_remove) \<lparr>outcomes = [], live = 100\<rparr>)"
proof -
  have "service plain_host enqueue (ctx_view demo_ctx) 1 77 (req_method demo_remove) (map obj_abs (params_of demo_remove))
      = (Reply MNil MNil, (ctx_view demo_ctx)\<lparr>v_samples := [(cstr ''hat.wav'', [])]\<rparr>)"
    by (simp add: service_def demo_remove_def params_of_def str_param_def spec_remove_def yields_def ctx_view_def demo_ctx_def
        sl_view_def sl_list_def blank_sample_def sample_name_def cstr_def)
  moreover have "params_wf demo_remove"
    by (simp add: params_wf_def demo_remove_def params_of_def str_there_def cstr_def no_nul_def)
  ultimately show ?thesis
    using dispatch_implements_service [OF _ demo_ctx_wf _ plain_host_pushes, of "\<lparr>outcomes = [], live = 100\<rparr>" demo_remove 1]
    by (simp add: nofail_def demo_remove_def)
qed

subsection \<open>Dispatching under any allocator\<close>

text \<open>What \<open>with_str_param\<close> lets through; an import it lets through becomes a job.\<close>

definition str_accepted :: "Request \<Rightarrow> bool" where
  "str_accepted rq \<longleftrightarrow> RequestParamCount (Some rq) = 1 \<and> ObjectExpect (RequestParamGet (Some rq) 0) OBJ_STR"

definition queues_job :: "Request \<Rightarrow> bool" where
  "queues_job rq \<longleftrightarrow> req_method rq = Some (cstr ''samplelist/import'') \<and> str_accepted rq"

text \<open>
  A dispatch is undefined only for a queued job without memory; a response is missing only for a queued job or when there
  was a failed allocation, and otherwise answers the request; the context stays well-formed.
\<close>

definition safe :: "mem \<Rightarrow> u32 \<Rightarrow> bool \<Rightarrow> dispatched \<Rightarrow> bool" where
  "safe m msgid queued d =
     (case d of
        None \<Rightarrow> queued \<and> \<not> fst (malloc m)
      | Some (dr, c, m') \<Rightarrow>
          (case dr_response dr of
             None \<Rightarrow> queued \<or> \<not> nofail m
           | Some s \<Rightarrow> \<not> queued \<and> rsp_msgid s = msgid \<and> rsp_type s = HAZE_RPC_RESPONSE)
          \<and> dr_notification dr = None \<and> (\<exists>c'. c = Some c' \<and> ctx_wf c'))"

definition stamped :: "mem \<Rightarrow> u32 \<Rightarrow> Response option \<Rightarrow> bool" where
  "stamped m msgid r = (case r of None \<Rightarrow> \<not> nofail m | Some s \<Rightarrow> rsp_msgid s = msgid \<and> rsp_type s = HAZE_RPC_RESPONSE)"

lemma created_stamped: "created msgid P m rm \<Longrightarrow> stamped m msgid (fst rm)"
  by (auto simp: created_def stamped_def split: option.splits prod.splits)

lemma ResponseCreateResultAudio_stamped: "stamped m msgid (fst (ResponseCreateResultAudio msgid r m))"
proof -
  obtain n m1 where 1: "ResponseNew m = (n, m1)" by fastforce
  have "stamped m msgid (fst (ResponseCreateNilResult msgid m))"
    using ResponseNew_cases [OF 1]
    by (auto simp: ResponseCreateNilResult_def 1 response_set_defs stamped_def split: prod.splits option.splits)
  then show ?thesis
    using created_stamped [OF ResponseCreateError_created [of msgid "ra_msg r" m]]
    by (auto simp: ResponseCreateResultAudio_def split: prod.splits)
qed

lemma safe_respond:
  "stamped m' msgid (fst rm) \<Longrightarrow> (nofail m \<Longrightarrow> nofail m') \<Longrightarrow> ctx_wf c \<Longrightarrow> safe m msgid False (respond (Some c) rm)"
  by (auto simp: safe_def respond_def stamped_def split: option.splits)

lemma safe_error: "ctx_wf c \<Longrightarrow> safe m msgid False (respond_error (Some c) msgid s m)"
  unfolding respond_error_def by (rule safe_respond [OF created_stamped [OF ResponseCreateError_created]])

lemma with_str_param_cases:
  "\<exists>s. with_str_param c rq k m = (if str_accepted rq then k s m else with_str_param c rq k m)
    \<and> (\<not> str_accepted rq \<longrightarrow> (\<exists>msg. with_str_param c rq k m = respond_error (Some c) (req_msgid rq) msg m))"
proof (cases "RequestParamGet (Some rq) 0")
  case None
  then show ?thesis by (auto simp: with_str_param_def str_accepted_def RequestMsgId_def ObjectExpect_def)
next
  case (Some ob)
  then show ?thesis
    by (cases ob) (auto simp: with_str_param_def str_accepted_def RequestMsgId_def ObjectExpect_def ObjectGetStr_def
        split: ObjectValue.splits)
qed

lemma safe_str_param:
  assumes "ctx_wf c" "\<And>s. safe m (req_msgid rq) (q \<and> str_accepted rq) (k s m) \<or> \<not> str_accepted rq"
  shows "safe m (req_msgid rq) (q \<and> str_accepted rq) (with_str_param c rq k m)"
  using with_str_param_cases [of c rq k m] assms(2) safe_error [OF assms(1), of m "req_msgid rq"] by metis

lemma safe_audio:
  assumes "ctx_session c = Some s" "ses_wf s" "ses_SampleList s = Some l"
    and "\<exists>r l' m'. f = Some (r, Some l', m') \<and> sl_wf l' \<and> (nofail m \<longrightarrow> nofail m')"
  shows "safe m msgid False (respond_audio c msgid f)"
proof -
  obtain r l' m' where f: "f = Some (r, Some l', m')" "sl_wf l'" "nofail m \<Longrightarrow> nofail m'" using assms(4) by blast
  then show ?thesis
    using safe_respond [OF ResponseCreateResultAudio_stamped f(3) put_samples_view(1) [OF assms(1-3) f(2)]]
    by (simp add: respond_audio_def)
qed

lemma safe_import: "ctx_wf c \<Longrightarrow> safe m (req_msgid rq) True (dispatch_import h c connection rq s m)"
  by (auto simp: dispatch_import_def safe_def respond_def ctx_wf_def split: prod.splits)

lemma safe_if:
  "(P \<Longrightarrow> safe m msgid q x) \<Longrightarrow> (\<not> P \<Longrightarrow> safe m msgid q y) \<Longrightarrow> safe m msgid q (if P then x else y)"
  by simp

lemma dispatch_is_safe:
  assumes "ctx_wf c"
  shows "safe m (req_msgid rq) (queues_job rq) (DispatchRPCMessage h (Some c) connection (Some rq) m)"
proof -
  obtain s l where s: "ctx_session c = Some s" "ses_wf s" "ses_SampleList s = Some l" "sl_wf l"
    using assms by (auto simp: ctx_wf_def ses_wf_def)
  have get: "SessionGetSampleList (Some s) = Some (Some l)" "ContextGetSession c = Some s"
    using s by (simp_all add: SessionGetSampleList_def ContextGetSession_def)
  have rm: "\<exists>r l' m'. FnSampleListRemoveSample (Some l) nm m = Some (r, Some l', m') \<and> sl_wf l' \<and> (nofail m \<longrightarrow> nofail m')" for nm
    using FnSampleListRemoveSample_view [OF s(4), of "the nm" m] s(4)
    by (cases nm) (simp add: FnSampleListRemoveSample_def, fastforce)
  have pl: "\<exists>r l' m'. FnSamplePlay (h_audio h) (Some l) nm m = Some (r, Some l', m') \<and> sl_wf l' \<and> (nofail m \<longrightarrow> nofail m')" for nm
    using FnSamplePlay_view [OF s(4), of "h_audio h" "the nm" m] s(4)
    by (cases nm) (simp add: FnSamplePlay_def, fastforce)
  have cr: "safe m (req_msgid rq) False (case FnSessionCreate (h_audio h) (h_now h) (h_rand1 h) (h_rand2 h) (Some s) eng x m of
         None \<Rightarrow> None | Some (r, m) \<Rightarrow> respond (Some c) (ResponseCreateResult (req_msgid rq) r m))" for x eng
    using safe_respond [OF created_stamped [OF ResponseCreateResult_created] _ assms] by (simp add: FnSessionCreate_def)
  note leaf = safe_error [OF assms] safe_respond [OF created_stamped [OF ResponseCreateString_created] _ assms]
    safe_respond [OF created_stamped [OF ResponseCreateInt_created] _ assms] cr
    safe_audio [OF s(1-3) rm] safe_audio [OF s(1-3) pl] disjI1
    safe_str_param [OF assms, where q = False, simplified]
  show ?thesis
  proof (cases "req_method rq")
    case None
    then show ?thesis
      using safe_error [OF assms] get by (simp add: DispatchRPCMessage_def RequestMsgId_def RequestMethod_def queues_job_def)
  next
    case (Some meth)
    show ?thesis
    proof (cases "meth = cstr ''samplelist/import''")
      case True
      then have "DispatchRPCMessage h (Some c) connection (Some rq) m = with_str_param c rq (dispatch_import h c connection rq) m"
        using Some get by (simp add: DispatchRPCMessage_def RequestMethod_def cstr_def)
      moreover have "safe m (req_msgid rq) (True \<and> str_accepted rq) (dispatch_import h c connection rq s m) \<or> \<not> str_accepted rq" for s
        using safe_import [OF assms, of m rq h connection s] by (cases "str_accepted rq") simp_all
      ultimately show ?thesis
        using safe_str_param [OF assms, of m rq True "dispatch_import h c connection rq"] True Some by (simp add: queues_job_def)
    next
      case False
      have "safe m (req_msgid rq) False (DispatchRPCMessage h (Some c) connection (Some rq) m)"
        unfolding DispatchRPCMessage_def Let_def prod.case option.case get RequestMethod_def RequestMsgId_def Some if_not_P [OF False]
        by (intro safe_if leaf)
      with False Some show ?thesis by (simp add: queues_job_def)
    qed
  qed
qed

text \<open>
  C18: Under any allocator, on a context with a session, dispatching a request is defined unless it is an import with one
  string parameter whose job cannot be allocated. Every other request gets a response of type response under its own id,
  unless an allocation failed; such an import never gets one. No notification is sent, and the context keeps its
  invariant.
\<close>

theorem dispatch_safe:
  assumes "ctx_wf c"
  shows "case DispatchRPCMessage h (Some c) connection (Some rq) m of
      None \<Rightarrow> queues_job rq \<and> \<not> fst (malloc m)
    | Some (dr, ctx, m') \<Rightarrow>
        (case dr_response dr of
           None \<Rightarrow> queues_job rq \<or> \<not> nofail m
         | Some s \<Rightarrow> \<not> queues_job rq \<and> rsp_msgid s = req_msgid rq \<and> rsp_type s = HAZE_RPC_RESPONSE)
        \<and> dr_notification dr = None \<and> (\<exists>c'. ctx = Some c' \<and> ctx_wf c')"
  using dispatch_is_safe [OF assms] by (simp only: safe_def)

theorem dispatch_safe_witness:
  "\<exists>dr c' m'. DispatchRPCMessage plain_host (Some demo_ctx) 1 (Some demo_remove) \<lparr>outcomes = [False, False], live = 100\<rparr>
      = Some (dr, Some c', m') \<and> (case dr_response dr of None \<Rightarrow> True | Some s \<Rightarrow> rsp_msgid s = 77)"
  using dispatch_safe [OF demo_ctx_wf, of demo_remove "\<lparr>outcomes = [False, False], live = 100\<rparr>" plain_host 1]
  by (auto simp: queues_job_def demo_remove_def cstr_def split: option.splits)

text \<open>Without a session every request is undefined, although a \<^verbatim>\<open>NULL\<close> context is answered.\<close>

lemma dispatch_null_session:
  assumes "ctx_session c = None"
  shows "DispatchRPCMessage h (Some c) connection (Some rq) m = None
    \<and> (\<exists>r m'. DispatchRPCMessage h None connection (Some rq) m = Some (\<lparr>dr_response = r, dr_notification = None\<rparr>, None, m'))"
  using assms
  by (simp add: DispatchRPCMessage_def ContextGetSession_def SessionGetSampleList_def respond_error_def respond_def)

end
