(* ===== verification/Haze_Server.thy ===== *)
theory Haze_Server
  imports Haze_Dispatcher
begin

text \<open>
  \<^verbatim>\<open>source/server/Dispatch.c\<close>, \<^verbatim>\<open>source/server/HazeServer.c\<close>, \<^verbatim>\<open>source/server/HazeServerMiddleware.c\<close>: the bytes of a connection, the callbacks of the event loop and the table of
  connections.

  The event loop itself is outside: \<open>uv\<close> holds its answers, and the world records what was asked of
  it, the handles for which a close was requested and the writes that are on their way. A
  connection is a number, the address of its block.
\<close>

subsection \<open>From bytes to bytes\<close>

record DispatchBytes =
  db_ok :: bool
  db_response :: "RawBuffer option"
  db_notification :: "RawBuffer option"

definition marshal_response :: "Response option \<Rightarrow> mem \<Rightarrow> (RawBuffer option \<times> mem) option" where
  "marshal_response r m =
     (if r = None then Some (None, m)
      else (case ResponseMarshal r m of
          None \<Rightarrow> None
        | Some (b, m) \<Rightarrow> Some (b, snd (ResponseFree r m))))"

definition marshal_notification :: "Notification option \<Rightarrow> mem \<Rightarrow> (RawBuffer option \<times> mem) option" where
  "marshal_notification n m =
     (if n = None then Some (None, m)
      else (case NotificationMarshal n m of
          None \<Rightarrow> None
        | Some (b, m) \<Rightarrow> Some (b, NotificationFree n m)))"

text \<open>
  The request is released before the response is encoded: a job that was queued by it keeps a pointer into it.
\<close>

definition ServerDispatch ::
  "host \<Rightarrow> Context option \<Rightarrow> nat \<Rightarrow> RawBuffer \<Rightarrow> mem \<Rightarrow>
   (DispatchBytes \<times> RawBuffer \<times> Context option \<times> mem) option" where
  "ServerDispatch h ctx conn buffer m =
     (case RequestUnmarshal (Some buffer) m of
        None \<Rightarrow> None
      | Some (request, buffer', m) \<Rightarrow>
          let buffer = (case buffer' of None \<Rightarrow> buffer | Some b \<Rightarrow> b)
          in case request of
               None \<Rightarrow> Some (\<lparr>db_ok = False, db_response = None, db_notification = None\<rparr>, buffer, ctx, m)
             | Some rq \<Rightarrow>
                 (case DispatchRPCMessage h ctx conn (Some rq) m of
                    None \<Rightarrow> None
                  | Some (dr, ctx, m) \<Rightarrow>
                      let m = RequestFree (Some rq) m;
                          ctx = map_option request_gone ctx
                      in case marshal_response (dr_response dr) m of
                           None \<Rightarrow> None
                         | Some (rs, m) \<Rightarrow>
                             (case marshal_notification (dr_notification dr) m of
                                None \<Rightarrow> None
                              | Some (no, m) \<Rightarrow>
                                  Some (\<lparr>db_ok = True, db_response = rs, db_notification = no\<rparr>, buffer, ctx, m))))"

subsection \<open>Middleware\<close>

datatype HazeServerMiddlewareResult = HAZE_MW_REJECT | HAZE_MW_NEXT

definition http_methods :: "string list" where
  "http_methods = [''GET '', ''POST'', ''PUT '', ''HEAD'', ''DELE'', ''PATC'', ''OPTI'']"

definition HazeServerMiddlewareIsHttp :: "byte list option \<Rightarrow> nat \<Rightarrow> HazeServerMiddlewareResult" where
  "HazeServerMiddlewareIsHttp data len =
     (case data of
        None \<Rightarrow> HAZE_MW_NEXT
      | Some d \<Rightarrow>
          if len < 4 then HAZE_MW_NEXT
          else if list_ex (\<lambda>meth. take 4 d = cstr meth) http_methods then HAZE_MW_REJECT
          else HAZE_MW_NEXT)"

subsection \<open>Connections and the server\<close>

text \<open>\<open>cn_buffer\<close> are the first \<^verbatim>\<open>buffer_len\<close> bytes; \<open>cn_alloc\<close> tells whether the block exists.\<close>

record HazeConn =
  cn_buffer :: "byte list"
  cn_alloc :: bool
  cn_cap :: u64

text \<open>\<open>hs_connections\<close> are the first \<^verbatim>\<open>conn_len\<close> slots.\<close>

record HazeServer =
  hs_addr :: "byte list option"
  hs_port :: u16
  hs_loop :: bool
  hs_ctx :: "Context option"
  hs_connections :: "nat list"
  hs_conn_alloc :: bool
  hs_conn_cap :: nat

record world =
  w_server :: HazeServer
  w_conns :: "nat \<Rightarrow> HazeConn option"
  w_closing :: "nat list"
  w_pending :: "nat list"
  w_written :: "(nat \<times> byte list) list"

record uv =
  uv_write_ok :: "(nat \<times> byte list) list \<Rightarrow> bool"
  uv_tcp_init_ok :: bool
  uv_accept_ok :: bool
  uv_read_start_ok :: bool

text \<open>
  \<^verbatim>\<open>uv_loop_new\<close> allocates the loop. Without it the handle is set up on a \<^verbatim>\<open>NULL\<close> loop, which is undefined.
\<close>

definition HazeServerNew :: "byte list option \<Rightarrow> u16 \<Rightarrow> mem \<Rightarrow> (HazeServer option \<times> mem) option" where
  "HazeServerNew addr port m =
     (let (ok, m) = malloc m in
      if \<not> ok then Some (None, m)
      else
        let (loop, m) = malloc m;
            (a, m) = strdup (case addr of None \<Rightarrow> cstr ''127.0.0.1'' | Some a \<Rightarrow> a) m
        in if \<not> loop then None
           else Some (Some \<lparr>hs_addr = a, hs_port = port, hs_loop = loop, hs_ctx = None, hs_connections = [],
                  hs_conn_alloc = False, hs_conn_cap = 0\<rparr>, m))"

definition UV_EINVAL :: int where "UV_EINVAL = - 22"
definition UV_EADDRINUSE :: int where "UV_EADDRINUSE = - 98"
definition UV_EACCES :: int where "UV_EACCES = - 13"

text \<open>
  \<open>tcp_bind\<close> and \<open>listen\<close> are the results of \<^verbatim>\<open>uv_tcp_bind\<close> and \<^verbatim>\<open>uv_listen\<close> for a port. Parsing a \<^verbatim>\<open>NULL\<close>
  address is undefined.
\<close>

definition HazeServerStart ::
  "(u16 \<Rightarrow> int) \<Rightarrow> (u16 \<Rightarrow> int) \<Rightarrow> Context option \<Rightarrow> HazeServer option \<Rightarrow> (int \<times> HazeServer option) option" where
  "HazeServerStart tcp_bind listen ctx sp =
     (case (ctx, sp) of
        (Some c, Some s) \<Rightarrow>
          let s = s\<lparr>hs_ctx := Some c\<rparr>
          in if hs_addr s = None then None
             else
               let r = tcp_bind (hs_port s)
               in Some (if r \<noteq> 0 then r else listen (hs_port s), Some s)
      | _ \<Rightarrow> Some (UV_EINVAL, sp))"

text \<open>
  The handle \<^verbatim>\<open>HazeServerSetupSignals\<close> allocates is marked; the second component tells whether there is one.
\<close>

definition HazeServerSetupSignals :: "HazeServer option \<Rightarrow> mem \<Rightarrow> int \<times> bool \<times> mem" where
  "HazeServerSetupSignals sp m =
     (if sp = None then (- 1, False, m)
      else let (ok, m) = malloc m in if \<not> ok then (- 1, False, m) else (0, True, m))"

text \<open>
  \<open>drain\<close> is what the callbacks do to the memory while \<^verbatim>\<open>uv_walk\<close> closes every handle and the loop runs until it can be
  closed (\<open>Haze_Run\<close>); for a server that only listens they do nothing. The connection table is not released.
\<close>

definition HazeServerFree :: "HazeServer option \<Rightarrow> (mem \<Rightarrow> mem) \<Rightarrow> mem \<Rightarrow> mem" where
  "HazeServerFree sp drain m =
     (case sp of
        None \<Rightarrow> m
      | Some s \<Rightarrow>
          let m = (if hs_loop s then free1 (drain m) else m)
          in free1 (free_opt (hs_addr s) m))"

definition HazeServerPort :: "HazeServer option \<Rightarrow> u16" where
  "HazeServerPort sp = (case sp of None \<Rightarrow> 0 | Some s \<Rightarrow> hs_port s)"

definition HazeServerAddress :: "HazeServer option \<Rightarrow> byte list option" where
  "HazeServerAddress sp = (case sp of None \<Rightarrow> None | Some s \<Rightarrow> hs_addr s)"

definition HazeServerAddConnection :: "HazeServer \<Rightarrow> nat \<Rightarrow> mem \<Rightarrow> int \<times> HazeServer \<times> mem" where
  "HazeServerAddConnection s c m =
     (if hs_conn_cap s \<le> length (hs_connections s)
      then
        let new_cap = (if hs_conn_cap s = 0 then 8 else hs_conn_cap s * 2);
            (ok, m) = realloc (if hs_conn_alloc s then Some () else None) m
        in if \<not> ok then (- 1, s, m)
           else (0, s\<lparr>hs_conn_alloc := True, hs_conn_cap := new_cap, hs_connections := hs_connections s @ [c]\<rparr>, m)
      else (0, s\<lparr>hs_connections := hs_connections s @ [c]\<rparr>, m))"

text \<open>The loop looks for the first slot with the connection and moves the last one there.\<close>

definition HazeServerRemoveConnection :: "HazeServer \<Rightarrow> nat \<Rightarrow> HazeServer" where
  "HazeServerRemoveConnection s c =
     (case find_index (\<lambda>x. x = c) (hs_connections s) of
        None \<Rightarrow> s
      | Some i \<Rightarrow>
          s\<lparr>hs_connections := take (length (hs_connections s) - 1)
                ((hs_connections s)[i := hs_connections s ! (length (hs_connections s) - 1)])\<rparr>)"

subsection \<open>Callbacks\<close>

definition uv_close :: "nat \<Rightarrow> world \<Rightarrow> world" where
  "uv_close i w = w\<lparr>w_closing := i # w_closing w\<rparr>"

definition uv_is_closing :: "nat \<Rightarrow> world \<Rightarrow> bool" where
  "uv_is_closing i w \<longleftrightarrow> i \<in> set (w_closing w)"

definition haze_on_close :: "nat \<Rightarrow> world \<Rightarrow> mem \<Rightarrow> (world \<times> mem) option" where
  "haze_on_close i w m =
     (case w_conns w i of
        None \<Rightarrow> None
      | Some conn \<Rightarrow>
          let w = w\<lparr>w_server := HazeServerRemoveConnection (w_server w) i\<rparr>;
              m = (if cn_alloc conn then free1 m else m)
          in Some (w\<lparr>w_conns := (w_conns w)(i := None), w_closing := removeAll i (w_closing w)\<rparr>, free1 m))"

definition haze_on_alloc :: "nat \<Rightarrow> mem \<Rightarrow> bool \<times> u32 \<times> mem" where
  "haze_on_alloc suggested m = (let (ok, m) = malloc m in (ok, if ok then to_u32 suggested else 0, m))"

definition haze_on_write_done :: "int \<Rightarrow> nat \<Rightarrow> world \<Rightarrow> mem \<Rightarrow> world \<times> mem" where
  "haze_on_write_done status stream w m =
     (let w = w\<lparr>w_pending := remove1 stream (w_pending w)\<rparr>;
          w = (if status < 0 \<and> \<not> uv_is_closing stream w then uv_close stream w else w)
      in (w, free1 (free1 m)))"

text \<open>The length handed to \<^verbatim>\<open>uv_buf_init\<close> is cast to 32 bits.\<close>

definition haze_send :: "uv \<Rightarrow> nat \<Rightarrow> byte list \<Rightarrow> world \<Rightarrow> mem \<Rightarrow> world \<times> mem" where
  "haze_send u stream data w m =
     (let (ok, m) = malloc m in
      if \<not> ok then (w, m)
      else
        let (ok, m) = malloc m in
        if \<not> ok then (w, free1 m)
        else
          let rc = uv_write_ok u (w_written w);
              w = w\<lparr>w_written := w_written w @ [(stream, take (unat (to_u32 (length data))) data)]\<rparr>
          in if \<not> rc then (w, free1 (free1 m)) else (w\<lparr>w_pending := w_pending w @ [stream]\<rparr>, m))"

text \<open>A slot that points to a released connection makes the send undefined.\<close>

fun broadcast_loop :: "uv \<Rightarrow> nat list \<Rightarrow> byte list \<Rightarrow> world \<Rightarrow> mem \<Rightarrow> (world \<times> mem) option" where
  "broadcast_loop u [] data w m = Some (w, m)"
| "broadcast_loop u (c # cs) data w m =
     (if w_conns w c = None then None
      else let (w, m) = haze_send u c data w m in broadcast_loop u cs data w m)"

definition HazeServerBroadcast :: "uv \<Rightarrow> byte list \<Rightarrow> world \<Rightarrow> mem \<Rightarrow> (world \<times> mem) option" where
  "HazeServerBroadcast u data w m = broadcast_loop u (hs_connections (w_server w)) data w m"

subsection \<open>Reading\<close>

text \<open>\<^verbatim>\<open>while (new_cap < new_len) new_cap *= 2\<close> on \<^verbatim>\<open>size_t\<close>; \<open>None\<close> when it never ends.\<close>

partial_function (option) grow_cap :: "u64 \<Rightarrow> u64 \<Rightarrow> u64 option" where
  "grow_cap new_cap new_len = (if new_cap < new_len then grow_cap (new_cap * 2) new_len else Some new_cap)"

definition send_response :: "uv \<Rightarrow> nat \<Rightarrow> RawBuffer option \<Rightarrow> world \<Rightarrow> mem \<Rightarrow> world \<times> mem" where
  "send_response u i b w m =
     (case b of
        None \<Rightarrow> (w, m)
      | Some rb \<Rightarrow> let (w, m) = haze_send u i (rb_bytes rb) w m in (w, RawBufferFree b m))"

definition send_notification :: "uv \<Rightarrow> RawBuffer option \<Rightarrow> world \<Rightarrow> mem \<Rightarrow> (world \<times> mem) option" where
  "send_notification u b w m =
     (case b of
        None \<Rightarrow> Some (w, m)
      | Some rb \<Rightarrow> (case HazeServerBroadcast u (rb_bytes rb) w m of
            None \<Rightarrow> None
          | Some (w, m) \<Rightarrow> Some (w, RawBufferFree b m)))"

definition set_ctx :: "Context option \<Rightarrow> world \<Rightarrow> world" where
  "set_ctx c w = w\<lparr>w_server := (w_server w)\<lparr>hs_ctx := c\<rparr>\<rparr>"

text \<open>
  The loop over the buffered messages; it returns what is left of the buffer.
\<close>

function read_loop :: "host \<Rightarrow> uv \<Rightarrow> nat \<Rightarrow> byte list \<Rightarrow> world \<Rightarrow> mem \<Rightarrow> (byte list \<times> world \<times> mem) option" where
  "read_loop h u i bs w m =
     (if bs = [] then Some (bs, w, m)
      else (case ServerDispatch h (hs_ctx (w_server w)) i (RawBufferInit (Some bs) (length bs)) m of
          None \<Rightarrow> None
        | Some (db, buffer, ctx, m) \<Rightarrow>
            let w = set_ctx ctx w
            in if \<not> db_ok db then Some (bs, uv_close i w, m)
               else
                 let (w, m) = send_response u i (db_response db) w m
                 in case send_notification u (db_notification db) w m of
                      None \<Rightarrow> None
                    | Some (w, m) \<Rightarrow>
                        let consumed = rb_len buffer
                        in if consumed = 0 \<or> length bs < consumed then Some (bs, uv_close i w, m)
                           else read_loop h u i (drop consumed bs) w m))"
  by pat_completeness auto
termination
  by (relation "measure (\<lambda>(h, u, i, bs, w, m). length bs)") auto

declare read_loop.simps [simp del]

definition put_conn :: "nat \<Rightarrow> HazeConn \<Rightarrow> world \<Rightarrow> world" where
  "put_conn i c w = w\<lparr>w_conns := (w_conns w)(i := Some c)\<rparr>"

text \<open>From the copy of the new bytes on.\<close>

definition haze_on_read_data ::
  "host \<Rightarrow> uv \<Rightarrow> nat \<Rightarrow> HazeConn \<Rightarrow> byte list \<Rightarrow> world \<Rightarrow> mem \<Rightarrow> (world \<times> mem) option" where
  "haze_on_read_data h u i conn data w m =
     (case read_loop h u i (cn_buffer conn @ data) w (free1 m) of
        None \<Rightarrow> None
      | Some (rest, w, m) \<Rightarrow>
          let w = put_conn i (conn\<lparr>cn_buffer := rest\<rparr>) w
          in Some (if 4 * 1024 * 1024 < length rest then uv_close i w else w, m))"

text \<open>
  \<open>base\<close> tells whether \<^verbatim>\<open>haze_on_alloc\<close> got its block; with \<open>nread\<close> positive it did, and \<open>data\<close> are the
  \<open>nread\<close> bytes in it.
\<close>

definition haze_on_read ::
  "host \<Rightarrow> uv \<Rightarrow> nat \<Rightarrow> int \<Rightarrow> bool \<Rightarrow> byte list \<Rightarrow> world \<Rightarrow> mem \<Rightarrow> (world \<times> mem) option" where
  "haze_on_read h u i nread base data w m =
     (case w_conns w i of
        None \<Rightarrow> None
      | Some conn \<Rightarrow>
          if nread < 0 then Some (uv_close i w, if base then free1 m else m)
          else if nread = 0 then Some (w, if base then free1 m else m)
          else
            let new_len = of_nat (length (cn_buffer conn)) + of_int nread
            in if cn_cap conn < new_len
               then (case grow_cap (if cn_cap conn = 0 then 1024 else cn_cap conn) new_len of
                   None \<Rightarrow> None
                 | Some new_cap \<Rightarrow>
                     let (ok, m) = realloc (if cn_alloc conn then Some () else None) m
                     in if \<not> ok then Some (uv_close i w, free1 m)
                        else haze_on_read_data h u i (conn\<lparr>cn_alloc := True, cn_cap := new_cap\<rparr>) data w m)
               else haze_on_read_data h u i conn data w m)"

text \<open>\<open>i\<close> is the address of the new block.\<close>

definition haze_on_connect :: "uv \<Rightarrow> int \<Rightarrow> nat \<Rightarrow> world \<Rightarrow> mem \<Rightarrow> world \<times> mem" where
  "haze_on_connect u status i w m =
     (if status < 0 then (w, m)
      else
        let (ok, m) = malloc m in
        if \<not> ok then (w, m)
        else if \<not> uv_tcp_init_ok u then (w, free1 m)
        else
          let w = put_conn i \<lparr>cn_buffer = [], cn_alloc = False, cn_cap = 0\<rparr> w
          in if \<not> uv_accept_ok u \<or> \<not> uv_read_start_ok u then (uv_close i w, m)
             else let (r, s, m) = HazeServerAddConnection (w_server w) i m in (w\<lparr>w_server := s\<rparr>, m))"

end
