(* ===== verification/Haze_Server_Laws.thy ===== *)
theory Haze_Server_Laws
  imports Haze_Server
begin

text \<open>
  The server as a state machine: the callbacks as steps under the contract of the event loop, the
  invariant of the connection table, and what a read does with the bytes of a connection.
\<close>

subsection \<open>The connection table\<close>

text \<open>
  What the callbacks rely on: a table of handles in which every member stands once, with an insertion
  that may fail and a removal that does not keep the order.
\<close>

locale handle_table =
  fixes members :: "'s \<Rightarrow> 'h list" and valid :: "'s \<Rightarrow> bool"
    and add :: "'h \<Rightarrow> 's \<Rightarrow> bool \<times> 's" and del :: "'h \<Rightarrow> 's \<Rightarrow> 's"
  assumes valid_distinct: "valid s \<Longrightarrow> distinct (members s)"
    and add_valid: "valid s \<Longrightarrow> i \<notin> set (members s) \<Longrightarrow> valid (snd (add i s))"
    and add_members: "valid s \<Longrightarrow> set (members (snd (add i s))) =
          (if fst (add i s) then insert i (set (members s)) else set (members s))"
    and del_valid: "valid s \<Longrightarrow> valid (del i s)"
    and del_members: "valid s \<Longrightarrow> set (members (del i s)) = set (members s) - {i}"
begin

lemma add_within:
  "valid s \<Longrightarrow> set (members s) \<subseteq> A \<Longrightarrow> set (members (snd (add i s))) \<subseteq> insert i A"
  by (auto simp: add_members split: if_splits)

lemma del_within:
  "valid s \<Longrightarrow> set (members s) \<subseteq> A \<Longrightarrow> set (members (del i s)) \<subseteq> A - {i}"
  by (auto simp: del_members)

lemma add_del:
  "valid s \<Longrightarrow> i \<notin> set (members s) \<Longrightarrow> set (members (del i (snd (add i s)))) = set (members s)"
  by (auto simp: add_members add_valid del_members)

lemma del_length: "valid s \<Longrightarrow> i \<in> set (members s) \<Longrightarrow> length (members (del i s)) = length (members s) - 1"
  using del_members [of s i] valid_distinct [of s] valid_distinct [OF del_valid [of s i]]
  by (metis card_Diff_singleton distinct_card)

end

definition table_ok :: "HazeServer \<Rightarrow> bool" where
  "table_ok s \<longleftrightarrow> distinct (hs_connections s) \<and> length (hs_connections s) \<le> hs_conn_cap s
     \<and> (0 < hs_conn_cap s \<longrightarrow> hs_conn_alloc s)"

lemma remove_swap:
  assumes "distinct xs" "i < length xs"
  defines "ys \<equiv> take (length xs - 1) (xs[i := xs ! (length xs - 1)])"
  shows "distinct ys" "set ys = set xs - {xs ! i}"
proof -
  obtain zs z where xs: "xs = zs @ [z]" using assms(2) by (cases xs rule: rev_cases) auto
  have ys: "ys = (if i = length zs then zs else zs[i := z])"
    using assms(2) by (auto simp: ys_def xs nth_append list_update_append)
  show "distinct ys"
    using assms(1) by (simp add: ys xs distinct_list_update)
  show "set ys = set xs - {xs ! i}"
  proof (cases "i = length zs")
    case False
    then have i: "i < length zs" using assms(2) by (simp add: xs)
    have "set (zs[i := z]) = insert z (set zs - {zs ! i})"
      using assms(1) i by (auto simp: xs set_update_distinct)
    with False i assms(1) show ?thesis by (auto simp: ys xs nth_append)
  qed (use assms(1) in \<open>auto simp: ys xs\<close>)
qed

lemma HazeServerRemoveConnection_laws:
  assumes "table_ok s"
  shows "table_ok (HazeServerRemoveConnection s c)"
    "set (hs_connections (HazeServerRemoveConnection s c)) = set (hs_connections s) - {c}"
proof -
  have "table_ok (HazeServerRemoveConnection s c) \<and>
    set (hs_connections (HazeServerRemoveConnection s c)) = set (hs_connections s) - {c}"
  proof (cases "find_index (\<lambda>x. x = c) (hs_connections s)")
    case None
    then have "c \<notin> set (hs_connections s)" by (auto simp: find_index_None)
    with None assms show ?thesis by (simp add: HazeServerRemoveConnection_def)
  next
    case (Some i)
    then have i: "i < length (hs_connections s)" "hs_connections s ! i = c"
      by (simp_all add: find_index_Some)
    let ?ys = "take (length (hs_connections s) - 1)
                ((hs_connections s)[i := hs_connections s ! (length (hs_connections s) - 1)])"
    have eq: "HazeServerRemoveConnection s c = s\<lparr>hs_connections := ?ys\<rparr>"
      using Some by (simp add: HazeServerRemoveConnection_def)
    have "distinct (hs_connections s)" using assms by (simp add: table_ok_def)
    from remove_swap [OF this i(1)] have "distinct ?ys" "set ?ys = set (hs_connections s) - {c}" by (simp_all only: i(2))
    moreover have "length ?ys \<le> length (hs_connections s)" by simp
    ultimately show ?thesis using assms by (simp only: eq table_ok_def HazeServer.select_convs HazeServer.update_convs) (simp, linarith)
  qed
  then show "table_ok (HazeServerRemoveConnection s c)"
    "set (hs_connections (HazeServerRemoveConnection s c)) = set (hs_connections s) - {c}" by simp_all
qed

definition add_conn :: "nat \<Rightarrow> HazeServer \<times> mem \<Rightarrow> bool \<times> HazeServer \<times> mem" where
  "add_conn i st = (case HazeServerAddConnection (fst st) i (snd st) of (r, s, m) \<Rightarrow> (r = 0, s, m))"

lemma add_conn_laws:
  assumes "table_ok s"
  shows "i \<notin> set (hs_connections s) \<Longrightarrow> table_ok (fst (snd (add_conn i (s, m))))"
    "set (hs_connections (fst (snd (add_conn i (s, m))))) =
      (if fst (add_conn i (s, m)) then insert i (set (hs_connections s)) else set (hs_connections s))"
  using assms
  by (auto simp: add_conn_def HazeServerAddConnection_def table_ok_def Let_def split: prod.splits if_splits)

interpretation conn_table: handle_table "\<lambda>st. hs_connections (fst st)" "\<lambda>st. table_ok (fst st)" add_conn
    "\<lambda>i st. (HazeServerRemoveConnection (fst st) i, snd st)"
proof unfold_locales
  show "table_ok (fst st) \<Longrightarrow> distinct (hs_connections (fst st))" for st :: "HazeServer \<times> mem"
    by (simp add: table_ok_def)
qed (use add_conn_laws HazeServerRemoveConnection_laws in \<open>auto simp: split_paired_all\<close>)

subsection \<open>Growing the buffer\<close>

lemma grow_cap_step: "grow_cap c n = (if c < n then grow_cap (c * 2) n else Some c)"
  by (rule grow_cap.simps)

lemma unat_pow2: "k < 64 \<Longrightarrow> unat (2 ^ k :: u64) = 2 ^ k"
proof -
  assume "k < 64"
  then have "(2 :: nat) ^ k < 2 ^ 64" by (rule power_strict_increasing) simp
  then have "unat (of_nat (2 ^ k) :: u64) = 2 ^ k" by (subst unat_of_nat) simp
  then show ?thesis by simp
qed

text \<open>Capacities are powers of two, so doubling reaches every length up to \<open>2\<^sup>6\<^sup>3\<close>.\<close>

lemma grow_cap_reaches:
  assumes "k < 64" "unat n \<le> 2 ^ 63"
  shows "\<exists>j < 64. k \<le> j \<and> grow_cap (2 ^ k) n = Some (2 ^ j) \<and> unat n \<le> 2 ^ j \<and> (k < j \<longrightarrow> 2 ^ j < 2 * unat n)"
  using assms
proof (induction "63 - k" arbitrary: k)
  case 0
  then have "k = 63" by simp
  moreover have "\<not> (2 ^ 63 :: u64) < n"
    using 0 unat_pow2 [of 63] by (simp add: word_less_nat_alt)
  ultimately show ?case using 0 by (intro exI [of _ 63]) (simp add: grow_cap_step)
next
  case (Suc d)
  show ?case
  proof (cases "(2 ^ k :: u64) < n")
    case True
    obtain j where j: "j < 64" "Suc k \<le> j" "grow_cap (2 ^ Suc k) n = Some (2 ^ j)" "unat n \<le> 2 ^ j"
        "Suc k < j \<longrightarrow> 2 ^ j < 2 * unat n"
    proof -
      have "d = 63 - Suc k" "Suc k < 64" using Suc(2) by arith+
      with Suc(1) [of "Suc k"] Suc.prems(2) that show thesis by blast
    qed
    have "2 ^ k < unat n" using True Suc.prems by (simp add: word_less_nat_alt unat_pow2)
    then have "2 ^ j < 2 * unat n" using j(2,5) by (cases "Suc k = j") auto
    moreover have "grow_cap (2 ^ k) n = Some (2 ^ j)"
      using j(3) True by (simp add: grow_cap_step [of "2 ^ k"] mult.commute)
    ultimately show ?thesis using j by (intro exI [of _ j]) simp
  next
    case False
    then show ?thesis
      using Suc.prems by (intro exI [of _ k]) (simp add: grow_cap_step word_less_nat_alt unat_pow2)
  qed
qed

text \<open>Beyond, the capacity wraps to 0 and the loop never ends.\<close>

lemma grow_cap_wraps:
  assumes "grow_cap c n = Some r" "c = 0 \<or> (\<exists>k < 64. c = 2 ^ k)" "2 ^ 63 < unat n"
  shows False
proof -
  have "(c = 0 \<or> (\<exists>k < 64. c = 2 ^ k)) \<longrightarrow> \<not> 2 ^ 63 < unat n"
  proof (rule grow_cap.raw_induct [of "\<lambda>c n r. (c = 0 \<or> (\<exists>k < 64. c = 2 ^ k)) \<longrightarrow> \<not> 2 ^ 63 < unat n", OF _ assms(1)])
    fix g :: "u64 \<Rightarrow> u64 \<Rightarrow> u64 option" and c n r
    assume 1: "\<And>c n r. g c n = Some r \<Longrightarrow> (c = 0 \<or> (\<exists>k < 64. c = 2 ^ k)) \<longrightarrow> \<not> 2 ^ 63 < unat n"
      "(if c < n then g (c * 2) n else Some c) = Some r"
    show "(c = 0 \<or> (\<exists>k < 64. c = 2 ^ k)) \<longrightarrow> \<not> 2 ^ 63 < unat n"
    proof (cases "c < n")
      case True
      have "c * 2 = 0 \<or> (\<exists>k < 64. c * 2 = 2 ^ k)" if "c = 2 ^ k" "k < 64" for k
      proof (cases "k = 63")
        case True
        with that show ?thesis by simp
      next
        case False
        with that show ?thesis by (intro disjI2 exI [of _ "Suc k"]) simp
      qed
      then show ?thesis using 1(1) [of "c * 2" n r] 1(2) True by auto
    next
      case False
      then have "unat n \<le> unat c" by (simp add: word_less_nat_alt)
      moreover have "unat c \<le> 2 ^ 63" if "c = 2 ^ k" "k < 64" for k
        using that unat_pow2 [of k] power_increasing [of k 63 "2 :: nat"] by simp
      ultimately show ?thesis by fastforce
    qed
  qed
  with assms show ?thesis by blast
qed

text \<open>
  C27: The buffer of a connection grows by doubling from 1024 bytes. Up to a length of \<open>2\<^sup>6\<^sup>3\<close> bytes the
  loop ends with a power of two that is large enough and, when it doubled at all, less than twice
  the length; for a longer one the 64-bit capacity wraps to 0 and the loop does not end.
\<close>

theorem grow_cap_bounds:
  assumes "k < 64"
  shows "(unat n \<le> 2 ^ 63 \<longrightarrow> (\<exists>c. grow_cap (2 ^ k) n = Some c \<and> n \<le> c \<and> (c \<noteq> 2 ^ k \<longrightarrow> unat c < 2 * unat n)))
    \<and> (2 ^ 63 < unat n \<longrightarrow> grow_cap (2 ^ k) n = None)"
proof (intro conjI impI)
  assume "unat n \<le> 2 ^ 63"
  from grow_cap_reaches [OF assms this] obtain j where
    j: "j < 64" "k \<le> j" "grow_cap (2 ^ k) n = Some (2 ^ j)" "unat n \<le> 2 ^ j" "k < j \<longrightarrow> 2 ^ j < 2 * unat n"
    by blast
  then show "\<exists>c. grow_cap (2 ^ k) n = Some c \<and> n \<le> c \<and> (c \<noteq> 2 ^ k \<longrightarrow> unat c < 2 * unat n)"
    by (intro exI [of _ "2 ^ j"]) (auto simp: word_le_nat_alt unat_pow2 le_less)
next
  assume "2 ^ 63 < unat n"
  with grow_cap_wraps [of "2 ^ k" n] assms show "grow_cap (2 ^ k) n = None"
    by (cases "grow_cap (2 ^ k) n") auto
qed

theorem grow_cap_bounds_witness:
  "(\<exists>c. grow_cap 1024 5000 = Some c \<and> unat c < 10000) \<and> grow_cap 1024 0x8000000000000001 = None"
  using grow_cap_bounds [of 10 5000] grow_cap_bounds [of 10 "0x8000000000000001"]
  by (auto simp: grow_cap_step [of 1024])

subsection \<open>What a read does\<close>

lemma haze_send_only:
  assumes "haze_send u i d w m = (w', m')"
  shows "w_conns w' = w_conns w \<and> w_server w' = w_server w \<and> w_closing w' = w_closing w
    \<and> set (w_pending w') \<subseteq> insert i (set (w_pending w))"
  using assms by (auto simp: haze_send_def Let_def split: prod.splits if_splits)

lemma send_response_only:
  assumes "send_response u i b w m = (w', m')"
  shows "w_conns w' = w_conns w \<and> w_server w' = w_server w \<and> w_closing w' = w_closing w
    \<and> set (w_pending w') \<subseteq> insert i (set (w_pending w))"
  using assms haze_send_only [of u i] by (auto simp: send_response_def split: prod.splits option.splits)

lemma broadcast_defined:
  assumes "\<forall>c \<in> set cs. w_conns w c \<noteq> None"
  shows "\<exists>w' m'. broadcast_loop u cs d w m = Some (w', m') \<and> w_conns w' = w_conns w"
  using assms
proof (induction cs arbitrary: w m)
  case (Cons c cs)
  obtain w1 m1 where 1: "haze_send u c d w m = (w1, m1)" by fastforce
  with haze_send_only [OF 1] Cons.IH [of w1 m1] Cons.prems show ?case by auto
qed simp

lemma ServerDispatch_safe:
  assumes "ServerDispatch h (Some c) i (RawBufferInit (Some bs) (length bs)) m = Some (db, b', ctx, m')" "ctx_wf c"
  shows "db_notification db = None \<and> (\<exists>c'. ctx = Some c' \<and> ctx_wf c')
    \<and> (db_ok db \<longrightarrow> 0 < rb_len b' \<and> rb_len b' \<le> length bs)"
proof -
  obtain rq rb m1 where 1: "RequestUnmarshal (Some (RawBufferInit (Some bs) (length bs))) m = Some (rq, rb, m1)"
    using assms(1) by (auto simp: ServerDispatch_def split: option.splits)
  note C = RequestUnmarshal_consumes [OF 1]
  show ?thesis
  proof (cases rq)
    case None
    with 1 assms C show ?thesis by (auto simp: ServerDispatch_def)
  next
    case (Some q)
    then obtain dr ctx' m2 where 2: "DispatchRPCMessage h (Some c) i (Some q) m1 = Some (dr, ctx', m2)"
      using 1 assms(1) by (auto simp: ServerDispatch_def split: option.splits)
    have "dr_notification dr = None \<and> (\<exists>c'. ctx' = Some c' \<and> ctx_wf c')"
      using dispatch_is_safe [OF assms(2), of m1 q h i] 2 by (simp add: safe_def)
    with 1 2 Some assms(1) C show ?thesis
      by (auto simp: ServerDispatch_def marshal_notification_def RawBufferInit_def Let_def split: option.splits)
  qed
qed

text \<open>
  Once a request is answered no queued job has a path any more: what an import stored points into the released request.
\<close>

lemma dispatched_payloads_dangle:
  assumes "ServerDispatch h ctx i buffer m = Some (db, b', Some c, m')" "db_ok db"
    and "ctx_requests c = Some q" "jq_jobs q = Some js" "Some j \<in> set js"
  shows "job_payload j \<noteq> In_request path"
proof -
  obtain c0 where "c = request_gone c0"
    using assms(1,2) by (auto simp: ServerDispatch_def Let_def split: option.splits prod.splits)
  moreover have "job_payload (orphan j') \<noteq> In_request path" for j'
    by (simp add: orphan_def split: payload.split)
  ultimately show ?thesis using assms(3-5)
    by (auto simp: request_gone_def queue_orphaned_def map_option_case split: option.splits)
qed

definition ctx_ok :: "world \<Rightarrow> bool" where
  "ctx_ok w \<longleftrightarrow> (\<exists>c. hs_ctx (w_server w) = Some c \<and> ctx_wf c)"

lemma read_loop_outcome:
  assumes "read_loop h u i bs w m = Some (rest, w', m')" "ctx_ok w"
  shows "ctx_ok w' \<and> w_conns w' = w_conns w \<and> (w_server w')\<lparr>hs_ctx := None\<rparr> = (w_server w)\<lparr>hs_ctx := None\<rparr>
    \<and> set (w_pending w') \<subseteq> insert i (set (w_pending w)) \<and> length rest \<le> length bs
    \<and> (if rest = [] then w_closing w' = w_closing w else w_closing w' = i # w_closing w)"
  using assms
proof (induction "length bs" arbitrary: bs w m rule: less_induct)
  case 1: less
  obtain c where c: "hs_ctx (w_server w) = Some c" "ctx_wf c" using 1(3) by (auto simp: ctx_ok_def)
  show ?case
  proof (cases "bs = []")
    case True
    with 1(2,3) show ?thesis by (auto simp: read_loop.simps)
  next
    case ne: False
    then obtain db b' ctx m1 where d: "ServerDispatch h (Some c) i (RawBufferInit (Some bs) (length bs)) m = Some (db, b', ctx, m1)"
      using 1(2) c by (subst (asm) read_loop.simps) (auto split: option.splits)
    note S = ServerDispatch_safe [OF d c(2)]
    have ctx: "ctx_ok (set_ctx ctx w)" using S by (auto simp: ctx_ok_def set_ctx_def)
    show ?thesis
    proof (cases "db_ok db")
      case False
      with 1(2) ne c d ctx show ?thesis
        by (subst (asm) read_loop.simps) (auto simp: uv_close_def set_ctx_def ctx_ok_def)
    next
      case True
      obtain w1 m2 where s: "send_response u i (db_response db) (set_ctx ctx w) m1 = (w1, m2)" by fastforce
      note R = send_response_only [OF s]
      have step: "read_loop h u i bs w m = read_loop h u i (drop (rb_len b') bs) w1 m2"
        using ne c d True s S by (subst read_loop.simps) (auto simp: send_notification_def Let_def)
      have "ctx_ok w1" using R ctx by (simp add: ctx_ok_def)
      moreover have "read_loop h u i (drop (rb_len b') bs) w1 m2 = Some (rest, w', m')" using 1(2) step by simp
      moreover have "length (drop (rb_len b') bs) < length bs" using S True ne by simp
      ultimately show ?thesis using 1(1) [of "drop (rb_len b') bs" w1 m2] R by (auto simp: set_ctx_def)
    qed
  qed
qed

subsection \<open>The invariant\<close>

definition conn_ok :: "HazeConn \<Rightarrow> bool" where
  "conn_ok c \<longleftrightarrow> (cn_cap c = 0 \<or> (\<exists>k. 10 \<le> k \<and> k < 64 \<and> cn_cap c = 2 ^ k)) \<and> (cn_alloc c \<longleftrightarrow> cn_cap c \<noteq> 0)
     \<and> length (cn_buffer c) \<le> unat (cn_cap c)"

definition srv_inv :: "world \<Rightarrow> bool" where
  "srv_inv w \<longleftrightarrow> table_ok (w_server w) \<and> ctx_ok w
     \<and> set (hs_connections (w_server w)) \<subseteq> dom (w_conns w)
     \<and> set (w_closing w) \<subseteq> dom (w_conns w) \<and> set (w_pending w) \<subseteq> dom (w_conns w)
     \<and> (\<forall>i c. w_conns w i = Some c \<longrightarrow> conn_ok c \<and> (i \<notin> set (w_closing w) \<longrightarrow> cn_buffer c = []))"

lemmas srv_invD = srv_inv_def [THEN iffD1]

text \<open>
  A step is what the event loop may do: it reads only from connections it was not asked to close, reports only writes that
  are on their way, and completes a close that was requested once the writes of the handle are reported. A read is the two
  callbacks libuv runs for it: \<^verbatim>\<open>haze_on_alloc\<close> gives the buffer, and \<^verbatim>\<open>haze_on_read\<close> gets that buffer with at most its
  length, or without one an error; libuv also reports the end of a hung-up connection without having asked for a buffer.
  The answers of the loop and of the host are arbitrary.
\<close>

inductive srv_step :: "world \<times> mem \<Rightarrow> world \<times> mem \<Rightarrow> bool" where
  connect: "w_conns w i = None \<Longrightarrow> haze_on_connect u status i w m = st \<Longrightarrow> srv_step (w, m) st"
| read: "w_conns w i \<noteq> None \<Longrightarrow> \<not> uv_is_closing i w \<Longrightarrow> haze_on_alloc suggested m = (base, len, m1) \<Longrightarrow>
    (if base \<and> len \<noteq> 0 then nread \<le> int (unat len) else nread < 0) \<Longrightarrow> (0 < nread \<longrightarrow> nread = int (length data)) \<Longrightarrow>
    haze_on_read h u i nread base data w m1 = Some st \<Longrightarrow> srv_step (w, m) st"
| hang_up: "w_conns w i \<noteq> None \<Longrightarrow> \<not> uv_is_closing i w \<Longrightarrow> nread < 0 \<Longrightarrow>
    haze_on_read h u i nread False [] w m = Some st \<Longrightarrow> srv_step (w, m) st"
| write_done: "i \<in> set (w_pending w) \<Longrightarrow> haze_on_write_done status i w m = st \<Longrightarrow> srv_step (w, m) st"
| close: "uv_is_closing i w \<Longrightarrow> i \<notin> set (w_pending w) \<Longrightarrow> haze_on_close i w m = Some st \<Longrightarrow> srv_step (w, m) st"

inductive_cases srv_stepE: "srv_step (w, m) (w', m')"

lemma connect_inv:
  assumes "srv_inv w" "w_conns w i = None" "haze_on_connect u status i w m = (w', m')"
  shows "srv_inv w'"
proof -
  have i: "i \<notin> set (hs_connections (w_server w))" "i \<notin> set (w_pending w)" "i \<notin> set (w_closing w)"
    using assms(1,2) by (auto simp: srv_inv_def)
  define w1 where "w1 = put_conn i \<lparr>cn_buffer = [], cn_alloc = False, cn_cap = 0\<rparr> w"
  have 1: "srv_inv w1"
    using assms(1) i by (auto simp: w1_def put_conn_def srv_inv_def ctx_ok_def conn_ok_def)
  then have 2: "srv_inv (uv_close i w1)"
    by (auto simp: uv_close_def srv_inv_def ctx_ok_def w1_def put_conn_def)
  have 3: "srv_inv (w1\<lparr>w_server := s\<rparr>)" if "HazeServerAddConnection (w_server w1) i m1 = (r, s, m2)" for r s m1 m2
  proof -
    have "table_ok (w_server w1)" "i \<notin> set (hs_connections (w_server w1))" "i \<in> dom (w_conns w1)"
      using 1 i by (auto simp: srv_inv_def w1_def put_conn_def)
    moreover have "fst (snd (add_conn i (w_server w1, m1))) = s" using that by (simp add: add_conn_def)
    moreover have "hs_ctx s = hs_ctx (w_server w1)"
      using that by (auto simp: HazeServerAddConnection_def Let_def split: if_splits prod.splits)
    ultimately show ?thesis
      using add_conn_laws [of "w_server w1" i m1] 1 by (auto simp: srv_inv_def ctx_ok_def split: if_splits)
  qed
  show ?thesis
    using assms(1,3) 2 3 by (auto simp: haze_on_connect_def Let_def w1_def [symmetric] split: prod.splits if_splits)
qed

lemma close_inv:
  assumes "srv_inv w" "i \<notin> set (w_pending w)" "haze_on_close i w m = Some (w', m')"
  shows "srv_inv w'"
proof -
  have t: "table_ok (w_server w)" using assms(1) by (simp add: srv_inv_def)
  have "hs_ctx (HazeServerRemoveConnection (w_server w) i) = hs_ctx (w_server w)"
    by (simp add: HazeServerRemoveConnection_def split: option.split)
  with assms HazeServerRemoveConnection_laws [OF t, of i] show ?thesis
    by (auto simp: haze_on_close_def srv_inv_def ctx_ok_def Let_def split: option.splits if_splits)
qed

lemma write_done_inv:
  assumes "srv_inv w" "i \<in> set (w_pending w)" "haze_on_write_done status i w m = (w', m')"
  shows "srv_inv w'"
proof -
  have "set (remove1 i (w_pending w)) \<subseteq> dom (w_conns w)"
    using assms(1) set_remove1_subset [of i "w_pending w"] unfolding srv_inv_def by blast
  with assms show ?thesis
    by (auto simp: haze_on_write_done_def srv_inv_def ctx_ok_def uv_close_def Let_def split: if_splits)
qed

text \<open>Processing the bytes of a connection that is not being closed.\<close>

lemma read_data_inv:
  assumes "srv_inv w" "w_conns w i = Some c" "i \<notin> set (w_closing w)" "conn_ok conn" "cn_buffer conn = []"
    "length data \<le> unat (cn_cap conn)" "haze_on_read_data h u i conn data w m = Some (w', m')"
  shows "srv_inv w'"
proof -
  obtain rest w1 where r: "read_loop h u i data w (free1 m) = Some (rest, w1, m')"
      "w' = (if 4 * 1024 * 1024 < length rest then uv_close i (put_conn i (conn\<lparr>cn_buffer := rest\<rparr>) w1)
             else put_conn i (conn\<lparr>cn_buffer := rest\<rparr>) w1)"
    using assms(5,7) by (auto simp: haze_on_read_data_def Let_def split: option.splits)
  have "ctx_ok w" using assms(1) by (simp add: srv_inv_def)
  note R = read_loop_outcome [OF r(1) this]
  have table: "hs_connections (w_server w1) = hs_connections (w_server w)" "table_ok (w_server w1) = table_ok (w_server w)"
    using R by (cases "w_server w1"; cases "w_server w"; simp add: table_ok_def)+
  have "conn_ok (conn\<lparr>cn_buffer := rest\<rparr>)" using assms(4,6) R by (auto simp: conn_ok_def)
  then have "srv_inv (put_conn i (conn\<lparr>cn_buffer := rest\<rparr>) w1)"
    using assms(1,2) R table by (auto simp: srv_inv_def put_conn_def ctx_ok_def split: if_splits)
  with r(2) show ?thesis
    by (auto simp: srv_inv_def uv_close_def ctx_ok_def put_conn_def)
qed

lemma read_inv:
  assumes "srv_inv w" "w_conns w i \<noteq> None" "\<not> uv_is_closing i w" "nread < 2 ^ 63"
    "0 < nread \<longrightarrow> base \<and> nread = int (length data)" "haze_on_read h u i nread base data w m = Some (w', m')"
  shows "srv_inv w'"
proof -
  obtain c where c: "w_conns w i = Some c" "conn_ok c" "cn_buffer c = []" "i \<notin> set (w_closing w)"
    using assms(1-3) by (auto simp: srv_inv_def uv_is_closing_def)
  have cl: "srv_inv (uv_close i w)" using assms(1) c(1) by (auto simp: srv_inv_def uv_close_def ctx_ok_def)
  show ?thesis
  proof (cases "0 < nread")
    case False
    with assms(1,6) c(1) cl show ?thesis by (auto simp: haze_on_read_def split: if_splits)
  next
    case True
    let ?n = "of_int nread :: u64"
    have n: "unat ?n = length data" "unat ?n \<le> 2 ^ 63" "?n \<noteq> 0"
    proof -
      have "length data < 2 ^ 63" using assms(4,5) True by simp
      then show "unat ?n = length data" "unat ?n \<le> 2 ^ 63" using assms(5) True by (simp_all add: unat_of_nat)
      then show "?n \<noteq> 0" using assms(5) True by auto
    qed
    let ?c0 = "if cn_cap c = 0 then 1024 else cn_cap c"
    obtain k where k: "10 \<le> k" "k < 64" "?c0 = 2 ^ k"
    proof (cases "cn_cap c = 0")
      case True
      then show thesis using that [of 10] by simp
    next
      case False
      then show thesis using that c(2) by (auto simp: conn_ok_def)
    qed
    obtain j where j: "j < 64" "k \<le> j" "grow_cap ?c0 ?n = Some (2 ^ j)" "unat ?n \<le> 2 ^ j"
      using grow_cap_reaches [OF k(2) n(2)] unfolding k(3) by blast
    have pos: "(2 ^ j :: u64) \<noteq> 0" using j(1) by auto
    let ?conn = "c\<lparr>cn_alloc := True, cn_cap := 2 ^ j\<rparr>"
    have "\<exists>k. 10 \<le> k \<and> k < 64 \<and> (2 ^ j :: u64) = 2 ^ k" using j(1,2) k(1) by (intro exI [of _ j]) simp
    then have "conn_ok ?conn" using c pos by (simp add: conn_ok_def)
    moreover have "length data \<le> unat (cn_cap ?conn)" using n j unat_pow2 by simp
    moreover have "length data \<le> unat (cn_cap c)" if "\<not> cn_cap c < ?n"
      using that n by (simp add: word_less_nat_alt)
    ultimately show ?thesis
      using assms(6) True c cl j(3) read_data_inv [OF assms(1) c(1,4)]
      by (auto simp: haze_on_read_def Let_def split: if_splits prod.splits option.splits)
  qed
qed

lemma step_inv: "srv_step st st' \<Longrightarrow> srv_inv (fst st) \<Longrightarrow> srv_inv (fst st')"
proof (induction rule: srv_step.induct)
  case (connect w i u status m st)
  then show ?case by (cases st) (auto intro: connect_inv)
next
  case (read w i suggested m base len m1 nread data h u st)
  obtain w' m' where "st = (w', m')" by (cases st) auto
  moreover have "nread < 2 ^ 63 \<and> (0 < nread \<longrightarrow> base)"
    using read(4) uint_lt2p [of len] by (auto split: if_splits)
  ultimately show ?case using read_inv [of w i nread base data h u m1 w' m'] read by simp
next
  case (hang_up w i nread h u m st)
  obtain w' m' where "st = (w', m')" by (cases st) auto
  then show ?case using read_inv [of w i nread False "[]" h u m w' m'] hang_up by simp
next
  case (write_done i w status m st)
  then show ?case by (cases st) (auto intro: write_done_inv)
next
  case (close i w m st)
  obtain w' m' where "st = (w', m')" by (cases st) auto
  then show ?case using close_inv [of w i m w' m'] close by simp
qed

text \<open>A server that has been started and has no connection yet.\<close>

definition started :: "world \<Rightarrow> bool" where
  "started w \<longleftrightarrow> hs_connections (w_server w) = [] \<and> hs_conn_cap (w_server w) = 0 \<and> ctx_ok w
     \<and> w_conns w = (\<lambda>_. None) \<and> w_closing w = [] \<and> w_pending w = []"

lemma reachable_inv:
  assumes "srv_step\<^sup>*\<^sup>* st st'" "started (fst st)"
  shows "srv_inv (fst st')"
  using assms
proof (induction rule: rtranclp_induct)
  case base
  then show ?case by (auto simp: started_def srv_inv_def table_ok_def)
qed (use step_inv in blast)

text \<open>
  C8: Whatever clients connect, send and disconnect, in any order, whatever the allocator, the audio
  library and the event loop answer: every slot of the connection table points to a connection that
  exists, no connection stands in it twice, so a broadcast never touches released memory; every
  buffer has a power of two of at least 1024 bytes or none, and its contents fit; and no bytes are
  ever kept in the buffer of a connection that is not being closed.
\<close>

theorem server_table_sound:
  assumes "srv_step\<^sup>*\<^sup>* (w0, m0) (w, m)" "started w0"
  shows "distinct (hs_connections (w_server w)) \<and> (\<forall>i \<in> set (hs_connections (w_server w)). w_conns w i \<noteq> None)
    \<and> HazeServerBroadcast u d w m \<noteq> None
    \<and> (\<forall>i c. w_conns w i = Some c \<longrightarrow> conn_ok c \<and> (uv_is_closing i w \<or> cn_buffer c = []))"
proof -
  have I: "srv_inv w" using reachable_inv [OF assms(1)] assms(2) by simp
  then have "\<forall>i \<in> set (hs_connections (w_server w)). w_conns w i \<noteq> None" by (auto simp: srv_inv_def)
  moreover from this have "HazeServerBroadcast u d w m \<noteq> None"
    using broadcast_defined [of _ w u d m] by (fastforce simp: HazeServerBroadcast_def)
  ultimately show ?thesis using I by (auto simp: srv_inv_def table_ok_def uv_is_closing_def)
qed

definition fresh_world :: world where
  "fresh_world = \<lparr>w_server = \<lparr>hs_addr = Some (cstr ''127.0.0.1''), hs_port = 7192, hs_loop = True, hs_ctx = Some demo_ctx,
       hs_connections = [], hs_conn_alloc = False, hs_conn_cap = 0\<rparr>,
     w_conns = (\<lambda>_. None), w_closing = [], w_pending = [], w_written = []\<rparr>"

definition willing_uv :: uv where
  "willing_uv = \<lparr>uv_write_ok = (\<lambda>_. True), uv_tcp_init_ok = True, uv_accept_ok = True, uv_read_start_ok = True\<rparr>"

lemma fresh_started: "started fresh_world"
  using demo_ctx_wf by (simp add: started_def fresh_world_def ctx_ok_def)

text \<open>The same with one connected client.\<close>

definition one_client :: world where
  "one_client = fst (haze_on_connect willing_uv 0 5 fresh_world \<lparr>outcomes = [], live = 0\<rparr>)"

lemma one_client_ok:
  "srv_inv one_client" "w_conns one_client 5 = Some \<lparr>cn_buffer = [], cn_alloc = False, cn_cap = 0\<rparr>"
  "\<not> uv_is_closing 5 one_client"
proof -
  have "srv_inv fresh_world"
    using reachable_inv [OF rtranclp.rtrancl_refl, of "(fresh_world, \<lparr>outcomes = [], live = 0\<rparr>)"] fresh_started by simp
  moreover have "w_conns fresh_world 5 = None" by (simp add: fresh_world_def)
  ultimately show "srv_inv one_client"
    unfolding one_client_def by (rule connect_inv [OF _ _ prod.collapse [symmetric]])
qed (auto simp: one_client_def haze_on_connect_def malloc_def willing_uv_def put_conn_def uv_is_closing_def fresh_world_def
    split: prod.splits)

theorem server_table_sound_witness:
  "distinct (hs_connections (w_server (fst (haze_on_connect willing_uv 0 5 fresh_world \<lparr>outcomes = [], live = 0\<rparr>))))"
proof -
  have "srv_step (fresh_world, \<lparr>outcomes = [], live = 0\<rparr>) (haze_on_connect willing_uv 0 5 fresh_world \<lparr>outcomes = [], live = 0\<rparr>)"
    by (rule srv_step.connect [of _ 5 willing_uv 0]) (simp_all add: fresh_world_def)
  then show ?thesis
    using server_table_sound [OF r_into_rtranclp fresh_started] by (metis prod.collapse)
qed

text \<open>
  The 4 MB limit of a connection limits nothing: when a read ends, either every buffered byte was
  consumed and the connection stays open, or the close of the connection has been requested
  already, and a rest above 4 MB only makes the callback request it a second time.
\<close>

theorem read_limit_closes_twice:
  assumes "srv_inv w" "w_conns w i = Some c" "\<not> uv_is_closing i w" "nofail m" "0 < length data" "length data < 2 ^ 63"
    and "haze_on_read h u i (int (length data)) True data w m = Some (w', m')"
  shows "\<exists>c'. w_conns w' i = Some c' \<and> length (cn_buffer c') \<le> length data
    \<and> count_list (w_closing w') i =
        (if cn_buffer c' = [] then 0 else if length (cn_buffer c') \<le> 4 * 1024 * 1024 then 1 else 2)"
proof -
  have c: "conn_ok c" "cn_buffer c = []" "i \<notin> set (w_closing w)" "ctx_ok w"
    using assms(1-3) by (auto simp: srv_inv_def uv_is_closing_def)
  have K: ?thesis if d: "haze_on_read_data h u i conn data w m1 = Some (w', m')" "cn_buffer conn = []" for conn m1
  proof -
    obtain rest w1 where r: "read_loop h u i data w (free1 m1) = Some (rest, w1, m')"
      "w' = (if 4 * 1024 * 1024 < length rest then uv_close i (put_conn i (conn\<lparr>cn_buffer := rest\<rparr>) w1)
             else put_conn i (conn\<lparr>cn_buffer := rest\<rparr>) w1)"
      using d by (auto simp: haze_on_read_data_def Let_def split: option.splits)
    have "count_list (w_closing w) i = 0" using c(3) by (simp add: count_list_0_iff)
    with read_loop_outcome [OF r(1) c(4)] r(2) show ?thesis
      by (auto simp: put_conn_def uv_close_def split: if_splits)
  qed
  have "\<exists>conn m1. haze_on_read_data h u i conn data w m1 = Some (w', m') \<and> cn_buffer conn = []"
    using assms(2,4,5,7) c(2)
    by (fastforce simp: haze_on_read_def realloc_nofail Let_def split: if_splits option.splits)
  with K show ?thesis by blast
qed

text \<open>With memory, a read of \<open>0 < n < 2\<^sup>6\<^sup>3\<close> bytes on an open connection gets to the copy of the bytes.\<close>

lemma haze_on_read_enters:
  assumes "w_conns w i = Some c" "conn_ok c" "cn_buffer c = []" "nofail m" "0 < length data" "length data < 2 ^ 63"
  shows "\<exists>conn m1. haze_on_read h u i (int (length data)) True data w m = haze_on_read_data h u i conn data w m1
    \<and> cn_buffer conn = [] \<and> nofail m1 \<and> live m1 - of_bool (cn_alloc conn) = live m - of_bool (cn_alloc c)"
proof -
  have n: "unat (of_nat (length data) :: u64) \<le> 2 ^ 63" using assms(6) by (simp add: unat_of_nat)
  let ?c0 = "if cn_cap c = 0 then 1024 else cn_cap c"
  have "\<exists>k < 64. ?c0 = 2 ^ k" using assms(2) by (auto simp: conn_ok_def intro: exI [of _ 10])
  then obtain k where k: "k < 64" "?c0 = 2 ^ k" by blast
  obtain j where j: "grow_cap ?c0 (of_nat (length data)) = Some (2 ^ j)"
    using grow_cap_reaches [OF k(1) n] unfolding k(2) by blast
  show ?thesis
  proof (cases "cn_cap c < of_nat (length data)")
    case True
    with assms j show ?thesis
      by (intro exI [of _ "c\<lparr>cn_alloc := True, cn_cap := 2 ^ j\<rparr>"] exI [of _ "snd (realloc (if cn_alloc c then Some () else None) m)"])
        (auto simp: haze_on_read_def realloc_nofail Let_def)
  next
    case False
    with assms show ?thesis by (intro exI [of _ c] exI [of _ m]) (simp add: haze_on_read_def)
  qed
qed

text \<open>A read of bytes that are not a request.\<close>

lemma read_rejected:
  assumes "srv_inv w" "w_conns w i = Some c" "\<not> uv_is_closing i w" "nofail m" "0 < length data" "length data < 2 ^ 63"
    and "\<And>m b. \<exists>m'. RequestUnmarshal_from b data m = Some (None, b, m')"
  shows "\<exists>w' m'. haze_on_read h u i (int (length data)) True data w m = Some (w', m')
    \<and> w_written w' = w_written w \<and> uv_is_closing i w' \<and> map_option cn_buffer (w_conns w' i) = Some data"
proof -
  have c: "conn_ok c" "cn_buffer c = []" "ctx_ok w"
    using assms(1-3) by (auto simp: srv_inv_def uv_is_closing_def)
  have loop: "\<exists>m'. read_loop h u i data w m = Some (data, uv_close i w, m')" for m
  proof -
    obtain m' where "RequestUnmarshal_from (RawBufferInit (Some data) (length data)) data m
        = Some (None, RawBufferInit (Some data) (length data), m')" using assms(7) by blast
    with assms(5) c(3) show ?thesis
      by (subst read_loop.simps) (auto simp: ServerDispatch_def RequestUnmarshal_def RawBufferLen_def RawBufferData_def
          RawBufferInit_def set_ctx_def ctx_ok_def)
  qed
  have K: "\<exists>w' m'. haze_on_read_data h u i conn data w m = Some (w', m') \<and> w_written w' = w_written w
      \<and> uv_is_closing i w' \<and> map_option cn_buffer (w_conns w' i) = Some data" if b: "cn_buffer conn = []" for conn m
    using loop [of "free1 m"] b by (auto simp: haze_on_read_data_def Let_def uv_close_def uv_is_closing_def put_conn_def)
  show ?thesis
    using haze_on_read_enters [OF assms(2) c(1,2) assms(4-6), of h u] K by fastforce
qed

theorem read_limit_closes_twice_witness:
  "\<exists>w m w' m'. haze_on_read plain_host willing_uv 5 5000000 True (0xc0 # replicate 4999999 0) w m = Some (w', m')
     \<and> count_list (w_closing w') 5 = 2"
proof -
  note I = one_client_ok(1) and c = one_client_ok(2,3)
  let ?m = "\<lparr>outcomes = [], live = 0\<rparr>" and ?d = "0xc0 # replicate 4999999 0 :: byte list"
  have "\<exists>m'. RequestUnmarshal_from b ?d m = Some (None, b, m')" for b m
    using read_tag_simple(1) [of "replicate 4999999 0"]
    by (simp add: RequestUnmarshal_from_def mpack_reader_init_data_def request_fail_def RequestFree_def)
  from read_rejected [OF I c _ _ _ this, of ?m plain_host willing_uv] obtain w' m' where
    r: "haze_on_read plain_host willing_uv 5 (int (length ?d)) True ?d one_client ?m = Some (w', m')"
      "map_option cn_buffer (w_conns w' 5) = Some ?d"
    by (auto simp: nofail_def)
  have "count_list (w_closing w') 5 = 2"
    using read_limit_closes_twice [OF I c _ _ _ r(1)] r(2) by (auto simp: nofail_def)
  with r(1) show ?thesis by auto
qed

text \<open>
  C39: There is no reassembly: when the bytes of a request arrive in two reads and the first one brings
  only the first byte, the client is disconnected and nothing is sent to it.
\<close>

theorem split_request_disconnects:
  assumes "srv_inv w" "w_conns w i = Some c" "\<not> uv_is_closing i w" "nofail m"
  shows "\<exists>w' m'. haze_on_read h u i 1 True [0x94] w m = Some (w', m') \<and> uv_is_closing i w' \<and> w_written w' = w_written w"
proof -
  have "\<exists>m'. RequestUnmarshal_from b [0x94] m = Some (None, b, m')" for b m
    using read_tag_arr_head [of 4 "[]"] read_tag_end
    by (auto simp: RequestUnmarshal_from_def mpack_reader_init_data_def enc_arr_head_def request_fail_def header_int_def
        split: prod.split)
  from read_rejected [OF assms _ _ this, of h u] show ?thesis by auto
qed

theorem split_request_disconnects_witness:
  "\<exists>w m w' m'. haze_on_read plain_host willing_uv 5 1 True [0x94] w m = Some (w', m') \<and> uv_is_closing 5 w'"
  using split_request_disconnects [OF one_client_ok, of "\<lparr>outcomes = [], live = 0\<rparr>" plain_host willing_uv]
  by (auto simp: nofail_def)

end
