(* ===== verification/Haze_Stream.thy ===== *)
theory Haze_Stream
  imports Haze_Server_Laws
begin

text \<open>
  The whole path of a read: the bytes of a connection, decoding, dispatch, encoding and sending, against the abstract
  service. The bytes are arbitrary; the requests in them are those the decoder reads (\<open>read_requests\<close>).
\<close>

subsection \<open>Replies on the wire\<close>

definition wire_reply :: "u32 \<Rightarrow> reply \<Rightarrow> byte list option" where
  "wire_reply i r = (case r of Queued _ \<Rightarrow> None | Reply e x \<Rightarrow> Some (enc (MArr [MInt 1, MInt (uint i), e, x])))"

text \<open>
  What the service makes of one request and of a sequence of them, and the state it ends in: the request is gone once it
  is served, and a job it queued has lost its payload.
\<close>

definition view_orphaned :: "view \<Rightarrow> view" where
  "view_orphaned v = v\<lparr>v_jobs := map_option queue_orphaned (v_jobs v)\<rparr>"

definition serve1 :: "host \<Rightarrow> (JobQueue option \<Rightarrow> Job \<Rightarrow> JobQueue option) \<Rightarrow> nat \<Rightarrow> view \<Rightarrow> request \<Rightarrow> reply \<times> view" where
  "serve1 h enq conn v rq =
     (case rq of (i, meth, ps) \<Rightarrow>
        let (r, v') = service h enq v conn i (Some (until_nul meth)) (map mval_recv ps) in (r, view_orphaned v'))"

fun serve :: "host \<Rightarrow> (JobQueue option \<Rightarrow> Job \<Rightarrow> JobQueue option) \<Rightarrow> nat \<Rightarrow> view \<Rightarrow> request list \<Rightarrow> byte list list \<times> view" where
  "serve h enq conn v [] = ([], v)"
| "serve h enq conn v (rq # rqs) =
     (let (r, v') = serve1 h enq conn v rq;
          (out, v'') = serve h enq conn v' rqs
      in ((case wire_reply (fst rq) r of None \<Rightarrow> out | Some b \<Rightarrow> b # out), v''))"

text \<open>The blocks the requests hand to the job queue: each job, and what its push takes.\<close>

definition queued1 :: "host \<Rightarrow> view \<Rightarrow> reply \<Rightarrow> int" where
  "queued1 h v r = (case r of Queued job \<Rightarrow> 1 + push_blocks h (v_jobs v) job | Reply _ _ \<Rightarrow> 0)"

fun queued :: "host \<Rightarrow> (JobQueue option \<Rightarrow> Job \<Rightarrow> JobQueue option) \<Rightarrow> nat \<Rightarrow> view \<Rightarrow> request list \<Rightarrow> int" where
  "queued h enq conn v [] = 0"
| "queued h enq conn v (rq # rqs) =
     (let (r, v') = serve1 h enq conn v rq in queued1 h v r + queued h enq conn v' rqs)"

lemma view_orphaned_simps [simp]:
  "v_name (view_orphaned v) = v_name v" "v_created (view_orphaned v) = v_created v" "v_samples (view_orphaned v) = v_samples v"
  by (simp_all add: view_orphaned_def)

lemma ctx_view_request_gone: "ctx_view (request_gone c) = view_orphaned (ctx_view c)"
  by (simp add: ctx_view_def request_gone_def view_orphaned_def split: option.split)

lemma v_jobs_ctx_view: "v_jobs (ctx_view c) = ctx_requests c"
  by (simp add: ctx_view_def split: option.split)

subsection \<open>Replies are small\<close>

fun small :: "mval \<Rightarrow> bool" where
  "small (MStr s) = (length s < 2 ^ 30)"
| "small (MInt i) = (- (2 ^ 63) \<le> i \<and> i < 2 ^ 63)"
| "small MNil = True"
| "small _ = False"

text \<open>A step that keeps the name of the session and answers with small values.\<close>

definition modest :: "view \<Rightarrow> reply \<times> view \<Rightarrow> bool" where
  "modest v rv \<longleftrightarrow> v_name (snd rv) = v_name v \<and> (case fst rv of Queued _ \<Rightarrow> True | Reply e x \<Rightarrow> small e \<and> small x)"

lemma modest_fails: "v_name v' = v_name v \<Longrightarrow> length msg < 2 ^ 30 \<Longrightarrow> modest v (fails v' msg)"
  by (simp add: modest_def fails_def)

lemma modest_yields: "v_name v' = v_name v \<Longrightarrow> small x \<Longrightarrow> modest v (yields v' x)"
  by (simp add: modest_def yields_def)

lemma modest_str_param: "(\<And>s. modest v (k s)) \<Longrightarrow> modest v (str_param v ps k)"
  by (auto simp: str_param_def modest_fails cstr_def split: list.split mval.split)

lemma modest_no_params: "length msg < 2 ^ 30 \<Longrightarrow> modest v r \<Longrightarrow> modest v (no_params v ps msg r)"
  by (auto simp: no_params_def modest_fails cstr_def)

lemma modest_if: "(P \<Longrightarrow> modest v x) \<Longrightarrow> (\<not> P \<Longrightarrow> modest v y) \<Longrightarrow> modest v (if P then x else y)"
  by simp

lemma modest_remove: "modest v (spec_remove v nm)"
  by (auto simp: spec_remove_def cstr_def intro!: modest_fails modest_yields)

lemma modest_play: "modest v (spec_play ma v nm)"
  by (auto simp: spec_play_def cstr_def Let_def intro!: modest_fails modest_yields split: option.split)

lemma modest_import: "modest v (spec_import enq v conn i s)"
  by (simp add: modest_def spec_import_def Let_def)

lemma small_sint: "small (MInt (sint (x :: u64)))"
  using sint_ge [of x] sint_lt [of x] by simp

lemma service_modest:
  assumes "length (v_name v) < 2 ^ 30"
  shows "modest v (service h enq v conn i (Some meth) ps)"
  unfolding service_chain
  by (intro modest_if modest_no_params modest_str_param modest_remove modest_play modest_import modest_yields modest_fails
      small_sint refl) (use assms in \<open>simp_all add: cstr_def\<close>)

lemma serve1_modest: "length (v_name v) < 2 ^ 30 \<Longrightarrow> modest v (serve1 h enq conn v rq)"
proof -
  assume n: "length (v_name v) < 2 ^ 30"
  obtain i meth ps where q: "rq = (i, meth, ps)" by (cases rq)
  obtain r v' where s: "service h enq v conn i (Some (until_nul meth)) (map mval_recv ps) = (r, v')" by fastforce
  from service_modest [OF n, of h enq conn i "until_nul meth" "map mval_recv ps"] show ?thesis
    by (simp add: modest_def serve1_def q s)
qed

lemma small_ok: "small v \<Longrightarrow> mval_ok v"
  by (cases v) auto

lemma small_length: "small v \<Longrightarrow> length (enc v) < 2 ^ 30 + 32"
proof (cases v)
  case (MInt i)
  then show ?thesis using length_enc_int [of i] by simp
next
  case (MStr s)
  then show "small v \<Longrightarrow> ?thesis" using length_enc_str_head [of "length s"] by simp
qed simp_all

lemma length_reply: "small e \<Longrightarrow> small x \<Longrightarrow> length (enc (MArr [MInt 1, MInt (uint (i :: u32)), e, x])) < 2 ^ 32"
  using small_length [of e] small_length [of x] length_enc_int [of 1] length_enc_int [of "uint i"]
  by (simp add: enc_arr_head_def)

subsection \<open>One request\<close>

lemma nofail_RequestFree [simp]: "nofail (RequestFree q m) = nofail m"
  by (simp add: RequestFree_def free_add split: option.split)

lemma nofail_ResponseFree [simp]: "nofail (snd (ResponseFree r m)) = nofail m"
  by (simp add: ResponseFree_def free_add split: option.split)

text \<open>What releasing a response takes away does not depend on the memory it is released in.\<close>

lemma live_ResponseFree: "live (snd (ResponseFree r (mem_add k m))) = live (snd (ResponseFree r m)) + k"
  by (simp add: ResponseFree_def free_add split: option.split)

text \<open>The response that goes with a reply of the service.\<close>

definition response_for :: "u32 \<Rightarrow> reply \<Rightarrow> Response option \<Rightarrow> bool" where
  "response_for i r rsp \<longleftrightarrow>
     (case r of
        Queued _ \<Rightarrow> rsp = None
      | Reply e x \<Rightarrow> (\<exists>s. rsp = Some s \<and> rsp_wf s \<and> rsp_msgid s = i \<and> rsp_type s = HAZE_RPC_RESPONSE
          \<and> obj_abs (rsp_error s) = e \<and> obj_abs (rsp_result s) = x))"

lemma marshal_response_reply:
  assumes "nofail m" "response_for i r rsp" "case r of Queued _ \<Rightarrow> True | Reply e x \<Rightarrow> small e \<and> small x"
  shows "\<exists>m'. marshal_response rsp m =
      Some (map_option (\<lambda>bs. \<lparr>rb_data = Some bs, rb_len = length bs\<rparr>) (wire_reply i r), m') \<and> nofail m'
    \<and> live m' = live (snd (ResponseFree rsp m)) + (case r of Queued _ \<Rightarrow> 0 | Reply _ _ \<Rightarrow> 2)"
proof (cases r)
  case (Queued j)
  then show ?thesis using assms(1,2) by (simp add: marshal_response_def wire_reply_def response_for_def ResponseFree_def)
next
  case (Reply e x)
  then obtain s where S: "rsp = Some s" "rsp_wf s" "rsp_msgid s = i" "rsp_type s = HAZE_RPC_RESPONSE"
      "obj_abs (rsp_error s) = e" "obj_abs (rsp_result s) = x"
    using assms(2) by (auto simp: response_for_def)
  have sm: "small e" "small x" using assms(3) Reply by simp_all
  have abs: "rsp_abs s = MArr [MInt 1, MInt (uint i), e, x]"
    using S by (simp add: rsp_abs_def HAZE_RPC_RESPONSE_def)
  have "length (enc (rsp_abs s)) \<le> 2 ^ 62" using length_reply [OF sm, of i] by (simp add: abs)
  then have "ResponseMarshal (Some s) m = Some (Some \<lparr>rb_data = Some (enc (rsp_abs s)), rb_len = length (enc (rsp_abs s))\<rparr>, mem_add 2 m)"
    using ResponseMarshal_cases [of s m] S sm small_ok assms(1) by auto
  then show ?thesis
    using S(1) Reply assms(1) by (simp add: marshal_response_def wire_reply_def abs live_ResponseFree del: enc.simps)
qed

lemma ServerDispatch_request:
  assumes c: "ctx_wf c" "length (v_name (ctx_view c)) < 2 ^ 30" and m: "nofail m"
    and rq: "read_request bs = Some (rq, rest)"
    and h: "pushes h enq" and sv: "serve1 h enq conn (ctx_view c) rq = (r, v')"
  shows "\<exists>c' m'. ServerDispatch h (Some c) conn (RawBufferInit (Some bs) (length bs)) m
      = Some (\<lparr>db_ok = True, db_response = map_option (\<lambda>bs. \<lparr>rb_data = Some bs, rb_len = length bs\<rparr>) (wire_reply (fst rq) r),
               db_notification = None\<rparr>, \<lparr>rb_data = Some bs, rb_len = length bs - length rest\<rparr>, Some c', m')
    \<and> ctx_wf c' \<and> nofail m' \<and> ctx_view c' = v' \<and> v_name v' = v_name (ctx_view c)
    \<and> (\<forall>b. wire_reply (fst rq) r = Some b \<longrightarrow> length b < 2 ^ 32)
    \<and> live m' - ctx_blocks c' = live m - ctx_blocks c + request_leak rq + queued1 h (ctx_view c) r
        + 2 * of_bool (wire_reply (fst rq) r \<noteq> None)"
proof -
  obtain i meth vs where q: "rq = (i, meth, vs)" by (cases rq)
  obtain ps m1 where u: "RequestUnmarshal (Some \<lparr>rb_data = Some bs, rb_len = length bs\<rparr>) m
       = Some (Some (decoded_request rq ps), Some \<lparr>rb_data = Some bs, rb_len = length bs - length rest\<rparr>, m1)"
     "arr_wf (Some ps)" "nofail m1" "list_all str_there (arr_objects ps)" "length (arr_objects ps) < 2 ^ 32"
     "map obj_abs (arr_objects ps) = map mval_recv vs"
     "live (RequestFree (Some (decoded_request rq ps)) m1) = live m + request_leak rq"
    using RequestUnmarshal_read [OF rq m, of "[]"] by (auto simp: q)
  let ?q = "decoded_request rq ps"
  have P: "params_wf ?q" "map obj_abs (params_of ?q) = map mval_recv vs" "req_msgid ?q = i" "req_method ?q = Some (until_nul meth)"
    using u(2,4-6) by (cases ps; auto simp: params_wf_def params_of_def decoded_request_def q list_all_iff)+
  obtain v1 where s: "service h enq (ctx_view c) conn i (Some (until_nul meth)) (map mval_recv vs) = (r, v1)" "v' = view_orphaned v1"
    using sv by (auto simp: serve1_def q split: prod.splits)
  have "answers h c i m1 (r, v1) (DispatchRPCMessage h (Some c) conn (Some ?q) m1)"
    using dispatch_answers [OF u(3) c(1) P(1) h, of conn] s(1) P by simp
  then obtain rsp c' m2 where d: "DispatchRPCMessage h (Some c) conn (Some ?q) m1
        = Some (\<lparr>dr_response = rsp, dr_notification = None\<rparr>, Some c', m2)" "ctx_wf c'" "nofail m2"
      "v1 = ctx_view c'" "response_for i r rsp"
      "live (snd (ResponseFree rsp m2)) - ctx_blocks c' = live m1 - ctx_blocks c + queued1 h (ctx_view c) r"
    by (cases r) (auto simp: answers_def response_for_def queued1_def ResponseFree_def v_jobs_ctx_view)
  have M: "modest (ctx_view c) (r, v')" using serve1_modest [OF c(2), of h enq conn rq] sv by simp
  then have sm: "case r of Queued _ \<Rightarrow> True | Reply e x \<Rightarrow> small e \<and> small x" by (simp add: modest_def)
  have n: "nofail (RequestFree (Some ?q) m2)" using d(3) by simp
  obtain m3 where r: "marshal_response rsp (RequestFree (Some ?q) m2)
      = Some (map_option (\<lambda>bs. \<lparr>rb_data = Some bs, rb_len = length bs\<rparr>) (wire_reply i r), m3)" "nofail m3"
      "live m3 = live (snd (ResponseFree rsp (RequestFree (Some ?q) m2))) + (case r of Queued _ \<Rightarrow> 0 | Reply _ _ \<Rightarrow> 2)"
    using marshal_response_reply [OF n d(5) sm] by blast
  have rf: "RequestFree (Some ?q) m2 = mem_add (- (1 + arr_freed (Some ps) + 1)) m2" for m2
    by (simp add: RequestFree_def free_add free_opt_add free1_def decoded_request_def q)
  have "live m3 - ctx_blocks c' = live m - ctx_blocks c + request_leak rq + queued1 h (ctx_view c) r
      + (case r of Queued _ \<Rightarrow> 0 | Reply _ _ \<Rightarrow> 2)"
    using r(3) d(6) u(7) by (simp add: rf live_ResponseFree)
  then have mem: "live m3 - ctx_blocks c' = live m - ctx_blocks c + request_leak rq + queued1 h (ctx_view c) r
      + 2 * of_bool (wire_reply i r \<noteq> None)"
    by (simp add: wire_reply_def split: reply.splits)
  have "ServerDispatch h (Some c) conn (RawBufferInit (Some bs) (length bs)) m
      = Some (\<lparr>db_ok = True, db_response = map_option (\<lambda>bs. \<lparr>rb_data = Some bs, rb_len = length bs\<rparr>) (wire_reply i r),
               db_notification = None\<rparr>, \<lparr>rb_data = Some bs, rb_len = length bs - length rest\<rparr>, Some (request_gone c'), m3)"
    using u(1) d(1) r(1) by (simp add: ServerDispatch_def RawBufferInit_def marshal_notification_def)
  moreover have "\<forall>b. wire_reply i r = Some b \<longrightarrow> length b < 2 ^ 32"
    using sm length_reply by (auto simp: wire_reply_def split: reply.splits simp del: enc.simps)
  ultimately show ?thesis using d r(2) M mem s(2) by (auto simp: q modest_def ctx_view_request_gone)
qed

subsection \<open>The bytes of a read\<close>

definition uv_writes :: "uv \<Rightarrow> bool" where
  "uv_writes u \<longleftrightarrow> (\<forall>ws. uv_write_ok u ws)"

lemma send_response_writes:
  assumes "nofail m" "uv_writes u" "\<forall>b. out = Some b \<longrightarrow> length b < 2 ^ 32"
  shows "\<exists>w' m'. send_response u i (map_option (\<lambda>bs. \<lparr>rb_data = Some bs, rb_len = length bs\<rparr>) out) w m = (w', m') \<and> nofail m'
    \<and> w_written w' = w_written w @ (case out of None \<Rightarrow> [] | Some b \<Rightarrow> [(i, b)])
    \<and> w_conns w' = w_conns w \<and> w_server w' = w_server w \<and> w_closing w' = w_closing w
    \<and> w_pending w' = w_pending w @ (case out of None \<Rightarrow> [] | Some _ \<Rightarrow> [i]) \<and> live m' = live m"
  using assms
  by (cases out) (auto simp: send_response_def haze_send_def malloc_nofail uv_writes_def rb_bytes_def RawBufferFree_def free_opt_live)

text \<open>
  What is left when the decoder reads no further request: nothing, or bytes it refuses. The connection is closed then, and
  the bytes stay in its buffer.
\<close>

definition hung_up :: "byte list \<Rightarrow> nat \<Rightarrow> nat list \<Rightarrow> nat list" where
  "hung_up bs i is = (if bs = [] then is else i # is)"

lemma read_loop_refused:
  assumes "read_request g = None" "nofail m" "hs_ctx (w_server w) = Some c"
  shows "\<exists>w' m'. read_loop h u i g w m = Some (g, w', m') \<and> w' = w\<lparr>w_closing := hung_up g i (w_closing w)\<rparr>
    \<and> nofail m' \<and> live m' = live m"
proof (cases "g = []")
  case False
  obtain m' where
    1: "RequestUnmarshal (Some (RawBufferInit (Some g) (length g))) m = Some (None, Some (RawBufferInit (Some g) (length g)), m')"
       "nofail m'" "live m' = live m"
    using RequestUnmarshal_refused [OF assms(1,2)] by blast
  have "set_ctx (Some c) w = w" using assms(3) by (cases w; cases "w_server w") (simp add: set_ctx_def)
  with 1 False assms(3) show ?thesis
    by (subst read_loop.simps) (auto simp: ServerDispatch_def uv_close_def hung_up_def)
qed (simp add: read_loop.simps hung_up_def assms)

lemma read_loop_stream:
  assumes "read_requests bs = (rqs, g)" "pushes h enq" "uv_writes u"
    and "nofail m" "hs_ctx (w_server w) = Some c" "ctx_wf c" "length (v_name (ctx_view c)) < 2 ^ 30"
    and "serve h enq i (ctx_view c) rqs = (out, v')"
  shows "\<exists>w' m' c'. read_loop h u i bs w m = Some (g, w', m')
    \<and> w_written w' = w_written w @ map (Pair i) out \<and> w_conns w' = w_conns w \<and> w_closing w' = hung_up g i (w_closing w)
    \<and> hs_ctx (w_server w') = Some c' \<and> ctx_view c' = v'
    \<and> nofail m' \<and> v_name v' = v_name (ctx_view c) \<and> w_pending w' = w_pending w @ replicate (length out) i
    \<and> live m' - ctx_blocks c' = live m - ctx_blocks c + sum_list (map request_leak rqs) + queued h enq i (ctx_view c) rqs
        + 2 * int (length out)"
  using assms
proof (induction rqs arbitrary: bs m w c out)
  case Nil
  have "read_request bs = None" "g = bs"
    using Nil.prems(1) by (subst (asm) read_requests.simps, auto split: option.splits prod.splits)+
  then show ?case using read_loop_refused [OF _ Nil.prems(4,5), of g h u i] Nil.prems by auto
next
  case (Cons rq rqs)
  obtain rest where p: "read_request bs = Some (rq, rest)" "read_requests rest = (rqs, g)"
    using Cons.prems(1) by (subst (asm) read_requests.simps) (auto split: option.splits prod.splits)
  note L = read_request_suffix [OF p(1)]
  obtain r v1 where 1: "serve1 h enq i (ctx_view c) rq = (r, v1)" by fastforce
  obtain out1 v2 where 2: "serve h enq i v1 rqs = (out1, v2)" by fastforce
  have out: "out = (case wire_reply (fst rq) r of None \<Rightarrow> out1 | Some b \<Rightarrow> b # out1)" "v2 = v'"
    using Cons.prems(8) 1 2 by auto
  obtain c1 m1 where d: "ServerDispatch h (Some c) i (RawBufferInit (Some bs) (length bs)) m
      = Some (\<lparr>db_ok = True, db_response = map_option (\<lambda>bs. \<lparr>rb_data = Some bs, rb_len = length bs\<rparr>) (wire_reply (fst rq) r),
               db_notification = None\<rparr>, \<lparr>rb_data = Some bs, rb_len = length bs - length rest\<rparr>, Some c1, m1)"
      "ctx_wf c1" "nofail m1" "ctx_view c1 = v1" "v_name v1 = v_name (ctx_view c)"
      "\<forall>b. wire_reply (fst rq) r = Some b \<longrightarrow> length b < 2 ^ 32"
      "live m1 - ctx_blocks c1 = live m - ctx_blocks c + request_leak rq + queued1 h (ctx_view c) r
        + 2 * of_bool (wire_reply (fst rq) r \<noteq> None)"
    using ServerDispatch_request [OF Cons.prems(6,7,4) p(1) Cons.prems(2) 1] by blast
  obtain w1 m2 where s: "send_response u i (map_option (\<lambda>bs. \<lparr>rb_data = Some bs, rb_len = length bs\<rparr>) (wire_reply (fst rq) r))
        (set_ctx (Some c1) w) m1 = (w1, m2)" "nofail m2"
      "w_written w1 = w_written w @ (case wire_reply (fst rq) r of None \<Rightarrow> [] | Some b \<Rightarrow> [(i, b)])"
      "w_conns w1 = w_conns w" "w_closing w1 = w_closing w" "hs_ctx (w_server w1) = Some c1"
      "w_pending w1 = w_pending w @ (case wire_reply (fst rq) r of None \<Rightarrow> [] | Some _ \<Rightarrow> [i])" "live m2 = live m1"
    using send_response_writes [OF d(3) Cons.prems(3) d(6), of i "set_ctx (Some c1) w"] by (auto simp: set_ctx_def)
  have ne: "bs \<noteq> []" "0 < length bs - length rest" using L by auto
  have "read_loop h u i bs w m = read_loop h u i rest w1 m2"
    using Cons.prems(5) d(1) s(1) ne L by (subst read_loop.simps) (auto simp: send_notification_def Let_def)
  moreover have "\<exists>w' m' c'. read_loop h u i rest w1 m2 = Some (g, w', m')
    \<and> w_written w' = w_written w1 @ map (Pair i) out1 \<and> w_conns w' = w_conns w1 \<and> w_closing w' = hung_up g i (w_closing w1)
    \<and> hs_ctx (w_server w') = Some c' \<and> ctx_view c' = v'
    \<and> nofail m' \<and> v_name v' = v_name (ctx_view c1) \<and> w_pending w' = w_pending w1 @ replicate (length out1) i
    \<and> live m' - ctx_blocks c' = live m2 - ctx_blocks c1 + sum_list (map request_leak rqs) + queued h enq i (ctx_view c1) rqs
        + 2 * int (length out1)"
    using d(4,5) Cons.prems(7) 2
    by (intro Cons.IH [OF p(2) Cons.prems(2,3) s(2,6) d(2)]) (simp_all add: out)
  ultimately show ?case
    using s(3-5,7,8) out d(4,5,7) 1 by (fastforce split: option.splits)
qed

text \<open>What a read of any bytes changes, the memory included.\<close>

lemma stream_read:
  assumes "srv_inv w" "w_conns w i = Some conn" "\<not> uv_is_closing i w" "hs_ctx (w_server w) = Some c"
    and "read_requests data = (rqs, g)" "pushes h enq" "uv_writes u" "nofail m" "length (v_name (ctx_view c)) < 2 ^ 30"
    and "serve h enq i (ctx_view c) rqs = (out, v')"
    and "data \<noteq> []" "length data < 2 ^ 63" "length g \<le> 4 * 1024 * 1024"
  shows "\<exists>w' m' c' conn'. haze_on_read h u i (int (length data)) True data w m = Some (w', m')
    \<and> w_written w' = w_written w @ map (Pair i) out \<and> w_pending w' = w_pending w @ replicate (length out) i
    \<and> w_conns w' = (w_conns w)(i \<mapsto> conn') \<and> cn_buffer conn' = g \<and> w_closing w' = hung_up g i (w_closing w)
    \<and> (w_server w')\<lparr>hs_ctx := None\<rparr> = (w_server w)\<lparr>hs_ctx := None\<rparr>
    \<and> hs_ctx (w_server w') = Some c' \<and> ctx_view c' = v' \<and> v_name v' = v_name (ctx_view c) \<and> nofail m'
    \<and> live m' - ctx_blocks c' - of_bool (cn_alloc conn') + 1 =
         live m - ctx_blocks c - of_bool (cn_alloc conn) + sum_list (map request_leak rqs) + queued h enq i (ctx_view c) rqs
           + 2 * int (length out)"
proof -
  have c: "conn_ok conn" "cn_buffer conn = []" "ctx_wf c" "ctx_ok w"
    using assms(1-4) by (auto simp: srv_inv_def uv_is_closing_def ctx_ok_def)
  have ne: "0 < length data" using assms(11) by simp
  obtain cn m1 where 1: "haze_on_read h u i (int (length data)) True data w m = haze_on_read_data h u i cn data w m1"
      "cn_buffer cn = []" "nofail m1" "live m1 - of_bool (cn_alloc cn) = live m - of_bool (cn_alloc conn)"
    using haze_on_read_enters [OF assms(2) c(1,2) assms(8) ne assms(12), of h u] by blast
  obtain w1 m' c' where 2: "read_loop h u i data w (free1 m1) = Some (g, w1, m')"
      "w_written w1 = w_written w @ map (Pair i) out" "w_conns w1 = w_conns w" "w_closing w1 = hung_up g i (w_closing w)"
      "hs_ctx (w_server w1) = Some c'" "ctx_view c' = v'" "nofail m'" "v_name v' = v_name (ctx_view c)"
      "w_pending w1 = w_pending w @ replicate (length out) i"
      "live m' - ctx_blocks c' = live (free1 m1) - ctx_blocks c + sum_list (map request_leak rqs)
         + queued h enq i (ctx_view c) rqs + 2 * int (length out)"
    using read_loop_stream [OF assms(5-7) _ assms(4) c(3) assms(9,10), of "free1 m1"] 1(3) by auto
  have "haze_on_read h u i (int (length data)) True data w m = Some (put_conn i (cn\<lparr>cn_buffer := g\<rparr>) w1, m')"
    using 1(1,2) 2(1) assms(13) by (simp add: haze_on_read_data_def)
  then show ?thesis
    using 1(4) 2 read_loop_outcome [OF 2(1) c(4)]
    by (intro exI [of _ "put_conn i (cn\<lparr>cn_buffer := g\<rparr>) w1"] exI [of _ m'] exI [of _ c'] exI [of _ "cn\<lparr>cn_buffer := g\<rparr>"])
      (auto simp: put_conn_def)
qed

lemma wire_request_ne: "wire_request rq \<noteq> []"
  by (simp add: wire_request_def enc_arr_head_def split: prod.split)

lemma stream_answers:
  assumes "srv_inv w" "w_conns w i = Some conn" "\<not> uv_is_closing i w" "hs_ctx (w_server w) = Some c"
    and "list_all good_request rqs" "pushes h enq" "uv_writes u" "nofail m" "length (v_name (ctx_view c)) < 2 ^ 30"
    and "serve h enq i (ctx_view c) rqs = (out, v')"
    and "data = concat (map wire_request rqs)" "rqs \<noteq> []" "length data < 2 ^ 63"
  shows "\<exists>w' m' c' conn'. haze_on_read h u i (int (length data)) True data w m = Some (w', m')
    \<and> w_written w' = w_written w @ map (Pair i) out
    \<and> w_conns w' i = Some conn' \<and> cn_buffer conn' = [] \<and> \<not> uv_is_closing i w'
    \<and> hs_ctx (w_server w') = Some c' \<and> ctx_view c' = v'"
proof -
  have p: "read_requests data = (rqs, [])" using read_requests_wire [OF assms(5), of "[]"] assms(11) by simp
  have "data \<noteq> []" using assms(11,12) wire_request_ne by (cases rqs) auto
  from stream_read [OF assms(1-4) p assms(6-10) this assms(13)] show ?thesis
    using assms(3) by (auto simp: uv_is_closing_def hung_up_def)
qed

text \<open>
  End to end: when the bytes of any number of requests arrive in one read on an open connection, the
  server sends back, in the order of the requests and on the same connection, exactly the encoded
  replies of the abstract service, leaves the buffer empty and the connection open, and the state
  clients see is the one the service ends in. (No allocation fails, the event loop takes the writes,
  and \<^verbatim>\<open>JobQueuePush\<close> appends.)
\<close>

theorem stream_answered_in_order:
  assumes "srv_inv w" "w_conns w i = Some conn" "\<not> uv_is_closing i w" "hs_ctx (w_server w) = Some c"
    and "list_all good_request rqs" "pushes h enq" "uv_writes u" "nofail m" "length (v_name (ctx_view c)) < 2 ^ 30"
    and "serve h enq i (ctx_view c) rqs = (out, v')"
    and "data = concat (map wire_request rqs)" "rqs \<noteq> []" "length data < 2 ^ 63"
  shows "\<exists>w' m' c' conn'. haze_on_read h u i (int (length data)) True data w m = Some (w', m')
    \<and> w_written w' = w_written w @ map (Pair i) out
    \<and> w_conns w' i = Some conn' \<and> cn_buffer conn' = [] \<and> \<not> uv_is_closing i w'
    \<and> hs_ctx (w_server w') = Some c' \<and> ctx_view c' = v'"
  by (rule stream_answers [OF assms])

definition two_requests :: "request list" where
  "two_requests = [(7, cstr ''test/ping'', []), (8, cstr ''samplelist/remove'', [MStr (cstr ''kick.wav'')])]"

theorem stream_answered_in_order_witness:
  "\<exists>w' m'. haze_on_read plain_host willing_uv 5 (int (length (concat (map wire_request two_requests)))) True
       (concat (map wire_request two_requests)) one_client \<lparr>outcomes = [], live = 0\<rparr> = Some (w', m')
     \<and> w_written w' = [(5, enc (MArr [MInt 1, MInt 7, MNil, MStr (cstr ''pong!'')])), (5, enc (MArr [MInt 1, MInt 8, MNil, MNil]))]"
proof -
  have ctx: "hs_ctx (w_server one_client) = Some demo_ctx" "w_written one_client = []"
    by (auto simp: one_client_def haze_on_connect_def malloc_def willing_uv_def put_conn_def fresh_world_def
        HazeServerAddConnection_def realloc_def mem_add_def)
  have nul: "until_nul (cstr ''test/ping'') = cstr ''test/ping''" "until_nul (cstr ''samplelist/remove'') = cstr ''samplelist/remove''"
      "until_nul (cstr ''kick.wav'') = cstr ''kick.wav''"
    by (simp_all add: no_nul_def cstr_def)
  have v: "v_name (ctx_view demo_ctx) = cstr ''gizmo_silly''" "v_samples (ctx_view demo_ctx) = [(cstr ''kick.wav'', []), (cstr ''hat.wav'', [])]"
    by (simp_all add: ctx_view_def demo_ctx_def SessionGetName_def sl_view_def sl_list_def blank_sample_def sample_name_def)
  have ne: "cstr ''samplelist/remove'' \<noteq> cstr ''test/ping''" "cstr ''samplelist/remove'' \<noteq> cstr ''session/create''"
      "cstr ''samplelist/remove'' \<noteq> cstr ''session/get_name''" "cstr ''samplelist/remove'' \<noteq> cstr ''session/get_working_time''"
      "cstr ''samplelist/remove'' \<noteq> cstr ''samplelist/import''" "cstr ''kick.wav'' \<noteq> []"
    by (simp_all add: cstr_def)
  obtain v' where sv: "serve plain_host enqueue 5 (ctx_view demo_ctx) two_requests =
      ([enc (MArr [MInt 1, MInt 7, MNil, MStr (cstr ''pong!'')]), enc (MArr [MInt 1, MInt 8, MNil, MNil])], v')"
    using ne by (auto simp: two_requests_def serve1_def service_chain nul no_params_def str_param_def yields_def spec_remove_def v
        wire_reply_def simp del: enc.simps)
  have good: "list_all good_request two_requests" by (simp add: two_requests_def good_request_def cstr_def)
  have len: "length (concat (map wire_request two_requests)) < 2 ^ 63"
    by (simp add: two_requests_def wire_request_def enc_arr_head_def enc_int_def enc_str_head_def cstr_def)
  have "uv_writes willing_uv" "two_requests \<noteq> []" by (simp_all add: uv_writes_def willing_uv_def two_requests_def)
  with stream_answered_in_order [OF one_client_ok ctx(1) good plain_host_pushes _ _ _ sv refl _ len, of willing_uv "\<lparr>outcomes = [], live = 0\<rparr>"]
  show ?thesis by (auto simp: v ctx nofail_def cstr_def simp del: enc.simps)
qed

end
