(* ===== verification/Haze_Main.thy ===== *)
theory Haze_Main
  imports Haze_Server
begin

text \<open>
  \<^verbatim>\<open>source/main.c\<close>: the arguments of the program, the start of the context and the search for a port.
\<close>

subsection \<open>Program arguments\<close>



subsection \<open>The search for a port\<close>

text \<open>
  The loop of \<^verbatim>\<open>main\<close>: the exit code, the server, the port and the memory; the \<^verbatim>\<open>int\<close> is passed as a
  \<^verbatim>\<open>uint16_t\<close>. Code 0 means that \<^verbatim>\<open>main\<close> goes on with the server. \<open>None\<close> is undefined behaviour or a
  loop that does not end.
\<close>

partial_function (option) main_search ::
  "(u16 \<Rightarrow> int) \<Rightarrow> (u16 \<Rightarrow> int) \<Rightarrow> Context option \<Rightarrow> int \<Rightarrow> mem \<Rightarrow> (int \<times> HazeServer option \<times> int \<times> mem) option" where
  "main_search tcp_bind listen gi port m =
     Option.bind (HazeServerNew None (of_int port) m) (\<lambda>sm.
       if fst sm = None then Some (1, None, port, snd sm)
       else Option.bind (HazeServerStart tcp_bind listen gi (fst sm)) (\<lambda>es.
         if fst es = UV_EADDRINUSE \<or> fst es = UV_EACCES
         then main_search tcp_bind listen gi (port + 1) (HazeServerFree (snd es) id (snd sm))
         else if fst es \<noteq> 0 then Some (1, None, port, HazeServerFree (snd es) id (snd sm))
         else Some (0, snd es, port, snd sm)))"


subsection \<open>Properties\<close>

definition busy :: "(u16 \<Rightarrow> int) \<Rightarrow> (u16 \<Rightarrow> int) \<Rightarrow> u16 \<Rightarrow> bool" where
  "busy tcp_bind listen p \<longleftrightarrow> (let e = (if tcp_bind p \<noteq> 0 then tcp_bind p else listen p) in e = UV_EADDRINUSE \<or> e = UV_EACCES)"

definition refused :: "(u16 \<Rightarrow> int) \<Rightarrow> (u16 \<Rightarrow> int) \<Rightarrow> u16 \<Rightarrow> bool" where
  "refused tcp_bind listen p \<longleftrightarrow> tcp_bind p \<noteq> 0 \<or> listen p \<noteq> 0"

definition served :: "Context \<Rightarrow> int \<Rightarrow> HazeServer" where
  "served c port = \<lparr>hs_addr = Some (cstr ''127.0.0.1''), hs_port = of_int port, hs_loop = True, hs_ctx = Some c,
     hs_connections = [], hs_conn_alloc = False, hs_conn_cap = 0\<rparr>"

lemma main_search_step:
  assumes "nofail m"
  shows "main_search b l (Some c) port m =
    (if busy b l (of_int port) then main_search b l (Some c) (port + 1) m
     else if refused b l (of_int port) then Some (1, None, port, m)
     else Some (0, Some (served c port), port, mem_add 3 m))"
proof -
  have "HazeServerFree (Some (served c port)) id (mem_add 3 m) = m"
    by (simp add: HazeServerFree_def served_def free_opt_def free1_def)
  moreover have "HazeServerNew None (of_int port) m = Some (Some ((served c port)\<lparr>hs_ctx := None\<rparr>), mem_add 3 m)"
    using assms by (simp add: HazeServerNew_def alloc_simps served_def)
  moreover have "HazeServerStart b l (Some c) (Some ((served c port)\<lparr>hs_ctx := None\<rparr>))
      = Some (if b (of_int port) \<noteq> 0 then b (of_int port) else l (of_int port), Some (served c port))"
    by (simp add: HazeServerStart_def served_def)
  ultimately show ?thesis
    by (subst main_search.simps) (auto simp: busy_def refused_def)
qed

lemma main_search_reaches:
  assumes "nofail m" "\<forall>j < d. busy b l (of_int (p + int j))" "\<not> busy b l (of_int (p + int d))"
  shows "main_search b l (Some c) p m =
    (if refused b l (of_int (p + int d)) then Some (1, None, p + int d, m)
     else Some (0, Some (served c (p + int d)), p + int d, mem_add 3 m))"
  using assms
proof (induction d arbitrary: p)
  case 0
  then show ?case by (simp add: main_search_step)
next
  case (Suc d)
  have "busy b l (of_int p)" using Suc.prems(2) [rule_format, of 0] by simp
  moreover have "busy b l (of_int (p + 1 + int j))" if "j < d" for j
    using Suc.prems(2) [rule_format, of "Suc j"] that by (simp add: algebra_simps)
  ultimately show ?case
    using Suc.IH [of "p + 1"] Suc.prems(1,3) by (simp add: main_search_step [of m b l c p] algebra_simps)
qed

lemma main_search_busy:
  assumes "nofail m" "\<And>q. busy b l q"
  shows "main_search b l (Some c) p m = None"
proof (rule ccontr)
  assume "main_search b l (Some c) p m \<noteq> None"
  then obtain r where r: "main_search b l (Some c) p m = Some r" by auto
  have "nofail m \<longrightarrow> gi \<noteq> None \<longrightarrow> b' = b \<longrightarrow> l' = l \<longrightarrow> False" if "main_search b' l' gi p m = Some r" for b' l' gi p m r
  proof (rule main_search.raw_induct [of "\<lambda>b' l' gi p m r. nofail m \<longrightarrow> gi \<noteq> None \<longrightarrow> b' = b \<longrightarrow> l' = l \<longrightarrow> False", OF _ that])
    fix g b' l' gi p m r
    assume IH: "\<And>b' l' gi p m r. g b' l' gi p m = Some r \<Longrightarrow> nofail m \<longrightarrow> gi \<noteq> None \<longrightarrow> b' = b \<longrightarrow> l' = l \<longrightarrow> False"
      and e: "Option.bind (HazeServerNew None (of_int p) m) (\<lambda>sm.
       if fst sm = None then Some (1, None, p, snd sm)
       else Option.bind (HazeServerStart b' l' gi (fst sm)) (\<lambda>es.
         if fst es = UV_EADDRINUSE \<or> fst es = UV_EACCES
         then g b' l' gi (p + 1) (HazeServerFree (snd es) id (snd sm))
         else if fst es \<noteq> 0 then Some (1, None, p, HazeServerFree (snd es) id (snd sm))
         else Some (0, snd es, p, snd sm))) = Some r"
    show "nofail m \<longrightarrow> gi \<noteq> None \<longrightarrow> b' = b \<longrightarrow> l' = l \<longrightarrow> False"
      using e assms(2) [of "of_int p"]
        IH [of b' l' gi "p + 1" "free1 (free_opt (Some (cstr ''127.0.0.1'')) (free1 (mem_add 3 m)))" r]
      by (auto simp: HazeServerNew_def HazeServerStart_def HazeServerFree_def alloc_simps busy_def Let_def split: if_splits)
  qed
  from this [OF r] assms(1) show False by simp
qed

text \<open>
  C19: The search for a port ends exactly when some port can be tried: it then stops at the first port,
  counted upwards from the start and around the end of the 16-bit range, that is neither in use nor
  forbidden, after less than 65536 attempts, with a server for that port or, when it cannot be
  opened for another reason, with exit code 1; the servers of the failed attempts are released. When
  every port is in use or forbidden it goes on for ever.
\<close>

theorem main_search_first_free:
  assumes "nofail m"
  shows "if \<exists>q. \<not> busy b l q
   then \<exists>d < 65536. \<not> busy b l (of_int (p + int d)) \<and> (\<forall>j < d. busy b l (of_int (p + int j)))
          \<and> main_search b l (Some c) p m =
              (if refused b l (of_int (p + int d)) then Some (1, None, p + int d, m)
               else Some (0, Some (served c (p + int d)), p + int d, mem_add 3 m))
   else main_search b l (Some c) p m = None"
proof (cases "\<exists>q. \<not> busy b l q")
  case True
  then obtain q where q: "\<not> busy b l q" by blast
  define k where "k = unat (q - of_int p)"
  have k: "(of_int (p + int k) :: u16) = q" by (simp add: k_def)
  define d where "d = (LEAST d. \<not> busy b l (of_int (p + int d)))"
  have "\<not> busy b l (of_int (p + int d))"
    unfolding d_def by (rule LeastI [of _ k]) (use q k in simp)
  moreover have "\<forall>j < d. busy b l (of_int (p + int j))" unfolding d_def using not_less_Least by blast
  moreover have "d \<le> k" unfolding d_def by (rule Least_le) (use q k in simp)
  moreover have "k < 65536" using unsigned_less [of "q - of_int p", where 'a = nat] by (simp add: k_def)
  ultimately show ?thesis using True main_search_reaches [OF assms, of d b l p c] by (auto intro!: exI [of _ d])
next
  case False
  with main_search_busy [OF assms, of b l c p] show ?thesis by simp
qed

theorem main_search_first_free_witness:
  "\<exists>s m. main_search (\<lambda>q. if q < 7200 then UV_EADDRINUSE else 0) (\<lambda>_. 0) (Some \<lparr>ctx_session = None, ctx_paths = None,
       ctx_instanceRegFile = None, ctx_audioEngine = True, ctx_requests = None, ctx_results = None, ctx_loop = None\<rparr>)
     7199 \<lparr>outcomes = [], live = 0\<rparr> = Some (0, Some s, 7200, m)"
proof -
  let ?b = "\<lambda>q :: u16. if q < 7200 then UV_EADDRINUSE else 0" and ?l = "\<lambda>_ :: u16. 0 :: int"
  let ?c = "\<lparr>ctx_session = None, ctx_paths = None,
       ctx_instanceRegFile = None, ctx_audioEngine = True, ctx_requests = None, ctx_results = None, ctx_loop = None\<rparr>"
  have f: "\<not> busy ?b ?l 7200" by (simp add: busy_def UV_EADDRINUSE_def UV_EACCES_def)
  have "\<exists>q. \<not> busy ?b ?l q" using f by blast
  then obtain d where d: "\<not> busy ?b ?l (of_int (7199 + int d))" "\<forall>j < d. busy ?b ?l (of_int (7199 + int j))"
      "main_search ?b ?l (Some ?c) 7199 \<lparr>outcomes = [], live = 0\<rparr> =
         (if refused ?b ?l (of_int (7199 + int d)) then Some (1, None, 7199 + int d, \<lparr>outcomes = [], live = 0\<rparr>)
          else Some (0, Some (served ?c (7199 + int d)), 7199 + int d, mem_add 3 \<lparr>outcomes = [], live = 0\<rparr>))"
    using main_search_first_free [of "\<lparr>outcomes = [], live = 0\<rparr>" ?b ?l 7199 ?c] by (auto simp: nofail_def)
  have "d = 1"
  proof (rule antisym)
    show "d \<le> 1" using d(2) [rule_format, of 1] f by force
    show "1 \<le> d" using d(1) by (cases d) (auto simp: busy_def UV_EADDRINUSE_def)
  qed
  with d(3) show ?thesis by (simp add: refused_def)
qed



end
