(* ===== verification/Haze_Run.thy ===== *)
theory Haze_Run
  imports Haze_Server_Laws Haze_Main
begin

text \<open>
  The end of \<^verbatim>\<open>main.c\<close> and the rest of \<^verbatim>\<open>server/HazeServer.c\<close>: the event loop until a signal stops it, and the release of
  a server with its connections. What libuv does is a step relation: \<open>srv_step\<close> while the loop runs, \<open>drain_step\<close> after
  \<^verbatim>\<open>uv_walk\<close> has closed the handles.
\<close>

subsection \<open>Running\<close>

text \<open>The flag that \<^verbatim>\<open>uv_stop\<close> sets; a handle is given by its loop pointer.\<close>

definition OnSignal :: "bool option \<Rightarrow> bool \<Rightarrow> bool" where
  "OnSignal handle stop = (if handle = Some True then True else stop)"

definition HazeServerStop :: "HazeServer option \<Rightarrow> bool \<Rightarrow> bool" where
  "HazeServerStop sp stop = (if sp = None then stop else True)"

text \<open>One callback of the running loop; \<open>armed\<close> tells whether a signal handle was started.\<close>

inductive loop_step :: "bool \<Rightarrow> world \<times> mem \<times> bool \<Rightarrow> world \<times> mem \<times> bool \<Rightarrow> bool" for armed where
  callback: "srv_step (w, m) (w', m') \<Longrightarrow> loop_step armed (w, m, stop) (w', m', stop)"
| signal: "armed \<Longrightarrow> loop_step armed (w, m, stop) (w, m, OnSignal (Some (hs_loop (w_server w))) stop)"

text \<open>
  \<^verbatim>\<open>uv_run\<close> returns once the flag is set, not before the callbacks of the current iteration are done. The listening
  handle stays active, so there is no other way to return.
\<close>

inductive HazeServerRun :: "bool \<Rightarrow> world option \<Rightarrow> mem \<Rightarrow> world option \<Rightarrow> mem \<Rightarrow> bool" for armed where
  run_null: "HazeServerRun armed None m None m"
| run_stopped: "(loop_step armed)\<^sup>*\<^sup>* (w, m, False) (w', m', True) \<Longrightarrow> HazeServerRun armed (Some w) m (Some w') m'"

subsection \<open>Releasing\<close>

text \<open>The handles of the loop: the listening socket, the signal (its \<^verbatim>\<open>data\<close> is the mark) and the connections.\<close>

datatype handle = Listener | Signal | Connection nat

definition OnHandleClose :: "handle \<Rightarrow> mem \<Rightarrow> mem" where
  "OnHandleClose q m = (if q = Signal then free1 m else m)"

text \<open>
  \<^verbatim>\<open>_CloseWalkCb\<close>: a handle that is not yet being closed is closed with \<^verbatim>\<open>_OnHandleClose\<close> as its callback; the list has the
  handles closed that way. A connection closed earlier keeps \<^verbatim>\<open>haze_on_close\<close>.
\<close>

definition handle_is_closing :: "handle \<Rightarrow> handle list \<times> world \<Rightarrow> bool" where
  "handle_is_closing q st \<longleftrightarrow>
     q \<in> set (fst st) \<or> (case q of Connection i \<Rightarrow> uv_is_closing i (snd st) | _ \<Rightarrow> False)"

definition CloseWalkCb :: "handle \<Rightarrow> handle list \<times> world \<Rightarrow> handle list \<times> world" where
  "CloseWalkCb q st =
     (if \<not> handle_is_closing q st
      then (fst st @ [q], case q of Connection i \<Rightarrow> uv_close i (snd st) | _ \<Rightarrow> snd st)
      else st)"

definition forget_handle :: "handle \<Rightarrow> world \<Rightarrow> world" where
  "forget_handle q w = (case q of Connection i \<Rightarrow> w\<lparr>w_closing := removeAll i (w_closing w)\<rparr> | _ \<Rightarrow> w)"

text \<open>
  One callback of \<^verbatim>\<open>uv_run\<close> while every handle is closing: a write is reported, or the close of a handle without writes
  is completed.
\<close>

inductive drain_step :: "handle list \<times> world \<times> mem \<Rightarrow> handle list \<times> world \<times> mem \<Rightarrow> bool" where
  reported: "i \<in> set (w_pending w) \<Longrightarrow> haze_on_write_done status i w m = (w', m') \<Longrightarrow> drain_step (hs, w, m) (hs, w', m')"
| own_close: "uv_is_closing i w \<Longrightarrow> Connection i \<notin> set hs \<Longrightarrow> i \<notin> set (w_pending w) \<Longrightarrow>
    haze_on_close i w m = Some (w', m') \<Longrightarrow> drain_step (hs, w, m) (hs, w', m')"
| walk_close: "q \<in> set hs \<Longrightarrow> (\<forall>i. q = Connection i \<longrightarrow> i \<notin> set (w_pending w)) \<Longrightarrow>
    drain_step (hs, w, m) (removeAll q hs, forget_handle q w, OnHandleClose q m)"

text \<open>\<^verbatim>\<open>uv_loop_close\<close> is busy as long as something is left to report.\<close>

definition uv_loop_busy :: "handle list \<Rightarrow> world \<Rightarrow> bool" where
  "uv_loop_busy hs w \<longleftrightarrow> hs \<noteq> [] \<or> w_closing w \<noteq> [] \<or> w_pending w \<noteq> []"

text \<open>\<^verbatim>\<open>HazeServerFree\<close> of a server that has been running; \<open>handles\<close> is the order in which \<^verbatim>\<open>uv_walk\<close> meets them.\<close>

inductive server_free :: "handle list \<Rightarrow> world \<Rightarrow> mem \<Rightarrow> mem \<Rightarrow> bool" where
  "fold CloseWalkCb handles ([], w) = (hs, w1) \<Longrightarrow> drain_step\<^sup>*\<^sup>* (hs, w1, m) (hs', w2, m1) \<Longrightarrow> \<not> uv_loop_busy hs' w2 \<Longrightarrow>
   server_free handles w m (HazeServerFree (Some (w_server w2)) (\<lambda>_. m1) m)"

definition loop_handles :: "bool \<Rightarrow> world \<Rightarrow> handle list \<Rightarrow> bool" where
  "loop_handles armed w handles \<longleftrightarrow>
     distinct handles \<and> set handles = insert Listener ((if armed then {Signal} else {}) \<union> Connection ` dom (w_conns w))"

text \<open>
  \<^verbatim>\<open>main\<close> from the signal handler on: the state in which the loop stops and the memory it has then, the exit code and the
  memory at the end.
\<close>

definition idle :: "HazeServer \<Rightarrow> world" where
  "idle s = \<lparr>w_server = s, w_conns = (\<lambda>_. None), w_closing = [], w_pending = [], w_written = []\<rparr>"

inductive main_serve :: "HazeServer \<Rightarrow> mem \<Rightarrow> world \<times> mem \<Rightarrow> int \<times> mem \<Rightarrow> bool" where
  "HazeServerSetupSignals (Some s) m = (rc, armed, m1) \<Longrightarrow>
   HazeServerRun armed (Some (idle s)) m1 (Some w) m2 \<Longrightarrow>
   loop_handles armed w handles \<Longrightarrow> server_free handles w m2 m3 \<Longrightarrow>
   ContextFree (hs_ctx (w_server w)) m3 = Some m4 \<Longrightarrow> main_serve s m (w, m2) (0, m4)"


subsection \<open>While the loop runs\<close>

lemma step_keeps_server:
  assumes "srv_step (w, m) (w', m')" "srv_inv w"
  shows "hs_addr (w_server w') = hs_addr (w_server w) \<and> hs_loop (w_server w') = hs_loop (w_server w)
    \<and> (finite (dom (w_conns w)) \<longrightarrow> finite (dom (w_conns w')))"
  using assms(1)
proof (cases rule: srv_step.cases)
  case connect
  then show ?thesis
    by (auto simp: haze_on_connect_def HazeServerAddConnection_def put_conn_def uv_close_def Let_def split: if_splits prod.splits)
next
  case (read i suggested base len m1 nread data h u)
  have C: "ctx_ok w" using assms(2) by (simp add: srv_inv_def)
  have D: "hs_addr (w_server w') = hs_addr (w_server w) \<and> hs_loop (w_server w') = hs_loop (w_server w)
      \<and> (finite (dom (w_conns w)) \<longrightarrow> finite (dom (w_conns w')))"
    if d: "haze_on_read_data h u i conn data w m1 = Some (w', m')" for conn m1
  proof -
    obtain rest w1 m2 where r: "read_loop h u i (cn_buffer conn @ data) w (free1 m1) = Some (rest, w1, m2)"
        "w' = (if 4 * 1024 * 1024 < length rest then uv_close i (put_conn i (conn\<lparr>cn_buffer := rest\<rparr>) w1)
               else put_conn i (conn\<lparr>cn_buffer := rest\<rparr>) w1)"
      using d by (auto simp: haze_on_read_data_def Let_def split: option.splits)
    note R = read_loop_outcome [OF r(1) C]
    then have "hs_addr (w_server w1) = hs_addr (w_server w)" "hs_loop (w_server w1) = hs_loop (w_server w)"
      by (cases "w_server w1"; cases "w_server w"; simp)+
    with R r(2) show ?thesis by (auto simp: put_conn_def uv_close_def)
  qed
  show ?thesis
    using read D by (auto simp: haze_on_read_def uv_close_def Let_def split: if_splits prod.splits option.splits)
next
  case hang_up
  then show ?thesis by (auto simp: haze_on_read_def uv_close_def split: option.splits)
next
  case write_done
  then show ?thesis by (auto simp: haze_on_write_done_def uv_close_def Let_def split: if_splits)
next
  case close
  then show ?thesis
    by (auto simp: haze_on_close_def HazeServerRemoveConnection_def Let_def split: option.splits)
qed

definition run_inv :: "HazeServer \<Rightarrow> world \<Rightarrow> bool" where
  "run_inv s w \<longleftrightarrow> srv_inv w \<and> finite (dom (w_conns w)) \<and> hs_addr (w_server w) = hs_addr s \<and> hs_loop (w_server w) = hs_loop s"

lemma run_inv_step: "srv_step (w, m) (w', m') \<Longrightarrow> run_inv s w \<Longrightarrow> run_inv s w'"
  using step_keeps_server [of w m w' m'] step_inv [of "(w, m)" "(w', m')"] by (auto simp: run_inv_def)

lemma run_inv_idle: "hs_connections s = [] \<Longrightarrow> hs_conn_cap s = 0 \<Longrightarrow> hs_ctx s = Some c \<Longrightarrow> ctx_wf c \<Longrightarrow> run_inv s (idle s)"
  by (auto simp: run_inv_def srv_inv_def idle_def table_ok_def ctx_ok_def)

lemma run_inv_steps: "srv_step\<^sup>*\<^sup>* st st' \<Longrightarrow> run_inv s (fst st) \<Longrightarrow> run_inv s (fst st')"
proof (induction rule: rtranclp_induct)
  case (step y z)
  then show ?case using run_inv_step [of "fst y" "snd y" "fst z" "snd z"] by simp
qed simp

lemma loop_steps_srv:
  "(loop_step armed)\<^sup>*\<^sup>* st st' \<Longrightarrow> srv_step\<^sup>*\<^sup>* (fst st, fst (snd st)) (fst st', fst (snd st'))"
proof (induction rule: rtranclp_induct)
  case (step y z)
  from step(2) have "srv_step\<^sup>*\<^sup>* (fst y, fst (snd y)) (fst z, fst (snd z))" by (cases rule: loop_step.cases) auto
  with step(3) show ?case by (rule rtranclp_trans)
qed simp

lemma srv_steps_loop:
  "srv_step\<^sup>*\<^sup>* (w, m) (w', m') \<Longrightarrow> (loop_step armed)\<^sup>*\<^sup>* (w, m, stop) (w', m', stop)"
proof (induction rule: rtranclp_induct2)
  case (step w1 m1 w2 m2)
  then show ?case by (meson callback rtranclp.rtrancl_into_rtrancl)
qed simp

text \<open>The loop returns from any state it can be in, once a signal comes; and what it returns is such a state.\<close>

lemma HazeServerRun_iff:
  assumes "armed" "hs_loop (w_server w')"
  shows "HazeServerRun armed (Some w) m (Some w') m' \<longleftrightarrow> srv_step\<^sup>*\<^sup>* (w, m) (w', m')"
proof
  assume "HazeServerRun armed (Some w) m (Some w') m'"
  then show "srv_step\<^sup>*\<^sup>* (w, m) (w', m')"
    by (cases rule: HazeServerRun.cases) (use loop_steps_srv in fastforce)
next
  assume "srv_step\<^sup>*\<^sup>* (w, m) (w', m')"
  then have "(loop_step armed)\<^sup>*\<^sup>* (w, m, False) (w', m', False)" by (rule srv_steps_loop)
  moreover have "loop_step armed (w', m', False) (w', m', True)"
    using signal [of armed w' m' False] assms by (simp add: OnSignal_def)
  ultimately show "HazeServerRun armed (Some w) m (Some w') m'"
    by (meson run_stopped rtranclp.rtrancl_into_rtrancl)
qed

text \<open>Without a signal handle nothing ends the loop.\<close>

lemma HazeServerRun_unarmed: "\<not> HazeServerRun False (Some w) m (Some w') m'"
proof
  assume "HazeServerRun False (Some w) m (Some w') m'"
  then have r: "(loop_step False)\<^sup>*\<^sup>* (w, m, False) (w', m', True)" by (cases rule: HazeServerRun.cases)
  have "\<not> snd (snd st')" if "(loop_step False)\<^sup>*\<^sup>* st st'" "\<not> snd (snd st)" for st st'
    using that by (induction rule: rtranclp_induct) (auto elim: loop_step.cases)
  from this [OF r] show False by simp
qed

subsection \<open>Draining the loop\<close>

text \<open>The walk: every handle is closing afterwards, the ones it met open with the callback that frees no connection.\<close>

lemma walk_result:
  assumes "distinct handles" "set handles \<inter> set hs = {}" "fold CloseWalkCb handles (hs, w) = (hs', w')"
  shows "hs' = hs @ filter (\<lambda>q. \<not> handle_is_closing q ([], w)) handles
    \<and> (\<exists>cl. w' = w\<lparr>w_closing := cl\<rparr> \<and> set cl = set (w_closing w) \<union> {i. Connection i \<in> set handles})"
  using assms
proof (induction handles arbitrary: hs w)
  case Nil
  then show ?case by (auto intro: exI [of _ "w_closing w"])
next
  case (Cons q qs)
  let ?st = "CloseWalkCb q (hs, w)"
  have st: "fst ?st = hs @ filter (\<lambda>q. \<not> handle_is_closing q ([], w)) [q]"
      "\<exists>cl. snd ?st = w\<lparr>w_closing := cl\<rparr> \<and> set cl = set (w_closing w) \<union> {i. Connection i = q}"
    using Cons.prems(2)
    by (cases q; auto simp: CloseWalkCb_def handle_is_closing_def uv_close_def uv_is_closing_def intro: exI [of _ "w_closing w"])+
  then obtain cl where cl: "snd ?st = w\<lparr>w_closing := cl\<rparr>" "set cl = set (w_closing w) \<union> {i. Connection i = q}" by blast
  have same: "handle_is_closing p ([], snd ?st) = handle_is_closing p ([], w)" if "p \<in> set qs" for p
    by (cases p; use that Cons.prems(1) cl in \<open>auto simp: handle_is_closing_def uv_is_closing_def\<close>)
  have "set qs \<inter> set (fst ?st) = {}" using Cons.prems(1,2) st(1) by auto
  moreover have "fold CloseWalkCb qs (fst ?st, snd ?st) = (hs', w')" using Cons.prems(3) by simp
  ultimately have IH: "hs' = fst ?st @ filter (\<lambda>q. \<not> handle_is_closing q ([], snd ?st)) qs"
      "\<exists>cl. w' = (snd ?st)\<lparr>w_closing := cl\<rparr> \<and> set cl = set (w_closing (snd ?st)) \<union> {i. Connection i \<in> set qs}"
    using Cons.IH [of "fst ?st" "snd ?st"] Cons.prems(1) by simp_all
  have "filter (\<lambda>q. \<not> handle_is_closing q ([], snd ?st)) qs = filter (\<lambda>q. \<not> handle_is_closing q ([], w)) qs"
    using same by (intro filter_cong) auto
  then have "hs' = hs @ filter (\<lambda>q. \<not> handle_is_closing q ([], w)) (q # qs)" using IH(1) st(1) by simp
  moreover have "\<exists>cl. w' = w\<lparr>w_closing := cl\<rparr> \<and> set cl = set (w_closing w) \<union> {i. Connection i \<in> set (q # qs)}"
    using IH(2) cl by auto
  ultimately show ?case by blast
qed

text \<open>
  The connections whose close was requested before the walk, the blocks that go with a connection, and what is still to
  be released; the number of callbacks to come bounds the loop.
\<close>

definition own_closing :: "handle list \<Rightarrow> world \<Rightarrow> nat set" where
  "own_closing hs w = {i \<in> set (w_closing w). Connection i \<notin> set hs}"

definition conn_blocks :: "HazeConn option \<Rightarrow> int" where
  "conn_blocks c = (case c of None \<Rightarrow> 0 | Some c \<Rightarrow> 1 + of_bool (cn_alloc c))"

definition to_release :: "handle list \<Rightarrow> world \<Rightarrow> int" where
  "to_release hs w = 2 * int (length (w_pending w)) + (\<Sum>i \<in> own_closing hs w. conn_blocks (w_conns w i)) + of_bool (Signal \<in> set hs)"

definition drain_size :: "handle list \<times> world \<times> mem \<Rightarrow> nat" where
  "drain_size st = (case st of (hs, w, m) \<Rightarrow> length (w_pending w) + card (own_closing hs w) + length hs)"

definition drain_inv :: "handle list \<Rightarrow> world \<Rightarrow> bool" where
  "drain_inv hs w \<longleftrightarrow> set (w_closing w) \<subseteq> dom (w_conns w) \<and> set (w_pending w) \<subseteq> set (w_closing w)
     \<and> {i. Connection i \<in> set hs} \<subseteq> set (w_closing w)"

lemma finite_own [simp]: "finite (own_closing hs w)"
  by (simp add: own_closing_def)

lemma RemoveConnection_keeps:
  "hs_addr (HazeServerRemoveConnection s i) = hs_addr s \<and> hs_loop (HazeServerRemoveConnection s i) = hs_loop s"
  by (simp add: HazeServerRemoveConnection_def split: option.split)

lemma drain_step_laws:
  assumes "drain_step (hs, w, m) (hs', w', m')" "drain_inv hs w"
  shows "drain_inv hs' w' \<and> live m' - to_release hs' w' = live m - to_release hs w
    \<and> drain_size (hs', w', m') < drain_size (hs, w, m)
    \<and> hs_addr (w_server w') = hs_addr (w_server w) \<and> hs_loop (w_server w') = hs_loop (w_server w)
    \<and> own_closing hs' w' \<subseteq> own_closing hs w \<and> (\<forall>i. i \<notin> own_closing hs w \<longrightarrow> w_conns w' i = w_conns w i)"
  using assms(1)
proof (cases rule: drain_step.cases)
  case (reported i status)
  then have "uv_is_closing i w" using assms(2) by (auto simp: drain_inv_def uv_is_closing_def)
  then have w': "w' = w\<lparr>w_pending := remove1 i (w_pending w)\<rparr>" "live m' = live m - 2" "hs' = hs"
    using reported by (auto simp: haze_on_write_done_def uv_is_closing_def Let_def)
  moreover have "int (length (remove1 i (w_pending w))) = int (length (w_pending w)) - 1"
    using reported length_pos_if_in_set [of i "w_pending w"] by (simp add: length_remove1 of_nat_diff Suc_le_eq)
  moreover have "set (remove1 i (w_pending w)) \<subseteq> set (w_pending w)" by (rule set_remove1_subset)
  ultimately show ?thesis
    using assms(2) by (auto simp: drain_inv_def to_release_def drain_size_def own_closing_def)
next
  case (own_close i)
  then obtain c where c: "w_conns w i = Some c" by (auto simp: haze_on_close_def split: option.splits)
  have i: "i \<in> own_closing hs w" "i \<notin> set (w_pending w)" "Connection i \<notin> set hs"
    using own_close by (auto simp: own_closing_def uv_is_closing_def)
  have w': "w' = w\<lparr>w_server := HazeServerRemoveConnection (w_server w) i, w_conns := (w_conns w)(i := None),
        w_closing := removeAll i (w_closing w)\<rparr>" "live m' = live m - conn_blocks (Some c)" "hs' = hs"
    using own_close c by (auto simp: haze_on_close_def conn_blocks_def Let_def)
  have o: "own_closing hs w' = own_closing hs w - {i}" using w'(1) by (auto simp: own_closing_def)
  have "(\<Sum>j \<in> own_closing hs w - {i}. conn_blocks (w_conns w' j)) = (\<Sum>j \<in> own_closing hs w - {i}. conn_blocks (w_conns w j))"
    using w'(1) by (intro sum.cong) auto
  then have "(\<Sum>j \<in> own_closing hs w. conn_blocks (w_conns w j)) = conn_blocks (Some c) + (\<Sum>j \<in> own_closing hs w'. conn_blocks (w_conns w' j))"
    using sum.remove [OF finite_own i(1), of "\<lambda>j. conn_blocks (w_conns w j)"] c by (simp add: o)
  moreover have "card (own_closing hs w') < card (own_closing hs w)" unfolding o by (rule card_Diff1_less [OF finite_own i(1)])
  moreover have "w_pending w' = w_pending w" using w'(1) by simp
  moreover have "drain_inv hs w'" using assms(2) i w'(1) by (auto simp: drain_inv_def)
  ultimately show ?thesis
    using w' o RemoveConnection_keeps [of "w_server w" i] i(1) by (auto simp: to_release_def drain_size_def)
next
  case (walk_close q)
  have o: "own_closing hs' w' = own_closing hs w"
    using walk_close by (cases q) (auto simp: own_closing_def forget_handle_def)
  have k: "w_conns w' = w_conns w" "w_pending w' = w_pending w" "w_server w' = w_server w"
    using walk_close by (cases q; simp add: forget_handle_def)+
  have "live m' = live m - of_bool (q = Signal)" using walk_close by (simp add: OnHandleClose_def)
  moreover have "length hs' < length hs" using walk_close by (simp add: length_removeAll_less)
  moreover have "drain_inv hs' w'"
    using assms(2) walk_close by (cases q) (auto simp: drain_inv_def forget_handle_def)
  ultimately show ?thesis using o k walk_close by (auto simp: to_release_def drain_size_def)
qed

text \<open>As long as the loop is busy there is a callback to run.\<close>

lemma drain_progress:
  assumes "drain_inv hs w" "uv_loop_busy hs w"
  shows "\<exists>st. drain_step (hs, w, m) st"
proof (cases "w_pending w = []")
  case False
  then obtain i where "i \<in> set (w_pending w)" by (cases "w_pending w") auto
  moreover obtain w' m' where "haze_on_write_done 0 i w m = (w', m')" by fastforce
  ultimately show ?thesis by (blast intro: reported)
next
  case True
  show ?thesis
  proof (cases "hs = []")
    case False
    then obtain q where "q \<in> set hs" by (cases hs) auto
    then show ?thesis using walk_close [of q hs w m] True by auto
  next
    case nil: True
    then obtain i where i: "i \<in> set (w_closing w)" using assms(2) True by (cases "w_closing w") (auto simp: uv_loop_busy_def)
    then obtain c where "w_conns w i = Some c" using assms(1) by (auto simp: drain_inv_def)
    then obtain w' m' where "haze_on_close i w m = Some (w', m')" by (auto simp: haze_on_close_def Let_def)
    then show ?thesis using own_close [of i w hs m w' m'] i True nil by (auto simp: uv_is_closing_def)
  qed
qed

text \<open>A drain that has stopped has released exactly what was to be released, and kept the connections that were open.\<close>

lemmas drain_induct = rtranclp_induct [of drain_step "(a, b, c)" "(x, y, z)", split_rule, consumes 1, case_names refl step]

lemma drain_steps_laws:
  assumes "drain_step\<^sup>*\<^sup>* (hs, w, m) (hs', w', m')" "drain_inv hs w"
  shows "drain_inv hs' w' \<and> live m' - to_release hs' w' = live m - to_release hs w
    \<and> hs_addr (w_server w') = hs_addr (w_server w) \<and> hs_loop (w_server w') = hs_loop (w_server w)
    \<and> own_closing hs' w' \<subseteq> own_closing hs w \<and> (\<forall>i. i \<notin> own_closing hs w \<longrightarrow> w_conns w' i = w_conns w i)"
  using assms
proof (induction rule: drain_induct)
  case (step hs1 w1 m1 hs2 w2 m2)
  then show ?case using drain_step_laws [OF step.hyps(2)] by auto
qed simp

lemma drain_ends:
  assumes "drain_inv hs w"
  shows "\<exists>hs' w' m'. drain_step\<^sup>*\<^sup>* (hs, w, m) (hs', w', m') \<and> \<not> uv_loop_busy hs' w'"
  using assms
proof (induction "drain_size (hs, w, m)" arbitrary: hs w m rule: less_induct)
  case less
  show ?case
  proof (cases "uv_loop_busy hs w")
    case True
    then obtain hs1 w1 m1 where 1: "drain_step (hs, w, m) (hs1, w1, m1)"
      using drain_progress [OF less.prems, of m] by (metis prod_cases3)
    with drain_step_laws [OF 1 less.prems] less.hyps [of hs1 w1 m1] show ?thesis
      by (meson converse_rtranclp_into_rtranclp)
  qed blast
qed

lemma drain_finite:
  assumes "drain_inv hs w"
  shows "\<not> (\<exists>f. f 0 = (hs, w, m) \<and> (\<forall>n. drain_step (f n) (f (Suc n))))"
proof
  assume "\<exists>f. f 0 = (hs, w, m) \<and> (\<forall>n. drain_step (f n) (f (Suc n)))"
  then obtain f where f: "f 0 = (hs, w, m)" "\<And>n. drain_step (f n) (f (Suc n))" by blast
  have "(case f n of (hs, w, m) \<Rightarrow> drain_inv hs w) \<and> drain_size (f n) + n \<le> drain_size (f 0)" for n
  proof (induction n)
    case (Suc n)
    obtain h1 w1 m1 where 1: "f n = (h1, w1, m1)" by (metis prod_cases3)
    obtain h2 w2 m2 where 2: "f (Suc n) = (h2, w2, m2)" by (metis prod_cases3)
    show ?case using drain_step_laws [of h1 w1 m1 h2 w2 m2] f(2) [of n] Suc 1 2 by auto
  qed (use f(1) assms in simp)
  from this [of "Suc (drain_size (f 0))"] show False by simp
qed

lemma walk_drain_inv:
  assumes "srv_inv w" "loop_handles armed w handles" "fold CloseWalkCb handles ([], w) = (hs, w1)"
  shows "drain_inv hs w1 \<and> own_closing hs w1 = set (w_closing w) \<and> (Signal \<in> set hs \<longleftrightarrow> armed)
    \<and> w_conns w1 = w_conns w \<and> w_pending w1 = w_pending w \<and> w_server w1 = w_server w"
proof -
  have h: "distinct handles" "set handles = insert Listener ((if armed then {Signal} else {}) \<union> Connection ` dom (w_conns w))"
    using assms(2) by (simp_all add: loop_handles_def)
  from walk_result [OF h(1) _ assms(3)] obtain cl where
    r: "hs = filter (\<lambda>q. \<not> handle_is_closing q ([], w)) handles" "w1 = w\<lparr>w_closing := cl\<rparr>"
      "set cl = set (w_closing w) \<union> {i. Connection i \<in> set handles}" by auto
  have c: "{i. Connection i \<in> set handles} = dom (w_conns w)" unfolding h(2) by (auto split: if_splits)
  have m: "Connection i \<in> set hs \<longleftrightarrow> i \<in> dom (w_conns w) \<and> i \<notin> set (w_closing w)" for i
    using c by (auto simp: r(1) handle_is_closing_def uv_is_closing_def)
  have "Signal \<in> set hs \<longleftrightarrow> armed" unfolding r(1) by (simp add: h(2) handle_is_closing_def image_iff)
  moreover have "own_closing hs w1 = set (w_closing w)"
    using assms(1) r(3) by (auto simp: own_closing_def m r(2) c srv_inv_def)
  moreover have "drain_inv hs w1"
    using assms(1) r(3) by (auto simp: drain_inv_def m r(2) c srv_inv_def)
  ultimately show ?thesis by (simp add: r(2))
qed

text \<open>What \<^verbatim>\<open>HazeServerFree\<close> releases of a server and its connections.\<close>

definition server_blocks :: "bool \<Rightarrow> world \<Rightarrow> int" where
  "server_blocks armed w = 2 * int (length (w_pending w)) + (\<Sum>i \<in> set (w_closing w). conn_blocks (w_conns w i))
     + of_bool armed + 2 + of_bool (hs_addr (w_server w) \<noteq> None)"

lemma server_free_blocks:
  assumes "srv_inv w" "loop_handles armed w handles" "hs_loop (w_server w)" "server_free handles w m m'"
  shows "live m' = live m - server_blocks armed w"
  using assms(4)
proof (cases rule: server_free.cases)
  case (1 hs w1 hs' w2 m1)
  note W = walk_drain_inv [OF assms(1,2) 1(2)]
  note D = drain_steps_laws [OF 1(3) W [THEN conjunct1]]
  have idle: "hs' = []" "w_closing w2 = []" "w_pending w2 = []" using 1(4) by (simp_all add: uv_loop_busy_def)
  then have "own_closing hs' w2 = {}" by (simp add: own_closing_def)
  then have "live m1 = live m - to_release hs w1" using D idle by (simp add: to_release_def)
  moreover have "to_release hs w1 = server_blocks armed w - 2 - of_bool (hs_addr (w_server w) \<noteq> None)"
    using W by (simp add: to_release_def server_blocks_def)
  ultimately show ?thesis
    using 1(1) D W assms(3) by (auto simp: HazeServerFree_def free_opt_live split: option.splits)
qed

lemma server_free_ends:
  assumes "srv_inv w" "loop_handles armed w handles"
  shows "\<exists>m'. server_free handles w m m'"
proof -
  obtain hs w1 where 1: "fold CloseWalkCb handles ([], w) = (hs, w1)" by fastforce
  with walk_drain_inv [OF assms 1] drain_ends [of hs w1 m] show ?thesis by (meson server_free.intros)
qed

lemma loop_handles_exist: "finite (dom (w_conns w)) \<Longrightarrow> \<exists>handles. loop_handles armed w handles"
  unfolding loop_handles_def by (metis finite_Un finite_distinct_list finite_imageI finite_insert finite.emptyI)

subsection \<open>The end of the program\<close>

lemma context_released: "ctx_wf c \<Longrightarrow> \<exists>m'. ContextFree (Some c) m = Some m' \<and> live m' = live m - ctx_blocks c"
  by (rule ContextFree_live) (auto simp: ctx_wf_def)

lemma main_serve_ends:
  assumes "HazeServerSetupSignals (Some s) m = (rc, True, m1)" "srv_step\<^sup>*\<^sup>* (idle s, m1) (w, m2)" "run_inv s w" "hs_loop s"
  shows "\<exists>m'. main_serve s m (w, m2) (0, m')"
proof -
  have I: "srv_inv w" "finite (dom (w_conns w))" "hs_loop (w_server w)" using assms(3,4) by (simp_all add: run_inv_def)
  obtain c where c: "hs_ctx (w_server w) = Some c" "ctx_wf c" using I(1) by (auto simp: srv_inv_def ctx_ok_def)
  obtain handles where h: "loop_handles True w handles" using loop_handles_exist [OF I(2)] by blast
  obtain m3 where 3: "server_free handles w m2 m3" using server_free_ends [OF I(1) h] by blast
  from context_released [OF c(2), of m3] obtain m4 where 4: "ContextFree (Some c) m3 = Some m4" by auto
  have "HazeServerRun True (Some (idle s)) m1 (Some w) m2" using HazeServerRun_iff [of True w] I(3) assms(2) by simp
  from main_serve.intros [OF assms(1) this h 3] 4 c(1) show ?thesis by auto
qed

lemma main_serve_armed:
  assumes "HazeServerSetupSignals (Some s) m = (rc, armed, m1)" "main_serve s m (w, m2) (code, m')"
    "run_inv s (idle s)" "hs_loop s"
  shows "armed \<and> code = 0 \<and> srv_step\<^sup>*\<^sup>* (idle s, m1) (w, m2) \<and> (\<exists>c. hs_ctx (w_server w) = Some c
      \<and> live m' = live m2 - server_blocks True w - ctx_blocks c)"
  using assms(2)
proof (cases rule: main_serve.cases)
  case (1 rc' armed' m1' handles m3)
  have a: "armed' = armed" "m1' = m1" using 1(2) assms(1) by simp_all
  with 1(3) have A: "armed" using HazeServerRun_unarmed by (cases armed) auto
  have r: "srv_step\<^sup>*\<^sup>* (idle s, m1) (w, m2)"
    using 1(3) a loop_steps_srv by (cases rule: HazeServerRun.cases) fastforce
  then have I: "srv_inv w" "hs_loop (w_server w)" using run_inv_steps [OF r] assms(3,4) by (simp_all add: run_inv_def)
  then obtain c where c: "hs_ctx (w_server w) = Some c" "ctx_wf c" by (auto simp: srv_inv_def ctx_ok_def)
  from context_released [OF c(2), of m3] 1(6) c(1) have "live m' = live m3 - ctx_blocks c" by auto
  with server_free_blocks [OF I(1) 1(4) I(2) 1(5)] r c(1) A a 1(1) show ?thesis by auto
qed

text \<open>
  C20: A signal ends the program from every state its server can get into. When the signal handle could be allocated, the
  states the loop can stop in are exactly those the callbacks lead to; from each of them the loop that closes the handles
  comes to an end in whatever order the callbacks run, \<^verbatim>\<open>main\<close> returns, and between the stop and the return it releases
  exactly the context, the server with its address, loop and signal handle, the writes on their way and the connections
  whose close had been requested before. So the connections that are open then, their buffers and the connection table
  stay allocated. When the signal handle could not be allocated, which \<^verbatim>\<open>main\<close> does not check, nothing ends the program.
\<close>

theorem signal_ends_the_program:
  assumes "hs_connections s = []" "hs_conn_cap s = 0" "hs_ctx s = Some c" "ctx_wf c" "hs_loop s"
    and "HazeServerSetupSignals (Some s) m = (rc, armed, m1)"
  shows "if armed
    then (\<forall>w m2.
           ((\<exists>r. main_serve s m (w, m2) r) \<longleftrightarrow> srv_step\<^sup>*\<^sup>* (idle s, m1) (w, m2))
         \<and> (\<forall>code m'. main_serve s m (w, m2) (code, m') \<longrightarrow>
              (\<exists>c'. hs_ctx (w_server w) = Some c' \<and> live m' = live m2 - server_blocks True w - ctx_blocks c'))
         \<and> (\<forall>handles hs w1. srv_step\<^sup>*\<^sup>* (idle s, m1) (w, m2) \<and> loop_handles True w handles
                \<and> fold CloseWalkCb handles ([], w) = (hs, w1) \<longrightarrow>
              \<not> (\<exists>f. f 0 = (hs, w1, m2) \<and> (\<forall>n. drain_step (f n) (f (Suc n))))))
    else \<not> (\<exists>st r. main_serve s m st r)"
proof -
  have I: "run_inv s (idle s)" using run_inv_idle assms(1-4) by blast
  have R: "run_inv s w" if "srv_step\<^sup>*\<^sup>* (idle s, m1) (w, m2)" for w m2
    using run_inv_steps [OF that] I by simp
  note E = main_serve_armed [OF assms(6) _ I assms(5)]
  have fin: "\<not> (\<exists>f. f 0 = (hs, w1, m2) \<and> (\<forall>n. drain_step (f n) (f (Suc n))))"
    if "srv_step\<^sup>*\<^sup>* (idle s, m1) (w, m2) \<and> loop_handles True w handles \<and> fold CloseWalkCb handles ([], w) = (hs, w1)"
    for w m2 handles hs w1
    by (rule drain_finite) (use that walk_drain_inv [of w True handles hs w1] R [of w m2] in \<open>simp add: run_inv_def\<close>)
  show ?thesis
  proof (cases armed)
    case True
    have "\<exists>r. main_serve s m (w, m2) r" if "srv_step\<^sup>*\<^sup>* (idle s, m1) (w, m2)" for w m2
      using main_serve_ends [of s m rc m1 w m2] that R [of w m2] assms(5,6) True by auto
    moreover have "srv_step\<^sup>*\<^sup>* (idle s, m1) (w, m2)" if "main_serve s m (w, m2) r" for w m2 r
      using E [of w m2 "fst r" "snd r"] that by simp
    ultimately have "(\<exists>r. main_serve s m (w, m2) r) \<longleftrightarrow> srv_step\<^sup>*\<^sup>* (idle s, m1) (w, m2)" for w m2
      by metis
    moreover have "\<exists>c'. hs_ctx (w_server w) = Some c' \<and> live m' = live m2 - server_blocks True w - ctx_blocks c'"
      if "main_serve s m (w, m2) (code, m')" for w m2 code m'
      using E [OF that] by blast
    ultimately show ?thesis unfolding if_P [OF True] using fin by (intro allI conjI impI) assumption+
  next
    case False
    then have "\<not> main_serve s m st r" for st r using E [of "fst st" "snd st" "fst r" "snd r"] by auto
    then show ?thesis using False by simp
  qed
qed

theorem signal_ends_the_program_witness:
  "\<exists>w m2. (\<exists>r. main_serve (w_server fresh_world) \<lparr>outcomes = [], live = 17\<rparr> (w, m2) r)
    \<and> dom (w_conns w) = {5} \<and> live m2 = 20
    \<and> (\<forall>code m'. main_serve (w_server fresh_world) \<lparr>outcomes = [], live = 17\<rparr> (w, m2) (code, m') \<longrightarrow> live m' = 16 - ctx_blocks demo_ctx)"
proof -
  let ?s = "w_server fresh_world" and ?m1 = "\<lparr>outcomes = [], live = 18\<rparr> :: mem"
  obtain w m2 where 1: "haze_on_connect willing_uv 0 5 (idle ?s) ?m1 = (w, m2)" by fastforce
  have st: "srv_step\<^sup>*\<^sup>* (idle ?s, ?m1) (w, m2)"
    using srv_step.connect [OF _ 1] by (simp add: idle_def r_into_rtranclp)
  have w: "live m2 = 20" "server_blocks True w = 4" "hs_ctx (w_server w) = Some demo_ctx" "dom (w_conns w) = {5}"
    using 1 by (auto simp: haze_on_connect_def HazeServerAddConnection_def malloc_def realloc_def willing_uv_def put_conn_def
        idle_def fresh_world_def server_blocks_def mem_add_def split: if_splits)
  have s: "hs_connections ?s = []" "hs_conn_cap ?s = 0" "hs_ctx ?s = Some demo_ctx" "hs_loop ?s"
    by (simp_all add: fresh_world_def)
  have sig: "HazeServerSetupSignals (Some ?s) \<lparr>outcomes = [], live = 17\<rparr> = (0, True, ?m1)"
    by (simp add: HazeServerSetupSignals_def malloc_def mem_add_def)
  note T = spec [OF spec [OF signal_ends_the_program [OF s(1-3) demo_ctx_wf s(4) sig, unfolded if_True], of w], of m2]
  have "\<exists>r. main_serve ?s \<lparr>outcomes = [], live = 17\<rparr> (w, m2) r" using T st by simp
  moreover have "live m' = 16 - ctx_blocks demo_ctx" if "main_serve ?s \<lparr>outcomes = [], live = 17\<rparr> (w, m2) (code, m')" for code m'
    using conjunct1 [OF conjunct2 [OF T]] that w by auto
  ultimately show ?thesis using w by blast
qed

end
