(* ===== verification/Haze_Trace.thy ===== *)
theory Haze_Trace
  imports Haze_Interfaces Haze_Stream Haze_Run
begin

text \<open>
  Whole runs of the server: any number of clients that connect, send bytes, are answered and leave, in any order. A run
  is a list of events; the server is a simulation of the abstract service, and every block of memory is accounted for.
\<close>

subsection \<open>Events\<close>

text \<open>
  What the event loop reports: a new client (with a status), bytes of a client, whatever they are, a read without bytes (an
  error, the end of the stream, or nothing to read), a hang-up, a completed write and a completed close.
\<close>

datatype event =
    Connect int nat
  | Bytes nat "byte list"
  | No_data nat int
  | Hang_up nat int
  | Written nat int
  | Closed nat

definition run_read :: "host \<Rightarrow> uv \<Rightarrow> nat \<Rightarrow> int \<Rightarrow> byte list \<Rightarrow> world \<times> mem \<Rightarrow> (world \<times> mem) option" where
  "run_read h u i nread data st =
     (let (base, len, m) = haze_on_alloc 65536 (snd st) in haze_on_read h u i nread base data (fst st) m)"

fun run_event :: "host \<Rightarrow> uv \<Rightarrow> event \<Rightarrow> world \<times> mem \<Rightarrow> (world \<times> mem) option" where
  "run_event h u (Connect status i) st = Some (haze_on_connect u status i (fst st) (snd st))"
| "run_event h u (Bytes i bs) st = run_read h u i (int (length bs)) bs st"
| "run_event h u (No_data i nread) st = run_read h u i nread [] st"
| "run_event h u (Hang_up i nread) st = haze_on_read h u i nread False [] (fst st) (snd st)"
| "run_event h u (Written i status) st = Some (haze_on_write_done status i (fst st) (snd st))"
| "run_event h u (Closed i) st = haze_on_close i (fst st) (snd st)"

text \<open>What libuv reports when: the premises of \<open>srv_step\<close>, and no more bytes than the block of 65536 it was given has.\<close>

fun may_happen :: "event \<Rightarrow> world \<times> mem \<Rightarrow> bool" where
  "may_happen (Connect status i) st \<longleftrightarrow> w_conns (fst st) i = None"
| "may_happen (Bytes i bs) st \<longleftrightarrow> w_conns (fst st) i \<noteq> None \<and> \<not> uv_is_closing i (fst st) \<and> bs \<noteq> [] \<and> length bs \<le> 65536"
| "may_happen (No_data i nread) st \<longleftrightarrow> w_conns (fst st) i \<noteq> None \<and> \<not> uv_is_closing i (fst st) \<and> nread \<le> 0"
| "may_happen (Hang_up i nread) st \<longleftrightarrow> w_conns (fst st) i \<noteq> None \<and> \<not> uv_is_closing i (fst st) \<and> nread < 0"
| "may_happen (Written i status) st \<longleftrightarrow> i \<in> set (w_pending (fst st))"
| "may_happen (Closed i) st \<longleftrightarrow> uv_is_closing i (fst st) \<and> i \<notin> set (w_pending (fst st))"

text \<open>Every event is a step of the loop.\<close>

lemma run_event_steps:
  assumes "run_event h u e st = Some st'" "may_happen e st" "nofail (snd st)"
  shows "srv_step st st'"
proof -
  obtain w m where st: "st = (w, m)" by fastforce
  have R: "srv_step st st'"
    if "run_read h u i nread data st = Some st'" "w_conns (fst st) i \<noteq> None" "\<not> uv_is_closing i (fst st)"
      "nread \<le> 65536" "0 < nread \<longrightarrow> nread = int (length data)" for i nread data
  proof -
    have a: "haze_on_alloc 65536 m = (True, 65536, mem_add 1 m)"
      using assms(3) by (simp add: st haze_on_alloc_def malloc_nofail to_u32_def)
    show ?thesis
      unfolding st using that a
      by (intro srv_step.read [OF _ _ a, of w i nread data h u]) (simp_all add: st run_read_def)
  qed
  show ?thesis
  proof (cases e)
    case (Connect status i)
    then show ?thesis using assms(1,2) by (auto simp: st intro: srv_step.connect)
  next
    case (Bytes i bs)
    then show ?thesis using assms(1,2) by (intro R [of i "int (length bs)" bs]) auto
  next
    case (No_data i nread)
    then show ?thesis using assms(1,2) by (intro R [of i nread "[]"]) simp_all
  next
    case (Hang_up i nread)
    then show ?thesis using assms(1,2) by (auto simp: st intro: srv_step.hang_up)
  next
    case (Written i status)
    then show ?thesis using assms(1,2) by (auto simp: st intro: srv_step.write_done)
  next
    case (Closed i)
    then show ?thesis using assms(1,2) by (auto simp: st intro: srv_step.close)
  qed
qed

subsection \<open>Where the blocks are\<close>

text \<open>
  The blocks that belong to something: the context, the connections with their buffers, the two blocks of each write on its
  way, the connection table. \<open>unowned\<close> is what is allocated beyond them.
\<close>

definition conns_blocks :: "(nat \<Rightarrow> HazeConn option) \<Rightarrow> int" where
  "conns_blocks f = (\<Sum>i \<in> dom f. conn_blocks (f i))"

definition owned :: "world \<Rightarrow> int" where
  "owned w = (case hs_ctx (w_server w) of None \<Rightarrow> 0 | Some c \<Rightarrow> ctx_blocks c) + conns_blocks (w_conns w)
     + 2 * int (length (w_pending w)) + of_bool (hs_conn_alloc (w_server w))"

definition unowned :: "world \<times> mem \<Rightarrow> int" where
  "unowned st = live (snd st) - owned (fst st)"

lemma conn_blocks_simps [simp]: "conn_blocks None = 0" "conn_blocks (Some c) = 1 + of_bool (cn_alloc c)"
  by (simp_all add: conn_blocks_def)

lemma conns_blocks_upd [simp]:
  assumes "finite (dom f)"
  shows "conns_blocks (f(i := x)) = conns_blocks f - conn_blocks (f i) + conn_blocks x"
proof -
  have e: "conns_blocks g = (\<Sum>j \<in> dom f \<union> {i}. conn_blocks (g j))" if "dom g \<subseteq> dom f \<union> {i}" for g
    unfolding conns_blocks_def using assms that by (intro sum.mono_neutral_left) (auto simp: domIff)
  have "(\<Sum>j \<in> dom f \<union> {i}. conn_blocks ((f(i := x)) j)) =
      conn_blocks x + (\<Sum>j \<in> (dom f \<union> {i}) - {i}. conn_blocks ((f(i := x)) j))"
    using assms by (subst sum.remove [of _ i]) auto
  moreover have "(\<Sum>j \<in> dom f \<union> {i}. conn_blocks (f j)) = conn_blocks (f i) + (\<Sum>j \<in> (dom f \<union> {i}) - {i}. conn_blocks (f j))"
    using assms by (subst sum.remove [of _ i]) auto
  moreover have "(\<Sum>j \<in> (dom f \<union> {i}) - {i}. conn_blocks ((f(i := x)) j)) = (\<Sum>j \<in> (dom f \<union> {i}) - {i}. conn_blocks (f j))"
    by (intro sum.cong) auto
  moreover have "dom f \<subseteq> dom f \<union> {i}" "dom (f(i := x)) \<subseteq> dom f \<union> {i}" by auto
  ultimately show ?thesis using e by simp
qed

lemma connect_unowned:
  assumes "nofail m" "w_conns w i = None" "finite (dom (w_conns w))" "haze_on_connect u status i w m = (w', m')"
  shows "unowned (w', m') = unowned (w, m)" "nofail m'" "hs_ctx (w_server w') = hs_ctx (w_server w)" "w_written w' = w_written w"
  using assms
  by (auto simp: haze_on_connect_def HazeServerAddConnection_def alloc_simps put_conn_def uv_close_def unowned_def owned_def
      Let_def split: if_splits option.splits)

lemma written_unowned:
  assumes "nofail m" "i \<in> set (w_pending w)" "haze_on_write_done status i w m = (w', m')"
  shows "unowned (w', m') = unowned (w, m)" "nofail m'" "hs_ctx (w_server w') = hs_ctx (w_server w)" "w_written w' = w_written w"
  using assms length_pos_if_in_set [OF assms(2)]
  by (auto simp: haze_on_write_done_def uv_close_def unowned_def owned_def length_remove1 of_nat_diff Suc_le_eq Let_def
      split: if_splits option.splits)

lemma closed_unowned:
  assumes "nofail m" "finite (dom (w_conns w))" "haze_on_close i w m = Some (w', m')"
  shows "unowned (w', m') = unowned (w, m)" "nofail m'" "hs_ctx (w_server w') = hs_ctx (w_server w)" "w_written w' = w_written w"
  using assms
  by (auto simp: haze_on_close_def HazeServerRemoveConnection_def unowned_def owned_def Let_def split: option.splits)

lemma no_data_unowned:
  assumes "nofail m" "nread \<le> 0" "w_conns w i \<noteq> None" "run_read h u i nread [] (w, m) = Some (w', m')"
  shows "unowned (w', m') = unowned (w, m)" "nofail m'" "hs_ctx (w_server w') = hs_ctx (w_server w)" "w_written w' = w_written w"
  using assms
  by (auto simp: run_read_def haze_on_alloc_def haze_on_read_def alloc_simps uv_close_def unowned_def owned_def
      split: option.splits if_splits)

lemma hang_up_unowned:
  assumes "nofail m" "nread < 0" "haze_on_read h u i nread False [] w m = Some (w', m')"
  shows "unowned (w', m') = unowned (w, m)" "nofail m'" "hs_ctx (w_server w') = hs_ctx (w_server w)" "w_written w' = w_written w"
  using assms by (auto simp: haze_on_read_def uv_close_def unowned_def owned_def split: option.splits)

subsection \<open>The server is a simulation of the service\<close>

text \<open>
  The abstract service: its state, what it has sent to whom, the blocks its requests have left behind, and the blocks it has
  handed to the job queue. It serves the requests the decoder reads in the bytes.
\<close>

record service =
  sv_view :: view
  sv_sent :: "(nat \<times> byte list) list"
  sv_lost :: int
  sv_queued :: int

fun service_event ::
  "host \<Rightarrow> (JobQueue option \<Rightarrow> Job \<Rightarrow> JobQueue option) \<Rightarrow> event \<Rightarrow> service \<Rightarrow> service" where
  "service_event h enq (Bytes i bs) a =
     (let rqs = fst (read_requests bs);
          (out, v) = serve h enq i (sv_view a) rqs
      in \<lparr>sv_view = v, sv_sent = sv_sent a @ map (Pair i) out, sv_lost = sv_lost a + sum_list (map request_leak rqs),
          sv_queued = sv_queued a + queued h enq i (sv_view a) rqs\<rparr>)"
| "service_event h enq _ a = a"

definition simulates ::
  "host \<Rightarrow> (JobQueue option \<Rightarrow> Job \<Rightarrow> JobQueue option) \<Rightarrow> uv \<Rightarrow> world \<times> mem \<Rightarrow> service \<Rightarrow> bool" where
  "simulates h enq u st a \<longleftrightarrow> pushes h enq \<and> uv_writes u
     \<and> srv_inv (fst st) \<and> finite (dom (w_conns (fst st))) \<and> nofail (snd st)
     \<and> (\<exists>c. hs_ctx (w_server (fst st)) = Some c \<and> ctx_view c = sv_view a) \<and> length (v_name (sv_view a)) < 2 ^ 30
     \<and> w_written (fst st) = sv_sent a \<and> unowned st = sv_lost a + sv_queued a"

lemma simulates_keeps:
  assumes "simulates h enq u st a" "run_event h u e st = Some st'" "may_happen e st"
  shows "srv_inv (fst st')" "finite (dom (w_conns (fst st')))"
proof -
  have "srv_step\<^sup>*\<^sup>* st st'" using run_event_steps [OF assms(2,3)] assms(1) by (simp add: simulates_def r_into_rtranclp)
  moreover have "run_inv (w_server (fst st)) (fst st)" using assms(1) by (simp add: simulates_def run_inv_def)
  ultimately have "run_inv (w_server (fst st)) (fst st')" by (rule run_inv_steps)
  then show "srv_inv (fst st')" "finite (dom (w_conns (fst st')))" by (simp_all add: run_inv_def)
qed

lemma read_requests_rest: "length (snd (read_requests bs)) \<le> length bs"
proof (induction bs rule: read_requests.induct)
  case (1 bs)
  then show ?case
    using read_request_suffix [of bs]
    by (subst read_requests.simps) (fastforce split: option.split prod.split)
qed

lemma bytes_simulated:
  assumes "simulates h enq u (w, m) a" "may_happen (Bytes i bs) (w, m)"
  shows "\<exists>w' m'. run_event h u (Bytes i bs) (w, m) = Some (w', m')
    \<and> nofail m' \<and> w_closing w' = hung_up (snd (read_requests bs)) i (w_closing w) \<and> dom (w_conns w') = dom (w_conns w)
    \<and> (let a' = service_event h enq (Bytes i bs) a in
        (\<exists>c. hs_ctx (w_server w') = Some c \<and> ctx_view c = sv_view a') \<and> length (v_name (sv_view a')) < 2 ^ 30
        \<and> w_written w' = sv_sent a' \<and> unowned (w', m') = sv_lost a' + sv_queued a')"
proof -
  obtain c where c: "hs_ctx (w_server w) = Some c" "ctx_view c = sv_view a" using assms(1) by (auto simp: simulates_def)
  obtain conn where conn: "w_conns w i = Some conn" using assms(2) by auto
  obtain rqs g where p: "read_requests bs = (rqs, g)" by fastforce
  obtain out v where s: "serve h enq i (ctx_view c) rqs = (out, v)" by fastforce
  have len: "bs \<noteq> []" "length bs < 2 ^ 63" "length g \<le> 4 * 1024 * 1024"
    using assms(2) read_requests_rest [of bs] p by auto
  have S: "srv_inv w" "finite (dom (w_conns w))" "nofail m" "pushes h enq" "uv_writes u"
      "length (v_name (ctx_view c)) < 2 ^ 30" "w_written w = sv_sent a" "unowned (w, m) = sv_lost a + sv_queued a"
    using assms(1) c(2) by (simp_all add: simulates_def)
  have M: "\<not> uv_is_closing i w" using assms(2) by simp
  have n: "nofail (mem_add 1 m)" using S(3) by simp
  obtain w' m' c' conn' where r: "haze_on_read h u i (int (length bs)) True bs w (mem_add 1 m) = Some (w', m')"
      "w_written w' = w_written w @ map (Pair i) out" "w_pending w' = w_pending w @ replicate (length out) i"
      "w_conns w' = (w_conns w)(i \<mapsto> conn')" "w_closing w' = hung_up g i (w_closing w)" "(w_server w')\<lparr>hs_ctx := None\<rparr> = (w_server w)\<lparr>hs_ctx := None\<rparr>"
      "hs_ctx (w_server w') = Some c'" "ctx_view c' = v" "v_name v = v_name (ctx_view c)" "nofail m'"
      "live m' - ctx_blocks c' - of_bool (cn_alloc conn') + 1 =
         live (mem_add 1 m) - ctx_blocks c - of_bool (cn_alloc conn) + sum_list (map request_leak rqs)
           + queued h enq i (ctx_view c) rqs + 2 * int (length out)"
    using stream_read [OF S(1) conn M(1) c(1) p S(4,5) n S(6) s len] by blast
  have "hs_conn_alloc (w_server w') = hs_conn_alloc (w_server w)"
    using r(6) by (cases "w_server w'"; cases "w_server w") simp
  then have "unowned (w', m') = unowned (w, m) + sum_list (map request_leak rqs) + queued h enq i (ctx_view c) rqs"
    using r(3,4,7,11) c(1) conn S(2) by (auto simp: unowned_def owned_def)
  moreover have "run_event h u (Bytes i bs) (w, m) = Some (w', m')"
    using r(1) S(3) by (simp add: run_read_def haze_on_alloc_def malloc_nofail)
  ultimately show ?thesis
    using r c(2) s S(6-8) conn p by (simp add: Let_def insert_absorb domI)
qed

interpretation service: simulation may_happen "run_event h u" "service_event h enq" "simulates h enq u" for h enq u
proof
  fix st a e
  assume sim: "simulates h enq u st a" and may: "may_happen e st"
  obtain w m where st: "st = (w, m)" by fastforce
  have S: "nofail m" "finite (dom (w_conns w))" using sim by (simp_all add: simulates_def st)
  have idle: "\<exists>st'. run_event h u e st = Some st' \<and> simulates h enq u st' a"
    if "run_event h u e st = Some (w', m')" "unowned (w', m') = unowned (w, m)" "nofail m'"
      "hs_ctx (w_server w') = hs_ctx (w_server w)" "w_written w' = w_written w" for w' m'
    using that sim simulates_keeps [OF sim that(1) may] by (auto simp: simulates_def st)
  show "\<exists>st'. run_event h u e st = Some st' \<and> simulates h enq u st' (service_event h enq e a)"
  proof (cases e)
    case (Connect status i)
    obtain w' m' where 1: "haze_on_connect u status i w m = (w', m')" by fastforce
    have "w_conns w i = None" using may Connect by (simp add: st)
    from connect_unowned [OF S(1) this S(2) 1] 1 show ?thesis
      using Connect idle [of w' m'] by (simp add: st)
  next
    case (Bytes i bs)
    from bytes_simulated [of h enq u w m a i bs] sim may Bytes
    obtain w' m' where 1: "run_event h u e st = Some (w', m')" "nofail m'"
      "let a' = service_event h enq e a in
        (\<exists>c. hs_ctx (w_server w') = Some c \<and> ctx_view c = sv_view a') \<and> length (v_name (sv_view a')) < 2 ^ 30
        \<and> w_written w' = sv_sent a' \<and> unowned (w', m') = sv_lost a' + sv_queued a'"
      by (auto simp: st simp del: service_event.simps run_event.simps)
    then have "simulates h enq u (w', m') (service_event h enq e a)"
      using simulates_keeps [OF sim 1(1) may] sim by (simp add: simulates_def Let_def)
    with 1(1) show ?thesis by blast
  next
    case (No_data i nread)
    have no: "nread \<le> 0" "w_conns w i \<noteq> None" using may No_data by (simp_all add: st)
    have "run_read h u i nread [] (w, m) \<noteq> None"
      using no S(1) by (auto simp: run_read_def haze_on_alloc_def haze_on_read_def malloc_nofail)
    then obtain w' m' where 1: "run_read h u i nread [] (w, m) = Some (w', m')" by auto
    from no_data_unowned [OF S(1) no 1] 1 show ?thesis
      using No_data idle [of w' m'] by (simp add: st)
  next
    case (Hang_up i nread)
    have no: "nread < 0" "w_conns w i \<noteq> None" using may Hang_up by (simp_all add: st)
    obtain w' m' where 1: "haze_on_read h u i nread False [] w m = Some (w', m')"
      using no by (auto simp: haze_on_read_def split: option.splits)
    from hang_up_unowned [OF S(1) no(1) 1] 1 show ?thesis
      using Hang_up idle [of w' m'] by (simp add: st)
  next
    case (Written i status)
    obtain w' m' where 1: "haze_on_write_done status i w m = (w', m')" by fastforce
    have "i \<in> set (w_pending w)" using may Written by (simp add: st)
    from written_unowned [OF S(1) this 1] 1 show ?thesis
      using Written idle [of w' m'] by (simp add: st)
  next
    case (Closed i)
    have "set (w_closing w) \<subseteq> dom (w_conns w)" using sim by (simp add: simulates_def st srv_inv_def)
    then obtain conn where "w_conns w i = Some conn" using may Closed by (auto simp: st uv_is_closing_def)
    then obtain w' m' where 1: "haze_on_close i w m = Some (w', m')" by (auto simp: haze_on_close_def Let_def)
    from closed_unowned [OF S 1] 1 show ?thesis
      using Closed idle [of w' m'] by (simp add: st)
  qed
qed

subsection \<open>Whole runs\<close>

definition service_at :: "Context \<Rightarrow> world \<times> mem \<Rightarrow> service" where
  "service_at c st = \<lparr>sv_view = ctx_view c, sv_sent = w_written (fst st), sv_lost = unowned st, sv_queued = 0\<rparr>"

fun requests_of :: "event list \<Rightarrow> request list" where
  "requests_of [] = []"
| "requests_of (Bytes i bs # es) = fst (read_requests bs) @ requests_of es"
| "requests_of (_ # es) = requests_of es"

lemma service_events_lost:
  "sv_lost (fold (service_event h enq) es a) = sv_lost a + sum_list (map request_leak (requests_of es))"
  by (induction es arbitrary: a rule: requests_of.induct) (auto simp: Let_def split: prod.split)

lemma started_simulates:
  assumes "started w" "hs_ctx (w_server w) = Some c" "uv_writes u" "pushes h enq" "nofail m" "length (v_name (ctx_view c)) < 2 ^ 30"
  shows "simulates h enq u (w, m) (service_at c (w, m))"
  using assms reachable_inv [OF rtranclp.rtrancl_refl, of "(w, m)"]
  by (simp add: simulates_def service_at_def started_def)

lemma run_simulated:
  assumes "started w" "hs_ctx (w_server w) = Some c" "uv_writes u" "pushes h enq" "nofail m" "length (v_name (ctx_view c)) < 2 ^ 30"
    and "allowed may_happen (run_event h u) es (w, m)"
  shows "\<exists>w' m'. play (run_event h u) es (w, m) = Some (w', m')
    \<and> simulates h enq u (w', m') (fold (service_event h enq) es (service_at c (w, m)))"
  using service.run_law [OF started_simulates [OF assms(1-6)] assms(7)] by auto

lemma play_steps:
  assumes "play (run_event h u) es st = Some st'" "allowed may_happen (run_event h u) es st" "simulates h enq u st a"
  shows "srv_step\<^sup>*\<^sup>* st st'"
  using assms
proof (induction es arbitrary: st a)
  case (Cons e es)
  then obtain s1 where 1: "run_event h u e st = Some s1" "play (run_event h u) es s1 = Some st'" "may_happen e st"
      "allowed may_happen (run_event h u) es s1"
    by (auto split: option.splits bind_splits)
  moreover have "simulates h enq u s1 (service_event h enq e a)"
    using service.step_law [OF Cons.prems(3) 1(3)] 1(1) by simp
  moreover have "srv_step st s1" using run_event_steps [OF 1(1,3)] Cons.prems(3) by (simp add: simulates_def)
  ultimately show ?case using Cons.IH by (meson converse_rtranclp_into_rtranclp)
qed simp

text \<open>
  Two clients of the demo server: both connect, one pings and imports a sample in one read, the other removes a sample and
  sends bytes that are no request.
\<close>

definition ping_request :: request where "ping_request = (7, cstr ''test/ping'', [])"
definition import_request :: request where "import_request = (9, cstr ''samplelist/import'', [MStr (cstr ''a.wav'')])"
definition remove_request :: request where "remove_request = (8, cstr ''samplelist/remove'', [MStr (cstr ''kick.wav'')])"

definition two_clients :: "event list" where
  "two_clients = [Connect 0 5, Connect 0 6, Bytes 6 (wire_request ping_request @ wire_request import_request),
     Bytes 5 (wire_request remove_request @ [0xc0])]"

abbreviation demo_mem :: mem where "demo_mem \<equiv> \<lparr>outcomes = [], live = 40\<rparr>"

lemma demo_names:
  "until_nul (cstr ''test/ping'') = cstr ''test/ping''" "until_nul (cstr ''samplelist/remove'') = cstr ''samplelist/remove''"
  "until_nul (cstr ''samplelist/import'') = cstr ''samplelist/import''"
  "until_nul (cstr ''kick.wav'') = cstr ''kick.wav''" "until_nul (cstr ''a.wav'') = cstr ''a.wav''"
  by (simp_all add: no_nul_def cstr_def)

lemma demo_requests:
  "good_request ping_request" "good_request import_request" "good_request remove_request"
  "length (wire_request ping_request) + length (wire_request import_request) \<le> 65536"
  "length (wire_request remove_request) < 65536"
  "request_leak ping_request = 0" "request_leak import_request = 2" "request_leak remove_request = 2"
  by (simp_all add: ping_request_def import_request_def remove_request_def good_request_def wire_request_def enc_arr_head_def
      enc_int_def enc_str_head_def request_leak_def param_leak_def cstr_def)

lemma demo_ready:
  "hs_ctx (w_server fresh_world) = Some demo_ctx" "uv_writes willing_uv" "pushes plain_host enqueue" "nofail demo_mem"
  "length (v_name (ctx_view demo_ctx)) < 2 ^ 30"
  by (simp_all add: fresh_world_def uv_writes_def willing_uv_def plain_host_pushes nofail_def ctx_view_def demo_ctx_def
      SessionGetName_def cstr_def)

lemma demo_read:
  "read_requests (wire_request ping_request @ wire_request import_request) = ([ping_request, import_request], [])"
  "read_requests (wire_request remove_request @ [0xc0]) = ([remove_request], [0xc0])"
proof -
  have "read_request [0xc0] = None"
    using read_tag_simple(1) [of "[]"] by (simp add: read_request_def mpack_reader_init_data_def)
  then show "read_requests (wire_request remove_request @ [0xc0]) = ([remove_request], [0xc0])"
    using read_requests_wire [of "[remove_request]" "[0xc0]"] demo_requests(3) by simp
  show "read_requests (wire_request ping_request @ wire_request import_request) = ([ping_request, import_request], [])"
    using read_requests_wire [of "[ping_request, import_request]" "[]"] demo_requests(1,2) by simp
qed

lemma two_clients_allowed:
  assumes "nofail m"
  shows "allowed may_happen (run_event plain_host willing_uv) two_clients (fresh_world, m)"
proof -
  note sim0 = started_simulates [OF fresh_started demo_ready(1-3) assms demo_ready(5)]
  let ?b6 = "wire_request ping_request @ wire_request import_request" and ?b5 = "wire_request remove_request @ [0xc0]"
  obtain w1 m1 where 1: "haze_on_connect willing_uv 0 5 fresh_world m = (w1, m1)" by fastforce
  have w1: "w_conns w1 6 = None" "w_conns w1 5 \<noteq> None" "w_closing w1 = []" "nofail m1"
    using 1 assms by (auto simp: haze_on_connect_def malloc_nofail willing_uv_def fresh_world_def put_conn_def
        HazeServerAddConnection_def realloc_nofail)
  obtain w2 m2 where 2: "haze_on_connect willing_uv 0 6 w1 m1 = (w2, m2)" by fastforce
  have w2: "w_conns w2 6 \<noteq> None" "w_conns w2 5 \<noteq> None" "w_closing w2 = []"
    using 2 w1 by (auto simp: haze_on_connect_def malloc_nofail willing_uv_def put_conn_def HazeServerAddConnection_def
        realloc_nofail Let_def split: if_splits prod.splits)
  have sim1: "simulates plain_host enqueue willing_uv (w1, m1) (service_at demo_ctx (fresh_world, m))"
    using service.step_law [OF sim0, of "Connect 0 5"] 1 by (simp add: fresh_world_def)
  have sim2: "simulates plain_host enqueue willing_uv (w2, m2) (service_at demo_ctx (fresh_world, m))"
    using service.step_law [OF sim1, of "Connect 0 6"] 2 w1 by simp
  have may: "may_happen (Bytes 6 ?b6) (w2, m2)"
    using w2 demo_requests(4) wire_request_ne by (simp add: uv_is_closing_def)
  obtain w3 m3 where 3: "run_event plain_host willing_uv (Bytes 6 ?b6) (w2, m2) = Some (w3, m3)"
      "w_closing w3 = hung_up (snd (read_requests ?b6)) 6 (w_closing w2)" "dom (w_conns w3) = dom (w_conns w2)"
    using bytes_simulated [OF sim2 may] by blast
  have "w_conns w3 5 \<noteq> None" using 3(3) w2(2) by (auto simp: dom_def set_eq_iff)
  then have "may_happen (Bytes 5 ?b5) (w3, m3)"
    using 3(2) w2(3) demo_requests(5) demo_read by (simp add: uv_is_closing_def hung_up_def)
  with 1 2 3(1) may w1(1) show ?thesis
    by (simp add: two_clients_def fresh_world_def del: may_happen.simps(2) run_event.simps(2) split: option.split)
qed

lemma demo_view:
  "v_name (ctx_view demo_ctx) = cstr ''gizmo_silly''" "v_samples (ctx_view demo_ctx) = [(cstr ''kick.wav'', []), (cstr ''hat.wav'', [])]"
  by (simp_all add: ctx_view_def demo_ctx_def SessionGetName_def sl_view_def sl_list_def blank_sample_def sample_name_def)

lemma demo_ne:
  "cstr ''samplelist/remove'' \<noteq> cstr ''test/ping''" "cstr ''samplelist/remove'' \<noteq> cstr ''session/create''"
  "cstr ''samplelist/remove'' \<noteq> cstr ''session/get_name''" "cstr ''samplelist/remove'' \<noteq> cstr ''session/get_working_time''"
  "cstr ''samplelist/remove'' \<noteq> cstr ''samplelist/import''" "cstr ''samplelist/import'' \<noteq> cstr ''test/ping''"
  "cstr ''samplelist/import'' \<noteq> cstr ''session/create''" "cstr ''samplelist/import'' \<noteq> cstr ''session/get_name''"
  "cstr ''samplelist/import'' \<noteq> cstr ''session/get_working_time''" "cstr ''kick.wav'' \<noteq> []"
  by (simp_all add: cstr_def)

text \<open>What the service makes of the three requests, in any state with those samples.\<close>

lemma demo_serves:
  "serve1 plain_host enqueue conn v ping_request = (Reply MNil (MStr (cstr ''pong!'')), view_orphaned v)"
  "fst (serve1 plain_host enqueue conn v import_request) = Queued (JobInit 9 JOB_SAMPLELIST_ADD conn (In_request (cstr ''a.wav'')))"
  "v_samples (snd (serve1 plain_host enqueue conn v import_request)) = v_samples v"
  "v_samples v = [(cstr ''kick.wav'', []), (cstr ''hat.wav'', [])] \<Longrightarrow> fst (serve1 plain_host enqueue conn v remove_request) = Reply MNil MNil"
  using demo_ne
  by (simp_all add: ping_request_def import_request_def remove_request_def serve1_def service_chain demo_names no_params_def
      str_param_def yields_def spec_remove_def spec_import_def Let_def split: prod.splits)

lemma demo_push: "push_blocks plain_host q j = 0"
  by (simp add: push_blocks_def plain_host_def)

lemma two_clients_served:
  "sv_sent (fold (service_event plain_host enqueue) two_clients (service_at demo_ctx (fresh_world, m))) =
     [(6, enc (MArr [MInt 1, MInt 7, MNil, MStr (cstr ''pong!'')])), (5, enc (MArr [MInt 1, MInt 8, MNil, MNil]))]"
  "sv_queued (fold (service_event plain_host enqueue) two_clients (service_at demo_ctx (fresh_world, m))) = 1"
proof -
  define v1 where "v1 = view_orphaned (ctx_view demo_ctx)"
  obtain v2 where 2: "serve1 plain_host enqueue 6 v1 import_request =
      (Queued (JobInit 9 JOB_SAMPLELIST_ADD 6 (In_request (cstr ''a.wav''))), v2)" "v_samples v2 = v_samples v1"
    using demo_serves(2,3) [of 6 v1] by (metis prod.collapse)
  obtain v3 where 3: "serve1 plain_host enqueue 5 v2 remove_request = (Reply MNil MNil, v3)"
    using demo_serves(4) [of v2 5] 2(2) demo_view by (metis prod.collapse v1_def view_orphaned_simps(3))
  have ids: "fst ping_request = 7" "fst import_request = 9" "fst remove_request = 8"
    by (simp_all add: ping_request_def import_request_def remove_request_def)
  note simps = two_clients_def demo_read service_at_def fresh_world_def demo_serves(1) v1_def [symmetric] 2(1) 3 wire_reply_def ids
    queued1_def demo_push
  show "sv_sent (fold (service_event plain_host enqueue) two_clients (service_at demo_ctx (fresh_world, m))) =
     [(6, enc (MArr [MInt 1, MInt 7, MNil, MStr (cstr ''pong!'')])), (5, enc (MArr [MInt 1, MInt 8, MNil, MNil]))]"
    by (simp add: simps del: enc.simps)
  show "sv_queued (fold (service_event plain_host enqueue) two_clients (service_at demo_ctx (fresh_world, m))) = 1"
    by (simp add: simps del: enc.simps)
qed

text \<open>
  C1: A run of the server, from its start, with any number of clients that connect, send bytes of any kind (at most 65536
  in a read), lose their connection or leave, in any order and however the writes end: when no allocation fails, the event
  loop takes the writes and \<^verbatim>\<open>JobQueuePush\<close> does what \<open>enq\<close> says, no event of the run is undefined, and the server is at
  every point a simulation of the abstract service applied to the requests the decoder reads in the bytes. What it has
  written is, in the order of the reads and to the connection that asked, the encoded replies of the service, and the state
  clients see, the queue with the dangling payloads of the imports included, is the service's.
\<close>

theorem server_refines_service:
  assumes "started w" "hs_ctx (w_server w) = Some c" "uv_writes u" "pushes h enq" "nofail m" "length (v_name (ctx_view c)) < 2 ^ 30"
    and "allowed may_happen (run_event h u) es (w, m)"
  shows "\<exists>w' m' c'. play (run_event h u) es (w, m) = Some (w', m')
    \<and> w_written w' = sv_sent (fold (service_event h enq) es (service_at c (w, m)))
    \<and> hs_ctx (w_server w') = Some c' \<and> ctx_view c' = sv_view (fold (service_event h enq) es (service_at c (w, m)))"
  using run_simulated [OF assms] by (auto simp: simulates_def)

theorem server_refines_service_witness:
  "\<exists>w' m'. play (run_event plain_host willing_uv) two_clients (fresh_world, demo_mem) = Some (w', m')
    \<and> w_written w' = [(6, enc (MArr [MInt 1, MInt 7, MNil, MStr (cstr ''pong!'')])), (5, enc (MArr [MInt 1, MInt 8, MNil, MNil]))]"
  using server_refines_service [OF fresh_started demo_ready two_clients_allowed [OF demo_ready(4)]] two_clients_served(1)
  by auto

text \<open>
  C7: Every block of memory in such a run: beyond what the context, the connections, the writes on their way and the
  connection table own, exactly two things stay allocated, the blocks the decoder does not release (one per simple
  parameter, two per string, up to four per binary of every request it read), and the blocks of the jobs the imports handed
  to the queue, with what their pushes took.
\<close>

theorem server_memory_exact:
  assumes "started w" "hs_ctx (w_server w) = Some c" "uv_writes u" "pushes h enq" "nofail m" "length (v_name (ctx_view c)) < 2 ^ 30"
    and "allowed may_happen (run_event h u) es (w, m)"
  shows "\<exists>w' m'. play (run_event h u) es (w, m) = Some (w', m')
    \<and> unowned (w', m') = unowned (w, m) + sum_list (map request_leak (requests_of es))
        + sv_queued (fold (service_event h enq) es (service_at c (w, m)))"
proof -
  obtain w' m' where 1: "play (run_event h u) es (w, m) = Some (w', m')"
      "simulates h enq u (w', m') (fold (service_event h enq) es (service_at c (w, m)))"
    using run_simulated [OF assms] by blast
  with service_events_lost [of h enq es "service_at c (w, m)"] show ?thesis
    by (simp add: simulates_def service_at_def)
qed

theorem server_memory_exact_witness:
  "\<exists>w' m'. play (run_event plain_host willing_uv) two_clients (fresh_world, demo_mem) = Some (w', m')
    \<and> unowned (w', m') = unowned (fresh_world, demo_mem) + 5"
  using server_memory_exact [OF fresh_started demo_ready two_clients_allowed [OF demo_ready(4)]] demo_requests
    two_clients_served(2) [of demo_mem]
  by (auto simp: two_clients_def demo_read)

text \<open>
  C6: A run from the start of the server to the signal that ends the program: the loop can stop in the state the run has led
  to, and whenever \<^verbatim>\<open>main\<close> has stopped there and returned, what it has not released of the server, the context and everything
  that happened in between is exactly the parameters the decoder leaked, the jobs handed to the queue, the connections that
  were open when the signal came, with their buffers, and the connection table. (When no allocation fails, the event loop
  takes the writes and \<^verbatim>\<open>JobQueuePush\<close> does what \<open>enq\<close> says.)
\<close>

theorem program_leak_exact:
  assumes "started (idle s)" "hs_ctx s = Some c" "uv_writes u" "pushes h enq" "nofail m" "length (v_name (ctx_view c)) < 2 ^ 30"
    and "\<not> hs_conn_alloc s" "hs_loop s"
    and "allowed may_happen (run_event h u) es (idle s, mem_add 1 m)"
  shows "\<exists>w m2. play (run_event h u) es (idle s, mem_add 1 m) = Some (w, m2) \<and> (\<exists>r. main_serve s m (w, m2) r)
    \<and> (\<forall>code m'. main_serve s m (w, m2) (code, m') \<longrightarrow>
        live m' = live m - ctx_blocks c - 2 - of_bool (hs_addr s \<noteq> None) + sum_list (map request_leak (requests_of es))
          + sv_queued (fold (service_event h enq) es (service_at c (idle s, mem_add 1 m)))
          + (\<Sum>i \<in> dom (w_conns w) - set (w_closing w). conn_blocks (w_conns w i)) + of_bool (hs_conn_alloc (w_server w)))"
proof -
  let ?st = "(idle s, mem_add 1 m)"
  have i: "w_server (idle s) = s" "w_conns (idle s) = (\<lambda>_. None)" "w_pending (idle s) = []" by (simp_all add: idle_def)
  have n: "nofail (mem_add 1 m)" using assms(5) by simp
  have ctx: "hs_ctx (w_server (idle s)) = Some c" using assms(2) by (simp add: i)
  note S = assms(1) ctx assms(3,4) n assms(6,9)
  obtain w m2 where 1: "play (run_event h u) es ?st = Some (w, m2)"
      "simulates h enq u (w, m2) (fold (service_event h enq) es (service_at c ?st))"
    using run_simulated [OF S] by blast
  have steps: "srv_step\<^sup>*\<^sup>* ?st (w, m2)"
    by (rule play_steps [OF 1(1) assms(9) started_simulates [OF S(1-6)]])
  have "ctx_wf c" "hs_connections s = []" "hs_conn_cap s = 0"
    using assms(1,2) by (auto simp: started_def ctx_ok_def i(1))
  then have R0: "run_inv s (idle s)" using run_inv_idle assms(2) by simp
  then have R: "run_inv s w" using run_inv_steps [OF steps] by simp
  have sig: "HazeServerSetupSignals (Some s) m = (0, True, mem_add 1 m)"
    using assms(5) by (simp add: HazeServerSetupSignals_def malloc_nofail)
  have "unowned (w, m2) = unowned ?st + sum_list (map request_leak (requests_of es))
      + sv_queued (fold (service_event h enq) es (service_at c ?st))"
    using 1(2) service_events_lost [of h enq es "service_at c ?st"] by (simp add: simulates_def service_at_def)
  then have own: "live m2 = live m + 1 - ctx_blocks c + sum_list (map request_leak (requests_of es))
      + sv_queued (fold (service_event h enq) es (service_at c ?st)) + owned w"
    using assms(2,7) by (simp add: unowned_def owned_def i conns_blocks_def)
  have parts: "conns_blocks (w_conns w) = (\<Sum>i \<in> set (w_closing w). conn_blocks (w_conns w i))
      + (\<Sum>i \<in> dom (w_conns w) - set (w_closing w). conn_blocks (w_conns w i))"
    unfolding conns_blocks_def using R by (subst sum.subset_diff [of "set (w_closing w)"]) (auto simp: run_inv_def srv_inv_def)
  have "live m' = live m - ctx_blocks c - 2 - of_bool (hs_addr s \<noteq> None) + sum_list (map request_leak (requests_of es))
          + sv_queued (fold (service_event h enq) es (service_at c ?st))
          + (\<Sum>i \<in> dom (w_conns w) - set (w_closing w). conn_blocks (w_conns w i)) + of_bool (hs_conn_alloc (w_server w))"
    if M: "main_serve s m (w, m2) (code, m')" for code m'
  proof -
    obtain c' where "hs_ctx (w_server w) = Some c'" "live m' = live m2 - server_blocks True w - ctx_blocks c'"
      using main_serve_armed [OF sig M R0 assms(8)] by blast
    then show ?thesis using own parts R by (auto simp: owned_def server_blocks_def run_inv_def)
  qed
  then show ?thesis using 1(1) main_serve_ends [OF sig steps R assms(8)] by blast
qed

theorem program_leak_exact_witness:
  "\<exists>w m2. play (run_event plain_host willing_uv) two_clients (fresh_world, mem_add 1 demo_mem) = Some (w, m2)
    \<and> (\<exists>r. main_serve (w_server fresh_world) demo_mem (w, m2) r)
    \<and> (\<forall>code m'. main_serve (w_server fresh_world) demo_mem (w, m2) (code, m') \<longrightarrow>
        live m' = 42 - ctx_blocks demo_ctx + (\<Sum>i \<in> dom (w_conns w) - set (w_closing w). conn_blocks (w_conns w i))
          + of_bool (hs_conn_alloc (w_server w)))"
proof -
  have w: "idle (w_server fresh_world) = fresh_world" by (simp add: idle_def fresh_world_def)
  have s: "\<not> hs_conn_alloc (w_server fresh_world)" "hs_loop (w_server fresh_world)" "hs_addr (w_server fresh_world) \<noteq> None"
    by (simp_all add: fresh_world_def)
  have r: "sum_list (map request_leak (requests_of two_clients)) = 4"
    using demo_requests by (simp add: two_clients_def demo_read)
  have al: "allowed may_happen (run_event plain_host willing_uv) two_clients (fresh_world, mem_add 1 demo_mem)"
    using two_clients_allowed demo_ready(4) by simp
  from program_leak_exact [of "w_server fresh_world", unfolded w, OF fresh_started demo_ready s(1,2) al] r s(3)
    two_clients_served(2) [of "mem_add 1 demo_mem"]
  show ?thesis by auto
qed

end
