(* ===== verification/Client_Stream.thy ===== *)
theory Client_Stream
  imports Client_Request Haze_Trace
begin

text \<open>
  Client and server together: what the C++ client decodes from the bytes the server writes in answer to a
  stream of requests.
\<close>

text \<open>The replies of the abstract service to a sequence of requests, with the ids they answer.\<close>

fun replies ::
  "host \<Rightarrow> (JobQueue option \<Rightarrow> Job \<Rightarrow> JobQueue option) \<Rightarrow> nat \<Rightarrow> view \<Rightarrow> request list \<Rightarrow> (u32 \<times> mval \<times> mval) list" where
  "replies h enq conn v [] = []"
| "replies h enq conn v (rq # rqs) =
     (let (r, v') = serve1 h enq conn v rq;
          rest = replies h enq conn v' rqs
      in case r of Queued _ \<Rightarrow> rest | Reply e x \<Rightarrow> (fst rq, e, x) # rest)"

lemma serve_replies:
  assumes "length (v_name v) < 2 ^ 30"
  shows "fst (serve h enq conn v rqs) = map (\<lambda>(i, e, x). enc (MArr [MInt 1, MInt (uint i), e, x])) (replies h enq conn v rqs)
    \<and> (\<forall>(i, e, x) \<in> set (replies h enq conn v rqs). small e \<and> small x)"
  using assms
proof (induction rqs arbitrary: v)
  case (Cons rq rqs)
  obtain r v1 where 1: "serve1 h enq conn v rq = (r, v1)" by fastforce
  have M: "modest v (r, v1)" using serve1_modest [OF Cons.prems, of h enq conn rq] 1 by simp
  then have "length (v_name v1) < 2 ^ 30" using Cons.prems by (simp add: modest_def)
  from Cons.IH [OF this] M show ?case
    by (cases r) (auto simp: 1 wire_reply_def modest_def split: prod.splits simp del: enc.simps)
qed simp

definition as_response :: "u32 \<times> mval \<times> mval \<Rightarrow> ClientResponse" where
  "as_response r = (case r of (i, e, x) \<Rightarrow>
     \<lparr>cr_type = RPCType_Response, cr_msgid = i, cr_error = cobj_of e, cr_result = cobj_of x\<rparr>)"

lemma client_decodes_reply:
  assumes "small e" "small x" "roomy alloc (2 ^ 32)"
  shows "Response_Unmarshal alloc (enc (MArr [MInt 1, MInt (uint i), e, x])) = Some (Inr (Some (as_response (i, e, x))))"
  using Response_Unmarshal_reads [OF small_ok [OF assms(1)] small_ok [OF assms(2)], of "uint i" alloc "[]"]
    roomy_mono [OF assms(3) less_imp_le, OF length_reply [OF assms(1,2), of i]] uint_lt2p [of i]
  by (simp add: as_response_def del: enc.simps)

text \<open>
  Server and client composed: when the bytes of any number of requests arrive in one read on an open
  connection, the client's \<^verbatim>\<open>Response::Unmarshal\<close> applied to the messages the server then writes gives, in the
  order of the requests, exactly the replies of the abstract service under the ids of the requests.
\<close>

theorem client_reads_the_replies:
  assumes "srv_inv w" "w_conns w i = Some conn" "\<not> uv_is_closing i w" "hs_ctx (w_server w) = Some c"
    and "list_all good_request rqs" "pushes h enq" "uv_writes u" "nofail m" "length (v_name (ctx_view c)) < 2 ^ 30"
    and "data = concat (map wire_request rqs)" "rqs \<noteq> []" "length data < 2 ^ 63" "roomy alloc (2 ^ 32)"
  shows "\<exists>w' m' out. haze_on_read h u i (int (length data)) True data w m = Some (w', m')
    \<and> w_written w' = w_written w @ map (Pair i) out
    \<and> map (Response_Unmarshal alloc) out = map (\<lambda>r. Some (Inr (Some (as_response r)))) (replies h enq i (ctx_view c) rqs)"
proof -
  obtain out v' where s: "serve h enq i (ctx_view c) rqs = (out, v')" by fastforce
  note R = serve_replies [OF assms(9), of h enq i rqs]
  have "map (Response_Unmarshal alloc) out = map (\<lambda>r. Some (Inr (Some (as_response r)))) (replies h enq i (ctx_view c) rqs)"
    using R client_decodes_reply [OF _ _ assms(13)] by (auto simp: s simp del: enc.simps)
  then show ?thesis
    using stream_answers [OF assms(1-9) s assms(10-12)] by blast
qed

theorem client_reads_the_replies_witness:
  "\<exists>w' m' out. haze_on_read plain_host willing_uv 5 (int (length (concat (map wire_request [(7, cstr ''test/ping'', [])])))) True
       (concat (map wire_request [(7, cstr ''test/ping'', [])])) one_client \<lparr>outcomes = [], live = 0\<rparr> = Some (w', m')
     \<and> w_written w' = map (Pair 5) out
     \<and> map (Response_Unmarshal (\<lambda>_. True)) out = [Some (Inr (Some (Response_CreateStrResult 7 (cstr ''pong!''))))]"
proof -
  have ctx: "hs_ctx (w_server one_client) = Some demo_ctx" "w_written one_client = []"
    by (auto simp: one_client_def haze_on_connect_def malloc_def willing_uv_def put_conn_def fresh_world_def
        HazeServerAddConnection_def realloc_def mem_add_def)
  have name: "length (v_name (ctx_view demo_ctx)) < 2 ^ 30"
    by (simp add: ctx_view_def demo_ctx_def SessionGetName_def cstr_def)
  have nul: "until_nul (cstr ''test/ping'') = cstr ''test/ping''"
    by (simp add: no_nul_def cstr_def)
  have rep: "map as_response (replies plain_host enqueue 5 (ctx_view demo_ctx) [(7, cstr ''test/ping'', [])])
      = [Response_CreateStrResult 7 (cstr ''pong!'')]"
    by (simp add: serve1_def service_chain nul no_params_def yields_def as_response_def Response_CreateStrResult_def
        Response_default_def response_set_get_defs)
  have good: "list_all good_request [(7, cstr ''test/ping'', [])]" by (simp add: good_request_def cstr_def)
  have len: "length (concat (map wire_request [(7, cstr ''test/ping'', [])])) < 2 ^ 63"
    by (simp add: wire_request_def enc_arr_head_def enc_int_def enc_str_head_def cstr_def)
  have u: "uv_writes willing_uv" "nofail \<lparr>outcomes = [], live = 0\<rparr>" by (simp_all add: uv_writes_def willing_uv_def nofail_def)
  have room: "roomy (\<lambda>_. True) (2 ^ 32)" by (simp add: roomy_def)
  from client_reads_the_replies [OF one_client_ok ctx(1) good plain_host_pushes u name refl _ len room] show ?thesis
    using arg_cong [OF rep, of "map (\<lambda>r. Some (Inr (Some r) :: cpp_exn + ClientResponse option))"] by (simp add: ctx(2) comp_def)
qed

subsection \<open>Whole runs\<close>

text \<open>The replies of a run, each with the connection it goes to.\<close>

fun run_replies ::
  "host \<Rightarrow> (JobQueue option \<Rightarrow> Job \<Rightarrow> JobQueue option) \<Rightarrow> view \<Rightarrow> event list \<Rightarrow> (nat \<times> u32 \<times> mval \<times> mval) list" where
  "run_replies h enq v [] = []"
| "run_replies h enq v (Bytes i bs # es) =
     (let rqs = fst (read_requests bs)
      in map (Pair i) (replies h enq i v rqs) @ run_replies h enq (snd (serve h enq i v rqs)) es)"
| "run_replies h enq v (_ # es) = run_replies h enq v es"

lemma serve_name: "length (v_name v) < 2 ^ 30 \<Longrightarrow> v_name (snd (serve h enq conn v rqs)) = v_name v"
proof (induction rqs arbitrary: v)
  case (Cons rq rqs)
  obtain r v1 where 1: "serve1 h enq conn v rq = (r, v1)" by fastforce
  with serve1_modest [OF Cons.prems, of h enq conn rq] have "v_name v1 = v_name v" by (simp add: modest_def)
  with Cons.IH [of v1] Cons.prems show ?case by (simp add: 1 case_prod_beta)
qed simp

text \<open>What the client makes of a message, and what it should make of a reply.\<close>

definition decoded :: "(cpp_request \<Rightarrow> bool) \<Rightarrow> nat \<times> byte list \<Rightarrow> nat \<times> (cpp_exn + ClientResponse option) option" where
  "decoded alloc p = (fst p, Response_Unmarshal alloc (snd p))"

definition expected :: "nat \<times> u32 \<times> mval \<times> mval \<Rightarrow> nat \<times> (cpp_exn + ClientResponse option) option" where
  "expected p = (fst p, Some (Inr (Some (as_response (snd p)))))"

lemma sent_decoded:
  assumes "length (v_name (sv_view a)) < 2 ^ 30" "roomy alloc (2 ^ 32)"
  shows "map (decoded alloc) (sv_sent (fold (service_event h enq) es a)) =
    map (decoded alloc) (sv_sent a) @ map expected (run_replies h enq (sv_view a) es)"
  using assms(1)
proof (induction es arbitrary: a)
  case (Cons e es)
  show ?case
  proof (cases e)
    case (Bytes i bs)
    define rqs where "rqs = fst (read_requests bs)"
    obtain out v where s: "serve h enq i (sv_view a) rqs = (out, v)" by fastforce
    note R = serve_replies [OF Cons.prems, of h enq i rqs]
    have "map (decoded alloc) (map (Pair i) out) = map expected (map (Pair i) (replies h enq i (sv_view a) rqs))"
      using R client_decodes_reply [OF _ _ assms(2)] by (auto simp: s decoded_def expected_def simp del: enc.simps)
    moreover have "v_name v = v_name (sv_view a)" using serve_name [OF Cons.prems, of h enq i rqs] s by simp
    ultimately show ?thesis using Cons Bytes s by (simp add: rqs_def [symmetric])
  qed (use Cons in simp_all)
qed simp

text \<open>
  C5: Server and clients composed over a whole run, with any number of clients that send bytes of any kind (at most 65536 in
  a read) in any order: each message the server writes, decoded by \<^verbatim>\<open>Response::Unmarshal\<close> of the client it was sent to, is
  the reply of the abstract service to one of the requests the decoder of the server read in the bytes of that client,
  under the id of that request and in the order of the reads, and there are no others; an import that is accepted has no
  reply. (When no allocation of the server fails and the client can allocate what it reads, the event loop takes the
  writes and \<^verbatim>\<open>JobQueuePush\<close> does what \<open>enq\<close> says.)
\<close>

theorem clients_read_the_run:
  assumes "started w" "hs_ctx (w_server w) = Some c" "uv_writes u" "pushes h enq" "nofail m" "length (v_name (ctx_view c)) < 2 ^ 30"
    and "allowed may_happen (run_event h u) es (w, m)" "w_written w = []" "roomy alloc (2 ^ 32)"
  shows "\<exists>w' m'. play (run_event h u) es (w, m) = Some (w', m')
    \<and> map (decoded alloc) (w_written w') = map expected (run_replies h enq (ctx_view c) es)"
  using run_simulated [OF assms(1-7)] sent_decoded [of "service_at c (w, m)" alloc h enq es] assms(6,8,9)
  by (auto simp: simulates_def service_at_def)

theorem clients_read_the_run_witness:
  "\<exists>w' m'. play (run_event plain_host willing_uv) two_clients (fresh_world, demo_mem) = Some (w', m')
    \<and> map (decoded (\<lambda>_. True)) (w_written w') =
        [(6, Some (Inr (Some (Response_CreateStrResult 7 (cstr ''pong!''))))), (5, Some (Inr (Some (Response_CreateNilResult 8))))]"
proof -
  have "map expected (run_replies plain_host enqueue (ctx_view demo_ctx) two_clients) =
      [(6, Some (Inr (Some (Response_CreateStrResult 7 (cstr ''pong!''))))), (5, Some (Inr (Some (Response_CreateNilResult 8))))]"
  proof -
    define v1 where "v1 = view_orphaned (ctx_view demo_ctx)"
    obtain v2 where 2: "serve1 plain_host enqueue 6 v1 import_request =
        (Queued (JobInit 9 JOB_SAMPLELIST_ADD 6 (In_request (cstr ''a.wav''))), v2)" "v_samples v2 = v_samples v1"
      using demo_serves(2,3) [of 6 v1] by (metis prod.collapse)
    obtain v3 where 3: "serve1 plain_host enqueue 5 v2 remove_request = (Reply MNil MNil, v3)"
      using demo_serves(4) [of v2 5] 2(2) demo_view by (metis prod.collapse v1_def view_orphaned_simps(3))
    have ids: "fst ping_request = 7" "fst remove_request = 8" by (simp_all add: ping_request_def remove_request_def)
    show ?thesis
      by (simp add: two_clients_def demo_read demo_serves(1) v1_def [symmetric] 2(1) 3 ids expected_def as_response_def
          Response_CreateStrResult_def Response_CreateNilResult_def Response_default_def response_set_get_defs)
  qed
  moreover have "w_written fresh_world = []" "roomy (\<lambda>_. True) (2 ^ 32)" by (simp_all add: fresh_world_def roomy_def)
  ultimately show ?thesis
    using clients_read_the_run [OF fresh_started demo_ready two_clients_allowed [OF demo_ready(4)]] by metis
qed

end
