(* ===== verification/Haze_Tempo.thy ===== *)
theory Haze_Tempo
  imports Haze_Float
begin

text \<open>
  \<^verbatim>\<open>source/audio/Tempo.c\<close>: the position of a bar and tick in audio frames under a list of tempo changes. The
  tick arithmetic is the 64-bit unsigned arithmetic of the code, the frames per tick are IEEE doubles;
  undefined behaviour (reading the first point of an empty map, converting a double that is not in range) is
  \<open>None\<close>.
\<close>

definition TICKS_PER_BEAT :: nat where "TICKS_PER_BEAT = 960"

record TempoPoint =
  tp_bar :: u32
  tp_tick :: u32
  tp_bpm :: u32

record TempoMap =
  tm_points :: "TempoPoint list"

text \<open>The number of ticks from one position to a later one, modulo \<open>2 ^ 64\<close>.\<close>

definition delta_ticks :: "u32 \<Rightarrow> u32 \<Rightarrow> u64 \<Rightarrow> u64 \<Rightarrow> u32 \<Rightarrow> u64" where
  "delta_ticks bar tick lastBar lastTick beatsPerBar =
     (ucast bar - lastBar) * ucast beatsPerBar * of_nat TICKS_PER_BEAT + ucast tick - lastTick"

text \<open>\<^verbatim>\<open>(60.0 * sampleRate) / (currentBpm * TICKS_PER_BEAT)\<close>; the divisor is computed as a \<^verbatim>\<open>float\<close>.\<close>

definition frames_per_tick :: "u32 \<Rightarrow> u32 \<Rightarrow> u64" where
  "frames_per_tick sampleRate bpm =
     f64_div (f64_mul (f64_of_nat 60) (f64_of_nat (unat sampleRate)))
       (f64_of_f32 (f32_mul bpm (f32_of_nat TICKS_PER_BEAT)))"

definition frames_for :: "u64 \<Rightarrow> u64 \<Rightarrow> u64 option" where
  "frames_for deltaTicks framesPerTick = f64_to_u64 (f64_mul (f64_of_nat (unat deltaTicks)) framesPerTick)"

fun tempo_loop ::
  "TempoPoint list \<Rightarrow> u32 \<Rightarrow> u32 \<Rightarrow> u32 \<Rightarrow> u32 \<Rightarrow> u64 \<Rightarrow> u64 \<Rightarrow> u64 \<Rightarrow> u32 \<Rightarrow> (u64 \<times> u64 \<times> u64 \<times> u32) option" where
  "tempo_loop [] targetBar targetTick sampleRate beatsPerBar frame lastBar lastTick currentBpm =
     Some (frame, lastBar, lastTick, currentBpm)"
| "tempo_loop (p # ps) targetBar targetTick sampleRate beatsPerBar frame lastBar lastTick currentBpm =
     (if targetBar < tp_bar p \<or> tp_bar p = targetBar \<and> targetTick < tp_tick p
      then Some (frame, lastBar, lastTick, currentBpm)
      else
        let deltaTicks = delta_ticks (tp_bar p) (tp_tick p) lastBar lastTick beatsPerBar;
            framesPerTick = frames_per_tick sampleRate currentBpm
        in case frames_for deltaTicks framesPerTick of
             None \<Rightarrow> None
           | Some k \<Rightarrow>
               tempo_loop ps targetBar targetTick sampleRate beatsPerBar (frame + k)
                 (ucast (tp_bar p)) (ucast (tp_tick p)) (tp_bpm p))"

definition TempoMapToFrame :: "TempoMap \<Rightarrow> u32 \<Rightarrow> u32 \<Rightarrow> u32 \<Rightarrow> u32 \<Rightarrow> u64 option" where
  "TempoMapToFrame mp targetBar targetTick sampleRate beatsPerBar =
     (case tm_points mp of
        [] \<Rightarrow> None
      | p0 # _ \<Rightarrow>
          (case tempo_loop (tm_points mp) targetBar targetTick sampleRate beatsPerBar 0 0 0 (tp_bpm p0) of
             None \<Rightarrow> None
           | Some (frame, lastBar, lastTick, currentBpm) \<Rightarrow>
               (let deltaTicks = delta_ticks targetBar targetTick lastBar lastTick beatsPerBar;
                    framesPerTick = frames_per_tick sampleRate currentBpm
                in case frames_for deltaTicks framesPerTick of
                     None \<Rightarrow> None
                   | Some k \<Rightarrow> Some (frame + k))))"

subsection \<open>Integers are exact\<close>

lemma log2_floor_bounds: "0 < n \<Longrightarrow> \<exists>k. log2_floor n = int k \<and> 2 ^ k \<le> n \<and> n < 2 ^ Suc k"
proof (induction n rule: log2_floor.induct)
  case (1 n)
  show ?case
  proof (cases "n < 2")
    case True
    with 1(2) show ?thesis by (intro exI [of _ 0]) (simp add: log2_floor_small)
  next
    case False
    with 1 obtain k where k: "log2_floor (n div 2) = int k" "2 ^ k \<le> n div 2" "n div 2 < 2 ^ Suc k" by auto
    with False show ?thesis by (intro exI [of _ "Suc k"]) (auto simp: log2_floor_step)
  qed
qed

lemma frac_log2_nat:
  assumes "0 < N" "0 < d" "log2_floor N = int L" "2 ^ L \<le> N" "N < 2 ^ Suc L"
  shows "frac_log2 (N * d) d = int L"
proof -
  obtain D where D: "log2_floor d = int D" "2 ^ D \<le> d" "d < 2 ^ Suc D" using log2_floor_bounds [OF assms(2)] by auto
  obtain M where M: "log2_floor (N * d) = int M" "2 ^ M \<le> N * d" "N * d < 2 ^ Suc M"
    using log2_floor_bounds [of "N * d"] assms(1,2) by auto
  have "2 ^ (L + D) \<le> N * d" using mult_le_mono [OF assms(4) D(2)] by (simp add: power_add)
  then have "(2::nat) ^ (L + D) < 2 ^ Suc M" using M(3) by (rule le_less_trans)
  then have 1: "L + D \<le> M" by (simp only: power_strict_increasing_iff less_Suc_eq_le one_less_numeral_iff semiring_norm)
  have "N * d < 2 ^ Suc L * 2 ^ Suc D" using mult_strict_mono [OF assms(5) D(3)] by simp
  with M(2) have "(2::nat) ^ M < 2 ^ (Suc L + Suc D)" unfolding power_add by (rule le_less_trans)
  then have 2: "M < Suc L + Suc D" by (simp only: power_strict_increasing_iff one_less_numeral_iff semiring_norm)
  consider "M = L + D" | "M = L + D + 1" using 1 2 by linarith
  then show ?thesis
  proof cases
    case 1
    then show ?thesis using assms(2,4) by (simp add: frac_log2_def D M Let_def)
  next
    case 2
    then have "nat (int M - int D) = Suc L" "nat (int D - int M) = 0" by simp_all
    with 2 show ?thesis using assms(2,5) by (simp add: frac_log2_def D M Let_def)
  qed
qed

lemma round_even_exact: "0 < d \<Longrightarrow> round_even (q * d) d = q"
  by (simp add: round_even_def)

text \<open>The two formats in use.\<close>

definition fp_format :: "nat \<Rightarrow> nat \<Rightarrow> bool" where
  "fp_format p w \<longleftrightarrow> 2 \<le> p \<and> 2 \<le> w \<and> p \<le> 2 ^ (w - 1)"

lemma fp_encode_nat:
  assumes "fp_format p w" "0 < N" "N < 2 ^ p" "0 < d" "log2_floor N = int L" "2 ^ L \<le> N" "N < 2 ^ Suc L"
  shows "fp_encode p w (Fin False (N * d) d) = (L + 2 ^ (w - 1) - 2) * 2 ^ (p - 1) + N * 2 ^ (p - 1 - L)"
    and "L < p" and "fp_encode p w (Fin False (N * d) d) \<le> (2 ^ w - 1) * 2 ^ (p - 1)"
proof -
  have "(2::nat) ^ L < 2 ^ p" using assms(3,6) by linarith
  then show L: "L < p" by simp
  define e where "e = int L - int (p - 1)"
  have f: "p \<le> 2 ^ (w - 1)" "2 \<le> p" "2 \<le> w" using assms(1) by (simp_all add: fp_format_def)
  have "(2::int) \<le> 2 ^ (w - 1)" using f(3) power_increasing [of 1 "w - 1" "2::int"] by simp
  then have em: "max (fp_emin p w) e = e" using f(2) by (simp add: fp_emin_def e_def)
  have ne: "nat (- e) = p - 1 - L" "nat e = 0" using L by (simp_all add: e_def)
  have nm: "nat (e - fp_emin p w) = L + 2 ^ (w - 1) - 2"
    using f(2) by (simp add: e_def fp_emin_def nat_diff_distrib' nat_add_distrib nat_power_eq algebra_simps)
  have q: "round_even (N * d * 2 ^ nat (- e)) (d * 2 ^ nat e) = N * 2 ^ (p - 1 - L)"
    using round_even_exact [OF assms(4), of "N * 2 ^ (p - 1 - L)"] by (simp add: ne ac_simps)
  have le: "(L + 2 ^ (w - 1) - 2) * 2 ^ (p - 1) + N * 2 ^ (p - 1 - L) \<le> (2 ^ w - 1) * 2 ^ (p - 1)"
  proof -
    have "N * 2 ^ (p - 1 - L) < 2 ^ Suc L * 2 ^ (p - 1 - L)" using assms(7) by simp
    also have "\<dots> = 2 * 2 ^ (p - 1)" using L by (simp flip: power_add)
    finally have "(L + 2 ^ (w - 1) - 2) * 2 ^ (p - 1) + N * 2 ^ (p - 1 - L) \<le> (L + 2 ^ (w - 1) - 2 + 2) * 2 ^ (p - 1)"
      by (simp add: algebra_simps)
    also have "\<dots> \<le> (2 ^ w - 1) * 2 ^ (p - 1)"
    proof (rule mult_le_mono1)
      have "(2::nat) ^ w = 2 * 2 ^ (w - 1)" using f(3) by (cases w) simp_all
      moreover have "(2::nat) ^ 1 \<le> 2 ^ (w - 1)" using f(3) by (intro power_increasing) simp_all
      ultimately show "L + 2 ^ (w - 1) - 2 + 2 \<le> 2 ^ w - (1::nat)" using L f(1) by simp
    qed
    finally show ?thesis .
  qed
  have fl: "frac_log2 (N * d) d - int (p - 1) = e" by (simp only: frac_log2_nat [OF assms(2,4,5-7)] e_def)
  have nz: "(N * d = 0) = False" using assms(2,4) by simp
  show eq: "fp_encode p w (Fin False (N * d) d) = (L + 2 ^ (w - 1) - 2) * 2 ^ (p - 1) + N * 2 ^ (p - 1 - L)"
    unfolding fp_encode_def Let_def fval.case fl em nm q nz if_False min_absorb2 [OF le] by simp
  show "fp_encode p w (Fin False (N * d) d) \<le> (2 ^ w - 1) * 2 ^ (p - 1)"
    unfolding eq by (rule le)
qed

lemma fp_decode_nat:
  assumes "fp_format p w" "2 ^ L \<le> N" "N < 2 ^ Suc L" "L < p"
  shows "fp_decode p w ((L + 2 ^ (w - 1) - 2) * 2 ^ (p - 1) + N * 2 ^ (p - 1 - L)) =
    Fin False (N * 2 ^ (p - 1 - L)) (2 ^ (p - 1 - L))"
proof -
  have f: "p \<le> 2 ^ (w - 1)" "2 \<le> p" "2 \<le> w" using assms(1) by (simp_all add: fp_format_def)
  have w: "(2::nat) ^ w = 2 * 2 ^ (w - 1)" using f(3) by (cases w) simp_all
  have w1: "(2::nat) \<le> 2 ^ (w - 1)" using f(3) power_increasing [of 1 "w - 1" "2::nat"] by simp
  define B where "B = (2::nat) ^ (p - 1)"
  define q where "q = N * 2 ^ (p - 1 - L)"
  define x where "x = L + 2 ^ (w - 1) - 1"
  have B: "0 < B" by (simp add: B_def)
  have BL: "2 ^ L * 2 ^ (p - 1 - L) = B" using assms(4) by (simp add: B_def flip: power_add)
  have "2 ^ L * 2 ^ (p - 1 - L) \<le> q" "q < 2 * 2 ^ L * 2 ^ (p - 1 - L)" using assms(2,3) by (simp_all add: q_def)
  then have q: "B \<le> q" "q < 2 * B" unfolding mult.assoc BL by simp_all
  define g where "g = q - B"
  have g: "q = B + g" "g < B" using q by (simp_all add: g_def)
  have x: "0 < x" "x < 2 ^ w - 1" "x \<noteq> 2 ^ w - 1" using w w1 f assms(4) by (simp_all add: x_def)
  have pat: "(L + 2 ^ (w - 1) - 2) * B + q = x * B + g"
  proof -
    have "x = Suc (L + 2 ^ (w - 1) - 2)" using w1 by (simp add: x_def)
    then show ?thesis using g by simp
  qed
  have d: "(x * B + g) div B = x" "(x * B + g) mod B = g" using g B by simp_all
  have "x * B + g < 2 ^ w * B"
  proof -
    have "x * B + g < Suc x * B" using g by simp
    also have "\<dots> \<le> 2 ^ w * B" using x(2) by (intro mult_le_mono1) simp
    finally show ?thesis .
  qed
  then have s: "(x * B + g) div 2 ^ (p - 1 + w) = 0" by (simp add: B_def power_add mult.commute)
  have e: "fp_emin p w + int (x - 1) = int L - int (p - 1)"
    using w1 f(2) by (simp add: x_def fp_emin_def of_nat_diff)
  have ne: "nat (int L - int (p - 1)) = 0" "nat (- (int L - int (p - 1))) = p - 1 - L" using assms(4) by simp_all
  show ?thesis
    unfolding B_def [symmetric] q_def [symmetric] pat fp_decode_def Let_def
    using d s x g e ne by (simp add: B_def [symmetric])
qed

text \<open>A finite value that is the natural number \<open>N\<close>.\<close>

definition is_nat_val :: "fval \<Rightarrow> nat \<Rightarrow> bool" where
  "is_nat_val v N \<longleftrightarrow> (\<exists>k. v = Fin False (N * 2 ^ k) (2 ^ k))"

lemma fp_nat:
  assumes "fp_format p w" "N < 2 ^ p" "0 < d"
  shows "is_nat_val (fp_decode p w (fp_encode p w (Fin False (N * d) d))) N"
    and "fp_encode p w (Fin False (N * d) d) \<le> (2 ^ w - 1) * 2 ^ (p - 1)"
proof -
  have "is_nat_val (fp_decode p w (fp_encode p w (Fin False (N * d) d))) N
      \<and> fp_encode p w (Fin False (N * d) d) \<le> (2 ^ w - 1) * 2 ^ (p - 1)"
  proof (cases "N = 0")
    case True
    have w: "2 \<le> w" "2 \<le> p" using assms(1) by (simp_all add: fp_format_def)
    have "(2::nat) ^ 2 \<le> 2 ^ w" using w(1) by (intro power_increasing) simp_all
    then have "(0::nat) \<noteq> 2 ^ w - 1" by simp
    moreover have "(2::int) \<le> 2 ^ (w - 1)" using w(1) power_increasing [of 1 "w - 1" "2::int"] by simp
    then have "nat (fp_emin p w) = 0" using w(2) by (simp add: fp_emin_def)
    ultimately show ?thesis
      using True by (simp add: fp_encode_def fp_decode_def is_nat_val_def Let_def)
  next
    case False
    then obtain L where L: "log2_floor N = int L" "2 ^ L \<le> N" "N < 2 ^ Suc L" using log2_floor_bounds by blast
    note E = fp_encode_nat [OF assms(1) _ assms(2,3) L]
    show ?thesis
      using False E fp_decode_nat [OF assms(1) L(2,3) E(2)] by (auto simp: is_nat_val_def)
  qed
  then show "is_nat_val (fp_decode p w (fp_encode p w (Fin False (N * d) d))) N"
    "fp_encode p w (Fin False (N * d) d) \<le> (2 ^ w - 1) * 2 ^ (p - 1)" by simp_all
qed

lemma formats: "fp_format 24 8" "fp_format 53 11"
  by (simp_all add: fp_format_def)

lemma f64_nat: "N < 2 ^ 53 \<Longrightarrow> 0 < d \<Longrightarrow> is_nat_val (f64_val (f64_of (Fin False (N * d) d))) N"
  using fp_nat [OF formats(2), of N d] by (simp add: f64_val_def f64_of_def unat_of_nat)

lemma f32_nat: "N < 2 ^ 24 \<Longrightarrow> 0 < d \<Longrightarrow> is_nat_val (f32_val (f32_of (Fin False (N * d) d))) N"
  using fp_nat [OF formats(1), of N d] by (simp add: f32_val_def f32_of_def unat_of_nat)

lemma f64_of_nat_exact: "N < 2 ^ 53 \<Longrightarrow> is_nat_val (f64_val (f64_of_nat N)) N"
  using f64_nat [of N 1] by (simp add: f64_of_nat_def)

lemma f32_of_nat_exact: "N < 2 ^ 24 \<Longrightarrow> is_nat_val (f32_val (f32_of_nat N)) N"
  using f32_nat [of N 1] by (simp add: f32_of_nat_def)

lemma is_nat_mul:
  assumes "is_nat_val a M" "is_nat_val b N"
  shows "\<exists>d > 0. fval_mul a b = Fin False (M * N * d) d"
proof -
  obtain k l where "a = Fin False (M * 2 ^ k) (2 ^ k)" "b = Fin False (N * 2 ^ l) (2 ^ l)"
    using assms by (auto simp: is_nat_val_def)
  then show ?thesis by (intro exI [of _ "2 ^ k * 2 ^ l"]) (simp add: ac_simps)
qed

lemma f64_mul_nat:
  "is_nat_val (f64_val a) M \<Longrightarrow> is_nat_val (f64_val b) N \<Longrightarrow> M * N < 2 ^ 53 \<Longrightarrow> is_nat_val (f64_val (f64_mul a b)) (M * N)"
  using is_nat_mul [of "f64_val a" M "f64_val b" N] f64_nat [of "M * N"] by (auto simp: f64_mul_def)

lemma f32_mul_nat:
  "is_nat_val (f32_val a) M \<Longrightarrow> is_nat_val (f32_val b) N \<Longrightarrow> M * N < 2 ^ 24 \<Longrightarrow> is_nat_val (f32_val (f32_mul a b)) (M * N)"
  using is_nat_mul [of "f32_val a" M "f32_val b" N] f32_nat [of "M * N"] by (auto simp: f32_mul_def)

lemma f64_div_nat:
  assumes "is_nat_val (f64_val a) (Q * N)" "is_nat_val (f64_val b) N" "0 < N" "Q < 2 ^ 53"
  shows "is_nat_val (f64_val (f64_div a b)) Q"
proof -
  obtain k l where "f64_val a = Fin False (Q * N * 2 ^ k) (2 ^ k)" "f64_val b = Fin False (N * 2 ^ l) (2 ^ l)"
    using assms(1,2) by (auto simp: is_nat_val_def)
  then have "fval_div (f64_val a) (f64_val b) = Fin False (Q * (2 ^ k * (N * 2 ^ l))) (2 ^ k * (N * 2 ^ l))"
    using assms(3) by (simp add: ac_simps)
  then show ?thesis using f64_nat [OF assms(4), of "2 ^ k * (N * 2 ^ l)"] assms(3) by (simp add: f64_div_def)
qed

lemma f64_of_f32_nat: "is_nat_val (f32_val f) N \<Longrightarrow> N < 2 ^ 53 \<Longrightarrow> is_nat_val (f64_val (f64_of_f32 f)) N"
  using f64_nat [of N] by (auto simp: is_nat_val_def f64_of_f32_def)

lemma f64_to_u64_nat: "is_nat_val (f64_val f) N \<Longrightarrow> N < 2 ^ 64 \<Longrightarrow> f64_to_u64 f = Some (of_nat N)"
  by (auto simp: is_nat_val_def f64_to_u64_def)

subsection \<open>Exact tempos\<close>

text \<open>A whole number of beats per minute that divides the sample rate into \<open>F\<close> frames per tick.\<close>

definition exact_tempo :: "u32 \<Rightarrow> u32 \<Rightarrow> nat \<Rightarrow> bool" where
  "exact_tempo sampleRate bpm F \<longleftrightarrow>
     (\<exists>B. bpm = f32_of_nat B \<and> 0 < B \<and> B * TICKS_PER_BEAT < 2 ^ 24
        \<and> 60 * unat sampleRate = F * (B * TICKS_PER_BEAT))"

lemma frames_per_tick_exact:
  assumes "exact_tempo sr bpm F"
  shows "is_nat_val (f64_val (frames_per_tick sr bpm)) F"
proof -
  obtain B where B: "bpm = f32_of_nat B" "0 < B" "B * 960 < 2 ^ 24" "60 * unat sr = F * (B * 960)"
    using assms by (auto simp: exact_tempo_def TICKS_PER_BEAT_def)
  have "is_nat_val (f32_val (f32_mul bpm (f32_of_nat 960))) (B * 960)"
    using B by (intro f32_mul_nat) (simp_all add: f32_of_nat_exact)
  then have 1: "is_nat_val (f64_val (f64_of_f32 (f32_mul bpm (f32_of_nat 960)))) (B * 960)"
    using B(3) by (intro f64_of_f32_nat) simp_all
  have sr: "60 * unat sr < 2 ^ 53"
    by (rule le_less_trans [OF mult_le_mono2 [OF less_imp_le [OF unat_u32_lt]]]) simp
  then have "unat sr < 2 ^ 53" by linarith
  with sr have 2: "is_nat_val (f64_val (f64_mul (f64_of_nat 60) (f64_of_nat (unat sr)))) (60 * unat sr)"
    by (intro f64_mul_nat) (simp_all add: f64_of_nat_exact)
  have "F \<le> F * (B * 960)" using B(2) by simp
  then have "F < 2 ^ 53" using B(4) sr by linarith
  then show ?thesis
    using f64_div_nat [OF 2 [unfolded B(4)] 1] B(2) by (simp add: frames_per_tick_def TICKS_PER_BEAT_def)
qed

lemma frames_for_exact:
  assumes "exact_tempo sr bpm F" "F * n < 2 ^ 53" "n < 2 ^ 53"
  shows "frames_for (of_nat n) (frames_per_tick sr bpm) = Some (of_nat (F * n))"
proof -
  have n: "unat (of_nat n :: u64) = n" using assms(3) by (simp add: unat_of_nat)
  have "is_nat_val (f64_val (f64_mul (f64_of_nat n) (frames_per_tick sr bpm))) (n * F)"
    using assms frames_per_tick_exact [OF assms(1)] by (intro f64_mul_nat f64_of_nat_exact) (simp_all add: mult.commute)
  then show ?thesis
    using f64_to_u64_nat [of _ "n * F"] assms(2) by (simp add: frames_for_def n mult.commute)
qed

text \<open>Positions in ticks, and the frames of a target by summing the segments in natural numbers.\<close>

definition tick_pos :: "u32 \<Rightarrow> u32 \<Rightarrow> u32 \<Rightarrow> nat" where
  "tick_pos beatsPerBar bar tick = unat bar * unat beatsPerBar * TICKS_PER_BEAT + unat tick"

fun tempo_ref :: "(nat \<times> nat) list \<Rightarrow> nat \<Rightarrow> nat \<Rightarrow> nat \<Rightarrow> nat" where
  "tempo_ref [] target from F = F * (target - from)"
| "tempo_ref ((q, G) # ps) target from F =
     (if target < q then F * (target - from) else F * (q - from) + tempo_ref ps target q G)"

lemma delta_ticks_pos:
  assumes "lastBar = of_nat lb" "lastTick = of_nat lt" "from = lb * unat bpb * TICKS_PER_BEAT + lt" "from \<le> tick_pos bpb bar tick"
  shows "delta_ticks bar tick lastBar lastTick bpb = of_nat (tick_pos bpb bar tick - from)"
proof -
  have "of_nat (tick_pos bpb bar tick - from) = (of_nat (tick_pos bpb bar tick) - of_nat from :: u64)"
    using assms(4) by (rule of_nat_diff)
  then show ?thesis
    by (simp add: delta_ticks_def assms(1-3) tick_pos_def algebra_simps)
qed

lemma pos_less:
  fixes S :: nat
  assumes "t1 < S" "t2 < S"
  shows "b1 * S + t1 < b2 * S + t2 \<longleftrightarrow> b1 < b2 \<or> b1 = b2 \<and> t1 < t2"
proof (cases b1 b2 rule: linorder_cases)
  case less
  then have "Suc b1 * S \<le> b2 * S" by (intro mult_le_mono1) simp
  with less assms show ?thesis by simp
next
  case greater
  then have "Suc b2 * S \<le> b1 * S" by (intro mult_le_mono1) simp
  with greater assms show ?thesis by simp
qed simp

lemma after_target:
  assumes "unat tt < unat bpb * TICKS_PER_BEAT" "unat (tp_tick p) < unat bpb * TICKS_PER_BEAT"
  shows "tb < tp_bar p \<or> tp_bar p = tb \<and> tt < tp_tick p \<longleftrightarrow>
    tick_pos bpb tb tt < tick_pos bpb (tp_bar p) (tp_tick p)"
  using pos_less [OF assms, of "unat tb" "unat (tp_bar p)"]
  by (auto simp: tick_pos_def mult.assoc word_less_nat_alt word_unat_eq_iff)

text \<open>What each tempo point stands for: its position and its frames per tick.\<close>

definition stands_for :: "u32 \<Rightarrow> u32 \<Rightarrow> TempoPoint \<Rightarrow> nat \<times> nat \<Rightarrow> bool" where
  "stands_for sampleRate beatsPerBar p r \<longleftrightarrow>
     fst r = tick_pos beatsPerBar (tp_bar p) (tp_tick p)
   \<and> unat (tp_tick p) < unat beatsPerBar * TICKS_PER_BEAT
   \<and> exact_tempo sampleRate (tp_bpm p) (snd r)"

text \<open>The last segment, after the loop.\<close>

definition last_segment :: "u32 \<Rightarrow> u32 \<Rightarrow> u32 \<Rightarrow> u32 \<Rightarrow> u64 \<times> u64 \<times> u64 \<times> u32 \<Rightarrow> u64 option" where
  "last_segment targetBar targetTick sampleRate beatsPerBar s =
     (case s of (frame, lastBar, lastTick, currentBpm) \<Rightarrow>
        map_option (\<lambda>k. frame + k)
          (frames_for (delta_ticks targetBar targetTick lastBar lastTick beatsPerBar)
             (frames_per_tick sampleRate currentBpm)))"

lemma exact_tempo_pos: "exact_tempo sr bpm F \<Longrightarrow> 0 < sr \<Longrightarrow> 0 < F"
  by (rule gr0I) (auto simp: exact_tempo_def word_gt_0 unat_eq_0)

lemma segment_exact:
  assumes "exact_tempo sr bpm F" "0 < sr" "F * n < 2 ^ 53"
  shows "frames_for (of_nat n) (frames_per_tick sr bpm) = Some (of_nat (F * n))"
proof -
  have "n \<le> F * n" using exact_tempo_pos [OF assms(1,2)] by simp
  then show ?thesis using frames_for_exact [OF assms(1,3)] assms(3) by linarith
qed

lemma tempo_loop_exact:
  assumes "list_all2 (stands_for sr bpb) ps rs" "sorted (from # map fst rs)" "0 < sr"
    and "unat tt < unat bpb * TICKS_PER_BEAT" "from \<le> tick_pos bpb tb tt" "exact_tempo sr bpm F"
    and "from = lb * unat bpb * TICKS_PER_BEAT + lt" "base + tempo_ref rs (tick_pos bpb tb tt) from F < 2 ^ 53"
  shows "Option.bind (tempo_loop ps tb tt sr bpb (of_nat base) (of_nat lb) (of_nat lt) bpm) (last_segment tb tt sr bpb)
    = Some (of_nat (base + tempo_ref rs (tick_pos bpb tb tt) from F))"
  using assms
proof (induction ps rs arbitrary: "from" lb lt base bpm F rule: list_all2_induct)
  case Nil
  have "frames_for (of_nat (tick_pos bpb tb tt - from)) (frames_per_tick sr bpm) = Some (of_nat (F * (tick_pos bpb tb tt - from)))"
    using Nil by (intro segment_exact) simp_all
  then show ?case
    using delta_ticks_pos [OF refl refl Nil(6,4)] by (simp add: last_segment_def)
next
  case (Cons p ps r rs)
  obtain q G where r: "r = (q, G)" by fastforce
  have p: "q = tick_pos bpb (tp_bar p) (tp_tick p)" "unat (tp_tick p) < unat bpb * TICKS_PER_BEAT" "exact_tempo sr (tp_bpm p) G"
    using Cons(1) by (simp_all add: stands_for_def r)
  note cmp = after_target [OF Cons.prems(3) p(2), of tb]
  show ?case
  proof (cases "tick_pos bpb tb tt < q")
    case True
    have "frames_for (of_nat (tick_pos bpb tb tt - from)) (frames_per_tick sr bpm) = Some (of_nat (F * (tick_pos bpb tb tt - from)))"
      using Cons.prems True by (intro segment_exact) (simp_all add: r)
    with True cmp show ?thesis
      using delta_ticks_pos [OF refl refl Cons.prems(6,4)] by (simp add: last_segment_def r p(1))
  next
    case False
    have b: "base + F * (q - from) + tempo_ref rs (tick_pos bpb tb tt) q G < 2 ^ 53"
      using Cons.prems(7) False by (simp add: r)
    have seg: "frames_for (of_nat (q - from)) (frames_per_tick sr bpm) = Some (of_nat (F * (q - from)))"
      using Cons.prems(2,5) b by (intro segment_exact) simp_all
    have d: "delta_ticks (tp_bar p) (tp_tick p) (of_nat lb) (of_nat lt) bpb = of_nat (q - from)"
      using delta_ticks_pos [OF refl refl Cons.prems(6), of "tp_bar p" "tp_tick p"] Cons.prems(1) by (simp add: r p(1))
    have "Option.bind (tempo_loop ps tb tt sr bpb (of_nat (base + F * (q - from))) (of_nat (unat (tp_bar p)))
          (of_nat (unat (tp_tick p))) (tp_bpm p)) (last_segment tb tt sr bpb)
        = Some (of_nat (base + F * (q - from) + tempo_ref rs (tick_pos bpb tb tt) q G))"
      using Cons.prems False p b by (intro Cons.IH) (simp_all add: r tick_pos_def)
    moreover have c: "\<not> (tb < tp_bar p \<or> tp_bar p = tb \<and> tt < tp_tick p)" using False unfolding cmp p(1) .
    have "tempo_loop (p # ps) tb tt sr bpb (of_nat base) (of_nat lb) (of_nat lt) bpm =
        tempo_loop ps tb tt sr bpb (of_nat (base + F * (q - from))) (of_nat (unat (tp_bar p))) (of_nat (unat (tp_tick p))) (tp_bpm p)"
      unfolding tempo_loop.simps if_not_P [OF c] Let_def d seg by simp
    ultimately show ?thesis using False by (simp add: r add.assoc)
  qed
qed

lemma TempoMapToFrame_bind:
  "tm_points mp = p0 # ps \<Longrightarrow> TempoMapToFrame mp tb tt sr bpb =
     Option.bind (tempo_loop (p0 # ps) tb tt sr bpb 0 0 0 (tp_bpm p0)) (last_segment tb tt sr bpb)"
  by (simp add: TempoMapToFrame_def last_segment_def Let_def split: option.split prod.split)

text \<open>
  C17: \<^verbatim>\<open>TempoMapToFrame\<close> is exact where it can be: when the tempo points are in order, their ticks lie within
  a bar, and every tempo divides the sample rate into a whole number of frames per tick, the result is the sum of
  the segment lengths times their frames per tick, computed without rounding (below \<open>2 ^ 53\<close> frames). The first tempo
  also applies before the first point.
\<close>

theorem tempo_map_exact:
  assumes "tm_points mp = p0 # ps" "list_all2 (stands_for sr bpb) (p0 # ps) rs" "sorted (map fst rs)" "0 < sr"
    and "unat tt < unat bpb * TICKS_PER_BEAT" "tempo_ref rs (tick_pos bpb tb tt) 0 (snd (hd rs)) < 2 ^ 53"
  shows "TempoMapToFrame mp tb tt sr bpb = Some (of_nat (tempo_ref rs (tick_pos bpb tb tt) 0 (snd (hd rs))))"
proof -
  obtain r rs' where rs: "rs = r # rs'" using assms(2) by (cases rs) auto
  have "exact_tempo sr (tp_bpm p0) (snd (hd rs))" using assms(2) by (simp add: rs stands_for_def)
  then show ?thesis
    using tempo_loop_exact [OF assms(2) _ assms(4,5), of 0 tb "tp_bpm p0" "snd (hd rs)" 0 0 0] assms(3,6)
    by (simp add: TempoMapToFrame_bind [OF assms(1)])
qed

definition slow_down :: TempoMap where
  "slow_down = \<lparr>tm_points = [\<lparr>tp_bar = 0, tp_tick = 0, tp_bpm = f32_of_nat 120\<rparr>, \<lparr>tp_bar = 2, tp_tick = 0, tp_bpm = f32_of_nat 60\<rparr>]\<rparr>"

theorem tempo_map_exact_witness:
  "TempoMapToFrame slow_down 3 0 48000 4 = Some 384000"
proof -
  have "exact_tempo 48000 (f32_of_nat 120) 25" "exact_tempo 48000 (f32_of_nat 60) 50"
    by (auto simp: exact_tempo_def TICKS_PER_BEAT_def intro: exI [of _ 120] exI [of _ 60])
  then show ?thesis
    using tempo_map_exact [of slow_down "\<lparr>tp_bar = 0, tp_tick = 0, tp_bpm = f32_of_nat 120\<rparr>"
        "[\<lparr>tp_bar = 2, tp_tick = 0, tp_bpm = f32_of_nat 60\<rparr>]" 48000 4 "[(0, 25), (7680, 50)]" 0 3]
    by (simp add: slow_down_def stands_for_def tick_pos_def TICKS_PER_BEAT_def)
qed

subsection \<open>Undefined cases\<close>

lemma f64_special: "f64_val (f64_of NaN) = NaN" "f64_val (f64_of (Inf s)) = Inf s" "f64_val (f64_of (Fin False 0 d)) = Fin False 0 (2 ^ 1074)"
  by (cases s) (simp_all add: f64_val_def f64_of_def fp_encode_def fp_decode_def fp_emin_def)

text \<open>
  Two inputs the function does not guard against: a map without points (its first point is read all the
  same), and a first point at the origin with a tempo of zero, whose \<open>0 * \<infinity>\<close> frames cannot be converted to an integer.
  Both are undefined behaviour for every target.
\<close>

theorem tempo_map_unguarded:
  "TempoMapToFrame \<lparr>tm_points = []\<rparr> tb tt sr bpb = None
   \<and> TempoMapToFrame \<lparr>tm_points = \<lparr>tp_bar = 0, tp_tick = 0, tp_bpm = 0\<rparr> # ps\<rparr> tb tt sr bpb = None"
proof -
  have z: "f64_val (f64_of_f32 (f32_mul 0 (f32_of_nat TICKS_PER_BEAT))) = Fin False 0 (2 ^ 1074)"
  proof -
    obtain k where "f32_val (f32_of_nat 960) = Fin False (960 * 2 ^ k) (2 ^ k)"
      using f32_of_nat_exact [of 960] by (auto simp: is_nat_val_def)
    moreover have "f32_val 0 = Fin False 0 (2 ^ 149)" by (simp add: f32_val_def fp_decode_def fp_emin_def)
    ultimately have "f32_mul 0 (f32_of_nat 960) = 0" by (simp add: f32_mul_def f32_of_def fp_encode_def)
    then show ?thesis
      by (simp add: TICKS_PER_BEAT_def f64_of_f32_def f32_val_def fp_decode_def fp_emin_def f64_special)
  qed
  have sr: "60 * unat sr < 2 ^ 53"
    by (rule le_less_trans [OF mult_le_mono2 [OF less_imp_le [OF unat_u32_lt]]]) simp
  then have "unat sr < 2 ^ 53" by linarith
  with sr have "is_nat_val (f64_val (f64_mul (f64_of_nat 60) (f64_of_nat (unat sr)))) (60 * unat sr)"
    by (intro f64_mul_nat f64_of_nat_exact) simp_all
  then obtain n d where "f64_val (f64_mul (f64_of_nat 60) (f64_of_nat (unat sr))) = Fin False n d"
    by (auto simp: is_nat_val_def)
  then have "f64_val (frames_per_tick sr 0) \<in> {NaN, Inf False}"
    by (simp add: frames_per_tick_def f64_div_def z f64_special)
  moreover have "f64_val (f64_of_nat 0) = Fin False 0 (2 ^ 1074)"
    by (simp add: f64_of_nat_def f64_special)
  ultimately have "frames_for 0 (frames_per_tick sr 0) = None"
    by (auto simp: frames_for_def f64_mul_def f64_special f64_to_u64_def)
  then have "TempoMapToFrame \<lparr>tm_points = \<lparr>tp_bar = 0, tp_tick = 0, tp_bpm = 0\<rparr> # ps\<rparr> tb tt sr bpb = None"
    by (simp add: TempoMapToFrame_def delta_ticks_def)
  then show ?thesis by (simp add: TempoMapToFrame_def)
qed

end
