(* ===== verification/Haze_Text.thy ===== *)
theory Haze_Text
  imports Haze_Request Haze_Float
begin

text \<open>
  The functions that render text: \<^verbatim>\<open>StrDup\<close> (\<^verbatim>\<open>strdup.c\<close>), \<^verbatim>\<open>ResponseToString\<close> (\<^verbatim>\<open>Response.c\<close>), \<^verbatim>\<open>RequestPrint\<close>
  (\<^verbatim>\<open>Request.c\<close>) and the session log (\<^verbatim>\<open>SessionLog.h\<close>). What a function prints is its result; the clock, the
  result of \<^verbatim>\<open>strftime\<close> and the text \<^verbatim>\<open>vfprintf\<close> makes of format and arguments are arguments.
\<close>

subsection \<open>Strings\<close>

definition StrDup :: "byte list option \<Rightarrow> mem \<Rightarrow> byte list option \<times> mem" where
  "StrDup str m =
     (case str of
        None \<Rightarrow> (None, m)
      | Some s \<Rightarrow> (let (ok, m) = malloc m in if \<not> ok then (None, m) else (Some s, m)))"

text \<open>The conversions \<^verbatim>\<open>%d\<close> and \<^verbatim>\<open>%ld\<close>, and \<^verbatim>\<open>%f\<close> with its six digits.\<close>

definition fmt_d :: "int \<Rightarrow> byte list" where
  "fmt_d i = (if i < 0 then cstr ''-'' @ dec (nat (- i)) else dec (nat i))"

definition pad_left :: "nat \<Rightarrow> byte list \<Rightarrow> byte list" where
  "pad_left n ds = replicate (n - length ds) 48 @ ds"

definition fmt_f :: "u64 \<Rightarrow> byte list" where
  "fmt_f f =
     (case f64_val f of
        NaN \<Rightarrow> (if bit f 63 then cstr ''-nan'' else cstr ''nan'')
      | Inf s \<Rightarrow> (if s then cstr ''-inf'' else cstr ''inf'')
      | Fin s n d \<Rightarrow>
          (let q = round_even (10 ^ 6 * n) d
           in (if s then cstr ''-'' else []) @ dec (q div 10 ^ 6) @ cstr ''.'' @ pad_left 6 (dec (q mod 10 ^ 6))))"

subsection \<open>\<^verbatim>\<open>ResponseToString\<close>\<close>

text \<open>
  The member \<^verbatim>\<open>str_value\<close> of an object's union: its own string, the \<^verbatim>\<open>NULL\<close> that a zeroed union holds, or (\<open>None\<close>)
  the bits of another member.
\<close>

definition union_str :: "ObjectValue \<Rightarrow> byte list option option" where
  "union_str v =
     (case v of
        V_STR p \<Rightarrow> Some p
      | V_UND \<Rightarrow> Some None
      | V_NIL \<Rightarrow> Some None
      | V_BOOL b \<Rightarrow> (if b then None else Some None)
      | V_INT i \<Rightarrow> (if i = 0 then Some None else None)
      | V_UINT u \<Rightarrow> (if u = 0 then Some None else None)
      | V_FLOAT f \<Rightarrow> (if f = 0 then Some None else None)
      | V_DOUBLE d \<Rightarrow> (if d = 0 then Some None else None)
      | V_BIN p \<Rightarrow> (if p = None then Some None else None)
      | V_ARRAY p \<Rightarrow> (if p = None then Some None else None)
      | V_MAP_null \<Rightarrow> Some None
      | _ \<Rightarrow> None)"

definition ObjectGetValue_str :: "Object option \<Rightarrow> byte list option option" where
  "ObjectGetValue_str t = (case t of None \<Rightarrow> Some None | Some ob \<Rightarrow> union_str (obj_value ob))"

definition ResponseError :: "Response option \<Rightarrow> Object option" where
  "ResponseError r = (case r of None \<Rightarrow> None | Some s \<Rightarrow> rsp_error s)"

definition ResponseResult :: "Response option \<Rightarrow> Object option" where
  "ResponseResult r = (case r of None \<Rightarrow> None | Some s \<Rightarrow> rsp_result s)"

definition ResponseMsgId :: "Response option \<Rightarrow> u32" where
  "ResponseMsgId r = (case r of None \<Rightarrow> 0 | Some s \<Rightarrow> rsp_msgid s)"

text \<open>The switch over the result's type; \<^verbatim>\<open>OBJ_NIL\<close> and \<^verbatim>\<open>OBJ_BOOL\<close> fall through to the next case.\<close>

definition result_text :: "Object option \<Rightarrow> mem \<Rightarrow> (byte list option \<times> mem) option" where
  "result_text ob m =
     (let as_str = (\<lambda>m. map_option (\<lambda>p. StrDup p m) (ObjectGetValue_str ob));
          lit = (\<lambda>s m. Some (StrDup (Some (cstr s)) m));
          number = lit ''some integer''
      in case ObjectGetType ob of
           OBJ_NIL \<Rightarrow> as_str (snd (StrDup (Some (cstr ''nil'')) m))
         | OBJ_STR \<Rightarrow> as_str m
         | OBJ_UND \<Rightarrow> lit ''und'' m
         | OBJ_BOOL \<Rightarrow> number (snd (StrDup (Some (cstr ''true'')) m))
         | OBJ_DOUBLE \<Rightarrow> number m
         | OBJ_FLOAT \<Rightarrow> number m
         | OBJ_INT \<Rightarrow> number m
         | OBJ_UINT \<Rightarrow> number m
         | OBJ_BIN \<Rightarrow> lit ''<binary_encoded'' m
         | _ \<Rightarrow> lit ''<undefined>'' m)"

text \<open>\<^verbatim>\<open>sprintf\<close> into a block: the text and its terminator have to fit; a \<^verbatim>\<open>NULL\<close> block takes nothing.\<close>

definition sprintf_into :: "nat option \<Rightarrow> byte list \<Rightarrow> byte list option" where
  "sprintf_into block text =
     (case block of None \<Rightarrow> None | Some n \<Rightarrow> if length text + 1 \<le> n then Some text else None)"

definition percent_s :: "byte list option \<Rightarrow> byte list" where
  "percent_s s = (case s of None \<Rightarrow> cstr ''(null)'' | Some s \<Rightarrow> s)"

definition ResponseToString :: "Response option \<Rightarrow> mem \<Rightarrow> (byte list \<times> mem) option" where
  "ResponseToString res m =
     (let (ok, m) = malloc m;
          responseStr = (if ok then Some 1 else None)
      in case ObjectGetValue_str (ResponseError res) of
           None \<Rightarrow> None
         | Some p \<Rightarrow>
             (let (strError, m) = StrDup p m
              in case result_text (ResponseResult res) m of
                   None \<Rightarrow> None
                 | Some (strResult, m) \<Rightarrow>
                     (let text = cstr ''['' @ fmt_d (sint HAZE_RPC_RESPONSE) @ cstr '','' @ fmt_d (sint (ResponseMsgId res))
                            @ cstr '','' @ percent_s strError @ cstr '','' @ percent_s strResult @ cstr '']''
                      in case sprintf_into responseStr text of
                           None \<Rightarrow> None
                         | Some t \<Rightarrow> Some (t, free_opt strResult (free_opt strError m)))))"

text \<open>The buffer has one byte: no response can be rendered, whatever it contains and however memory behaves.\<close>

lemma response_to_string_undefined: "ResponseToString res m = None"
  by (auto simp: ResponseToString_def sprintf_into_def Let_def cstr_def split: option.split prod.split)

subsection \<open>\<^verbatim>\<open>RequestPrint\<close>\<close>

definition type_number :: "ObjectType \<Rightarrow> nat" where
  "type_number t =
     (case t of
        OBJ_UND \<Rightarrow> 0 | OBJ_NIL \<Rightarrow> 1 | OBJ_BOOL \<Rightarrow> 2 | OBJ_INT \<Rightarrow> 3 | OBJ_UINT \<Rightarrow> 4 | OBJ_FLOAT \<Rightarrow> 5
      | OBJ_DOUBLE \<Rightarrow> 6 | OBJ_STR \<Rightarrow> 7 | OBJ_BIN \<Rightarrow> 8 | OBJ_ARRAY \<Rightarrow> 9 | OBJ_MAP \<Rightarrow> 10)"

definition print_param :: "Object option \<Rightarrow> byte list" where
  "print_param param =
     (case param of
        None \<Rightarrow> cstr ''null''
      | Some ob \<Rightarrow>
          (case obj_value ob of
             V_INT i \<Rightarrow> fmt_d (sint i)
           | V_UINT u \<Rightarrow> dec (unat u)
           | V_STR s \<Rightarrow> [34] @ (case s of Some s \<Rightarrow> s | None \<Rightarrow> []) @ [34]
           | V_BOOL b \<Rightarrow> (if b then cstr ''true'' else cstr ''false'')
           | V_FLOAT f \<Rightarrow> fmt_f (f64_of_f32 f)
           | V_DOUBLE d \<Rightarrow> fmt_f d
           | v \<Rightarrow> cstr ''<object type '' @ dec (type_number (value_type v)) @ cstr ''>''))"

text \<open>The loop from \<open>i\<close> on, with \<open>k\<close> parameters left.\<close>

fun RequestPrint_loop :: "ObjectArray option \<Rightarrow> nat \<Rightarrow> nat \<Rightarrow> byte list" where
  "RequestPrint_loop ps i 0 = []"
| "RequestPrint_loop ps i (Suc k) =
     print_param (ObjectArrayGet ps i) @ (if k \<noteq> 0 then cstr '', '' else []) @ RequestPrint_loop ps (i + 1) k"

text \<open>What is printed; the string returned is empty in every case.\<close>

definition RequestPrint :: "Request option \<Rightarrow> byte list" where
  "RequestPrint r =
     (case r of
        None \<Rightarrow> []
      | Some rq \<Rightarrow>
          cstr ''['' @ fmt_d (sint (req_type rq)) @ cstr '', '' @ dec (unat (req_msgid rq)) @ cstr '', '' @ [34]
          @ (case req_method rq of Some s \<Rightarrow> s | None \<Rightarrow> []) @ [34] @ cstr '', [''
          @ RequestPrint_loop (req_parameters rq) 0 (unat (RequestParamCount r))
          @ cstr '']]'' @ [10])"

fun join :: "byte list \<Rightarrow> byte list list \<Rightarrow> byte list" where
  "join sep [] = []"
| "join sep [x] = x"
| "join sep (x # y # ys) = x @ sep @ join sep (y # ys)"

lemma RequestPrint_loop_join:
  "arr_objects a = xs @ ys \<Longrightarrow> RequestPrint_loop (Some a) (length xs) (length ys) = join (cstr '', '') (map print_param ys)"
proof (induction ys arbitrary: xs)
  case (Cons y ys)
  from Cons.IH [of "xs @ [y]"] Cons.prems show ?case
    by (cases ys) (simp_all add: ObjectArrayGet_def nth_append)
qed simp

text \<open>
  \<^verbatim>\<open>RequestPrint\<close> prints \<^verbatim>\<open>[type, id, "method", [p1, ..., pn]]\<close>: the parameters in order, separated by commas
  and with none after the last one.
\<close>

theorem request_print_format:
  assumes "req_parameters rq = Some ps" "length (arr_objects ps) < 2 ^ 32"
  shows "RequestPrint (Some rq) =
    cstr ''['' @ fmt_d (sint (req_type rq)) @ cstr '', '' @ dec (unat (req_msgid rq)) @ cstr '', '' @ [34]
    @ (case req_method rq of Some s \<Rightarrow> s | None \<Rightarrow> []) @ [34] @ cstr '', [''
    @ join (cstr '', '') (map print_param (arr_objects ps)) @ cstr '']]'' @ [10]"
  using RequestPrint_loop_join [of ps "[]" "arr_objects ps"] assms
  by (simp add: RequestPrint_def RequestParamCount_def ObjectArrayLen_def)

theorem request_print_format_witness:
  "RequestPrint (Some \<lparr>req_type = 0, req_msgid = 12, req_method = Some (cstr ''m''),
      req_parameters = Some (ObjectArray [Some (Object (V_INT (- 7)) 8), None, Some (Object (V_STR (Some (cstr ''x''))) 1)] 8)\<rparr>)
   = cstr ''[0, 12, '' @ [34] @ cstr ''m'' @ [34] @ cstr '', [-7, null, '' @ [34] @ cstr ''x'' @ [34] @ cstr '']]'' @ [10]"
  using request_print_format [of "\<lparr>req_type = 0, req_msgid = 12, req_method = Some (cstr ''m''),
      req_parameters = Some (ObjectArray [Some (Object (V_INT (- 7)) 8), None, Some (Object (V_STR (Some (cstr ''x''))) 1)] 8)\<rparr>"
      "ObjectArray [Some (Object (V_INT (- 7)) 8), None, Some (Object (V_STR (Some (cstr ''x''))) 1)] 8"]
  by (simp add: fmt_d_def dec_small dec_step print_param_def cstr_def)

subsection \<open>The session log\<close>

definition SessionLogLevelString :: "nat \<Rightarrow> byte list" where
  "SessionLogLevelString level =
     (if level = 0 then cstr ''DBG'' else if level = 1 then cstr ''INF'' else if level = 2 then cstr ''WRN''
      else if level = 3 then cstr ''ERR'' else cstr ''???'')"

fun short_file_loop :: "byte list \<Rightarrow> byte list \<Rightarrow> byte list" where
  "short_file_loop [] short = short"
| "short_file_loop (c # cs) short = (if c = 47 \<or> c = 92 then short_file_loop cs cs else short_file_loop cs short)"

text \<open>
  \<^verbatim>\<open>SessionLog\<close>: the line written, \<open>timebuf\<close> being what \<^verbatim>\<open>strftime\<close> made of the time, \<open>nsec\<close> the nanoseconds and
  \<open>body\<close> the formatted message.
\<close>

definition SessionLog ::
  "byte list \<Rightarrow> nat \<Rightarrow> bool \<Rightarrow> nat \<Rightarrow> byte list option \<Rightarrow> byte list option \<Rightarrow> int \<Rightarrow> byte list option \<Rightarrow> byte list" where
  "SessionLog timebuf nsec output level module file line body =
     (case (module, file, body) of
        (Some module, Some file, Some body) \<Rightarrow>
          if \<not> output then []
          else
            cstr ''['' @ timebuf @ cstr ''.'' @ pad_left 3 (dec (nsec div 1000000)) @ cstr ''] [''
            @ SessionLogLevelString level @ cstr ''] [Session:'' @ module @ cstr ''] (''
            @ short_file_loop file file @ cstr '':'' @ fmt_d line @ cstr '') '' @ body @ [10]
      | _ \<Rightarrow> [])"

text \<open>
  The four macros; \<open>file\<close> and \<open>line\<close> are \<^verbatim>\<open>__FILE__\<close> and \<^verbatim>\<open>__LINE__\<close> of the place they are used.
\<close>

definition SESSION_LOG_DEBUG :: nat where "SESSION_LOG_DEBUG = 0"
definition SESSION_LOG_INFO :: nat where "SESSION_LOG_INFO = 1"
definition SESSION_LOG_WARN :: nat where "SESSION_LOG_WARN = 2"
definition SESSION_LOG_ERROR :: nat where "SESSION_LOG_ERROR = 3"

definition SessionLogDebug ::
  "byte list \<Rightarrow> nat \<Rightarrow> byte list \<Rightarrow> int \<Rightarrow> bool \<Rightarrow> byte list option \<Rightarrow> byte list option \<Rightarrow> byte list" where
  "SessionLogDebug timebuf nsec file line output module body =
     SessionLog timebuf nsec output SESSION_LOG_DEBUG module (Some file) line body"

definition SessionLogInfo ::
  "byte list \<Rightarrow> nat \<Rightarrow> byte list \<Rightarrow> int \<Rightarrow> bool \<Rightarrow> byte list option \<Rightarrow> byte list option \<Rightarrow> byte list" where
  "SessionLogInfo timebuf nsec file line output module body =
     SessionLog timebuf nsec output SESSION_LOG_INFO module (Some file) line body"

definition SessionLogWarn ::
  "byte list \<Rightarrow> nat \<Rightarrow> byte list \<Rightarrow> int \<Rightarrow> bool \<Rightarrow> byte list option \<Rightarrow> byte list option \<Rightarrow> byte list" where
  "SessionLogWarn timebuf nsec file line output module body =
     SessionLog timebuf nsec output SESSION_LOG_WARN module (Some file) line body"

definition SessionLogError ::
  "byte list \<Rightarrow> nat \<Rightarrow> byte list \<Rightarrow> int \<Rightarrow> bool \<Rightarrow> byte list option \<Rightarrow> byte list option \<Rightarrow> byte list" where
  "SessionLogError timebuf nsec file line output module body =
     SessionLog timebuf nsec output SESSION_LOG_ERROR module (Some file) line body"

lemma session_log_macros:
  assumes "SessionLogDebug t n f k True (Some md) (Some b) = d" "SessionLogInfo t n f k True (Some md) (Some b) = i"
    "SessionLogWarn t n f k True (Some md) (Some b) = w" "SessionLogError t n f k True (Some md) (Some b) = e"
  shows "distinct [d, i, w, e]"
  using assms by (auto simp: SessionLogDebug_def SessionLogInfo_def SessionLogWarn_def SessionLogError_def SessionLog_def
      SESSION_LOG_DEBUG_def SESSION_LOG_INFO_def SESSION_LOG_WARN_def SESSION_LOG_ERROR_def SessionLogLevelString_def cstr_def)

definition separator :: "byte \<Rightarrow> bool" where
  "separator c \<longleftrightarrow> c = 47 \<or> c = 92"

lemma short_file_loop_Cons:
  "short_file_loop (c # cs) short = (if separator c then short_file_loop cs cs else short_file_loop cs short)"
  by (simp add: separator_def)

lemma short_file_loop_spec:
  "short_file_loop cs short = (if list_ex separator cs then rev (takeWhile (\<lambda>c. \<not> separator c) (rev cs)) else short)"
proof (induction cs arbitrary: short)
  case (Cons c cs)
  have "takeWhile (\<lambda>c. \<not> separator c) (rev cs @ [c]) =
      (if list_ex separator cs then takeWhile (\<lambda>c. \<not> separator c) (rev cs)
       else if separator c then rev cs else rev cs @ [c])"
    by (auto simp: takeWhile_append list_ex_iff)
  with Cons show ?case by (auto simp: short_file_loop_Cons simp del: short_file_loop.simps(2))
qed simp

definition three_digits :: "nat \<Rightarrow> byte list" where
  "three_digits n = [48 + of_nat (n div 100), 48 + of_nat (n div 10 mod 10), 48 + of_nat (n mod 10)]"

lemma pad_three:
  assumes "n < 1000"
  shows "pad_left 3 (dec n) = three_digits n"
proof -
  have r: "replicate 2 x = [x, x]" for x :: byte by (simp add: numeral_2_eq_2)
  consider "n < 10" | "10 \<le> n" "n < 100" | "100 \<le> n" by linarith
  then show ?thesis
  proof cases
    case 1
    then show ?thesis by (simp add: pad_left_def three_digits_def dec_small r)
  next
    case 2
    then have "n div 10 < 10" by simp
    with 2 show ?thesis by (simp add: pad_left_def three_digits_def dec_small dec_step r)
  next
    case 3
    then have "10 \<le> n div 10" "n div 10 div 10 = n div 100" "n div 100 < 10" using assms by simp_all
    with 3 show ?thesis by (simp add: pad_left_def three_digits_def dec_small dec_step)
  qed
qed

text \<open>
  A session log entry names its source by the part of the path after the last \<^verbatim>\<open>/\<close> or \<^verbatim>\<open>\\<close>, carries the milliseconds
  with exactly three digits, and ends with the message and a newline; without an output, module, file or format nothing
  is written.
\<close>

theorem session_log_line:
  assumes "nsec < 10 ^ 9"
  shows "SessionLog timebuf nsec True level (Some module) (Some file) line (Some body) =
      cstr ''['' @ timebuf @ cstr ''.'' @ three_digits (nsec div 10 ^ 6) @ cstr ''] ['' @ SessionLogLevelString level @ cstr ''] [Session:''
      @ module @ cstr ''] ('' @ rev (takeWhile (\<lambda>c. \<not> separator c) (rev file)) @ cstr '':'' @ fmt_d line
      @ cstr '') '' @ body @ [10]
    \<and> SessionLog timebuf nsec out level None f line b = [] \<and> SessionLog timebuf nsec out level md None line b = []
    \<and> SessionLog timebuf nsec out level md f line None = [] \<and> SessionLog timebuf nsec False level md f line b = []"
proof -
  have "pad_left 3 (dec (nsec div 1000000)) = three_digits (nsec div 10 ^ 6)"
    using assms by (simp add: pad_three)
  moreover have "short_file_loop file file = rev (takeWhile (\<lambda>c. \<not> separator c) (rev file))"
  proof (cases "list_ex separator file")
    case False
    then have t: "takeWhile (\<lambda>c. \<not> separator c) (rev file) = rev file" by (simp add: takeWhile_eq_all_conv list_ex_iff)
    show ?thesis unfolding t using False by (simp add: short_file_loop_spec)
  qed (simp add: short_file_loop_spec)
  ultimately show ?thesis
    by (simp add: SessionLog_def split: option.split)
qed

theorem session_log_line_witness:
  "SessionLog (cstr ''09:05:07'') 42000000 True 2 (Some (cstr ''audio'')) (Some (cstr ''src/a.c'')) 12 (Some (cstr ''late'')) =
     cstr ''[09:05:07.042] [WRN] [Session:audio] (a.c:12) late'' @ [10]"
  using session_log_line [of 42000000 "cstr ''09:05:07''" 2 "cstr ''audio''" "cstr ''src/a.c''" 12 "cstr ''late''" True None None None]
  by (simp add: SessionLogLevelString_def separator_def cstr_def fmt_d_def dec_small dec_step three_digits_def)

end
