(* ===== verification/Haze_Project.thy ===== *)
theory Haze_Project
  imports Haze_RawBuffer Mpack_Writer Mpack_Expect
begin

text \<open>
  \<^verbatim>\<open>source/project/Header.c\<close>: writing and reading the header of a project file, with the parts of MPack only it uses, and
  the tag table of \<^verbatim>\<open>source/msgpack/Tag.h\<close>. Undefined behaviour (a write through \<^verbatim>\<open>NULL\<close>) is \<open>None\<close>; a function that ends
  without its \<^verbatim>\<open>return\<close> gives \<open>No_value\<close>.
\<close>

unbundle bit_operations_syntax

subsection \<open>The header\<close>

datatype 'a returned = Returned 'a | No_value

record ProjectHeader =
  ph_SchemaVersion :: u64
  ph_HazeVersion :: u64
  ph_ProjectName :: "byte list option"
  ph_Author :: "byte list option"
  ph_CreatedAt :: u64
  ph_ProjectPath :: "byte list option"

definition zero_header :: ProjectHeader where
  "zero_header = \<lparr>ph_SchemaVersion = 0, ph_HazeVersion = 0, ph_ProjectName = None, ph_Author = None,
     ph_CreatedAt = 0, ph_ProjectPath = None\<rparr>"

definition RawBufferIsNullOrEmpty :: "RawBuffer option \<Rightarrow> bool" where
  "RawBufferIsNullOrEmpty b =
     (case b of None \<Rightarrow> True | Some rb \<Rightarrow> rb_data rb = None \<or> rb_len rb = 0)"

text \<open>
  \<^verbatim>\<open>mpack_writer_init_growable\<close> stores \<^verbatim>\<open>NULL\<close> and 0 through its two target pointers first; \<open>targets\<close> tells whether
  they point somewhere.
\<close>

definition init_growable_at :: "bool \<Rightarrow> mem \<Rightarrow> (mpack_writer \<times> mem) option" where
  "init_growable_at targets m = (if targets then Some (mpack_writer_init_growable m) else None)"

text \<open>\<^verbatim>\<open>mpack_write_cstr\<close> takes the length of its argument, so \<^verbatim>\<open>NULL\<close> is not an argument for it.\<close>

definition write_cstr_ptr :: "mpack_writer \<Rightarrow> byte list option \<Rightarrow> mem \<Rightarrow> (mpack_writer \<times> mem) option" where
  "write_cstr_ptr w s m = map_option (\<lambda>s. mpack_write_cstr w s m) s"

text \<open>
  \<^verbatim>\<open>ProjectHeaderCreate\<close>: the writer is initialised with \<^verbatim>\<open>NULL\<close> targets, never finished, and no value is
  returned.
\<close>

definition ProjectHeaderCreate :: "ProjectHeader option \<Rightarrow> mem \<Rightarrow> (RawBuffer option returned \<times> mem) option" where
  "ProjectHeaderCreate header m =
     (case header of
        None \<Rightarrow> Some (Returned None, m)
      | Some h \<Rightarrow>
          (let (headerBuff, m) = RawBufferNew None 0 m in do {
             (w, m) \<leftarrow> init_growable_at False m;
             let (w, m) = mpack_write_u64 w (ph_SchemaVersion h) m;
             let (w, m) = mpack_write_u64 w (ph_HazeVersion h) m;
             (w, m) \<leftarrow> write_cstr_ptr w (ph_ProjectName h) m;
             (w, m) \<leftarrow> write_cstr_ptr w (ph_Author h) m;
             (w, m) \<leftarrow> write_cstr_ptr w (ph_ProjectPath h) m;
             Some (No_value, m)
           }))"

text \<open>A store into a block that may be \<^verbatim>\<open>NULL\<close>.\<close>

definition poke :: "byte list option \<Rightarrow> nat \<Rightarrow> byte \<Rightarrow> byte list option option" where
  "poke buf i v = (case buf of None \<Rightarrow> None | Some b \<Rightarrow> if i < length b then Some (Some (b[i := v])) else None)"

definition mpack_read_cstr_unchecked ::
  "mpack_reader \<Rightarrow> byte list option \<Rightarrow> nat \<Rightarrow> nat \<Rightarrow> (byte list option \<times> mpack_reader) option" where
  "mpack_read_cstr_unchecked r buf buffer_size byte_count =
     (if r_error r \<noteq> mpack_ok then map_option (\<lambda>b. (b, r)) (poke buf 0 0)
      else if (buffer_size + (2 ^ 64 - 1)) mod 2 ^ 64 < byte_count
      then map_option (\<lambda>b. (b, mpack_reader_flag_error r mpack_error_too_big)) (poke buf 0 0)
      else
        let (data, r) = mpack_read_native r byte_count
        in case buf of
             None \<Rightarrow> None
           | Some b \<Rightarrow>
               if length b < byte_count then None
               else map_option (\<lambda>b. (b, r)) (poke (Some (data @ drop byte_count b)) byte_count 0))"

definition mpack_read_cstr ::
  "mpack_reader \<Rightarrow> byte list option \<Rightarrow> nat \<Rightarrow> nat \<Rightarrow> (byte list option \<times> mpack_reader) option" where
  "mpack_read_cstr r buf buffer_size byte_count =
     (case mpack_read_cstr_unchecked r buf buffer_size byte_count of
        None \<Rightarrow> None
      | Some (buf, r) \<Rightarrow>
          if r_error r = mpack_ok \<and> \<not> mpack_str_check_no_null (take byte_count (case buf of Some b \<Rightarrow> b | None \<Rightarrow> []))
          then map_option (\<lambda>b. (b, mpack_reader_flag_error r mpack_error_type)) (poke buf 0 0)
          else Some (buf, r))"

definition mpack_expect_cstr ::
  "mpack_reader \<Rightarrow> byte list option \<Rightarrow> nat \<Rightarrow> (byte list option \<times> mpack_reader) option" where
  "mpack_expect_cstr r buf bufsize =
     (let (len, r) = mpack_expect_str r in mpack_read_cstr r buf bufsize (unat len))"

text \<open>
  \<^verbatim>\<open>ProjectHeaderGet\<close>: the name is read into the data of a fresh empty buffer, copied, and the function ends without a
  \<^verbatim>\<open>return\<close>.
\<close>

definition ProjectHeaderGet :: "RawBuffer option \<Rightarrow> mem \<Rightarrow> (ProjectHeader returned \<times> mem) option" where
  "ProjectHeaderGet buf m =
     (if RawBufferIsNullOrEmpty buf then Some (Returned zero_header, m)
      else do {
        bs \<leftarrow> Option.bind (RawBufferData buf) (\<lambda>d. read_block d (RawBufferLen buf));
        let r = mpack_reader_init_data bs;
        let (schema, r) = mpack_expect_u64 r;
        let (haze, r) = mpack_expect_u64 r;
        let (project_name, m) = RawBufferNew None 0 m;
        (name, r) \<leftarrow> mpack_expect_cstr r (RawBufferData project_name) (RawBufferLen project_name);
        name \<leftarrow> name;
        let (copy, m) = strdup (until_nul name) m;
        Some (No_value, RawBufferFree project_name m)
      })"

lemma read_cstr_null: "mpack_read_cstr r None n k = None"
  by (simp add: mpack_read_cstr_def mpack_read_cstr_unchecked_def poke_def Let_def split: prod.split)

text \<open>
  The project header can be neither written nor read: for every header, and for every non-empty buffer,
  \<^verbatim>\<open>ProjectHeaderCreate\<close> and \<^verbatim>\<open>ProjectHeaderGet\<close> run into undefined behaviour (\<^verbatim>\<open>NULL\<close> targets for the writer, a \<^verbatim>\<open>NULL\<close>
  destination for the name), whatever the allocator does. Only the calls without input are defined.
\<close>

theorem project_header_unusable:
  "ProjectHeaderCreate (Some h) m = None
   \<and> (\<not> RawBufferIsNullOrEmpty b \<longrightarrow> ProjectHeaderGet b m = None)
   \<and> (RawBufferIsNullOrEmpty b \<longrightarrow> ProjectHeaderGet b m = Some (Returned zero_header, m))
   \<and> ProjectHeaderCreate None m = Some (Returned None, m)"
proof -
  have "RawBufferData (fst (RawBufferNew None 0 m)) = None"
    by (simp add: RawBufferNew_def RawBufferData_def Let_def split: prod.split)
  then show ?thesis
    by (auto simp: ProjectHeaderCreate_def init_growable_at_def ProjectHeaderGet_def mpack_expect_cstr_def read_cstr_null
        Let_def split: prod.split bind_splits)
qed

theorem project_header_unusable_witness:
  "ProjectHeaderGet (Some \<lparr>rb_data = Some [1, 2, 0xa1, 65], rb_len = 4\<rparr>) \<lparr>outcomes = [], live = 0\<rparr> = None
   \<and> ProjectHeaderGet None \<lparr>outcomes = [], live = 0\<rparr> = Some (Returned zero_header, \<lparr>outcomes = [], live = 0\<rparr>)"
  using project_header_unusable [of zero_header "\<lparr>outcomes = [], live = 0\<rparr>" "Some \<lparr>rb_data = Some [1, 2, 0xa1, 65], rb_len = 4\<rparr>"]
    project_header_unusable [of zero_header "\<lparr>outcomes = [], live = 0\<rparr>" None]
  by (simp add: RawBufferIsNullOrEmpty_def)

subsection \<open>The tag table\<close>

datatype MsgPackTag =
    MPACK_NIL | MPACK_RESERVED | MPACK_FALSE | MPACK_TRUE
  | MPACK_BIN8 | MPACK_BIN16 | MPACK_BIN32
  | MPACK_EXT8 | MPACK_EXT16 | MPACK_EXT32
  | MPACK_FLOAT32 | MPACK_FLOAT64
  | MPACK_UINT8 | MPACK_UINT16 | MPACK_UINT32 | MPACK_UINT64
  | MPACK_INT8 | MPACK_INT16 | MPACK_INT32 | MPACK_INT64
  | MPACK_FIXEXT1 | MPACK_FIXEXT2 | MPACK_FIXEXT4 | MPACK_FIXEXT8 | MPACK_FIXEXT16
  | MPACK_STR8 | MPACK_STR16 | MPACK_STR32
  | MPACK_ARRAY16 | MPACK_ARRAY32
  | MPACK_MAP16 | MPACK_MAP32

fun tag_code :: "MsgPackTag \<Rightarrow> byte" where
  "tag_code MPACK_NIL = 0xC0"
| "tag_code MPACK_RESERVED = 0xC1"
| "tag_code MPACK_FALSE = 0xC2"
| "tag_code MPACK_TRUE = 0xC3"
| "tag_code MPACK_BIN8 = 0xC4"
| "tag_code MPACK_BIN16 = 0xC5"
| "tag_code MPACK_BIN32 = 0xC6"
| "tag_code MPACK_EXT8 = 0xC7"
| "tag_code MPACK_EXT16 = 0xC8"
| "tag_code MPACK_EXT32 = 0xC9"
| "tag_code MPACK_FLOAT32 = 0xCA"
| "tag_code MPACK_FLOAT64 = 0xCB"
| "tag_code MPACK_UINT8 = 0xCC"
| "tag_code MPACK_UINT16 = 0xCD"
| "tag_code MPACK_UINT32 = 0xCE"
| "tag_code MPACK_UINT64 = 0xCF"
| "tag_code MPACK_INT8 = 0xD0"
| "tag_code MPACK_INT16 = 0xD1"
| "tag_code MPACK_INT32 = 0xD2"
| "tag_code MPACK_INT64 = 0xD3"
| "tag_code MPACK_FIXEXT1 = 0xD4"
| "tag_code MPACK_FIXEXT2 = 0xD5"
| "tag_code MPACK_FIXEXT4 = 0xD6"
| "tag_code MPACK_FIXEXT8 = 0xD7"
| "tag_code MPACK_FIXEXT16 = 0xD8"
| "tag_code MPACK_STR8 = 0xD9"
| "tag_code MPACK_STR16 = 0xDA"
| "tag_code MPACK_STR32 = 0xDB"
| "tag_code MPACK_ARRAY16 = 0xDC"
| "tag_code MPACK_ARRAY32 = 0xDD"
| "tag_code MPACK_MAP16 = 0xDE"
| "tag_code MPACK_MAP32 = 0xDF"

text \<open>The value type each tag announces and the length of the tag with its fields; \<open>None\<close> for what is not read.\<close>

fun tag_meaning :: "MsgPackTag \<Rightarrow> (mpack_type \<times> nat) option" where
  "tag_meaning MPACK_NIL = Some (mpack_type_nil, 1)"
| "tag_meaning MPACK_FALSE = Some (mpack_type_bool, 1)"
| "tag_meaning MPACK_TRUE = Some (mpack_type_bool, 1)"
| "tag_meaning MPACK_BIN8 = Some (mpack_type_bin, 2)"
| "tag_meaning MPACK_BIN16 = Some (mpack_type_bin, 3)"
| "tag_meaning MPACK_BIN32 = Some (mpack_type_bin, 5)"
| "tag_meaning MPACK_FLOAT32 = Some (mpack_type_float, 5)"
| "tag_meaning MPACK_FLOAT64 = Some (mpack_type_double, 9)"
| "tag_meaning MPACK_UINT8 = Some (mpack_type_uint, 2)"
| "tag_meaning MPACK_UINT16 = Some (mpack_type_uint, 3)"
| "tag_meaning MPACK_UINT32 = Some (mpack_type_uint, 5)"
| "tag_meaning MPACK_UINT64 = Some (mpack_type_uint, 9)"
| "tag_meaning MPACK_INT8 = Some (mpack_type_int, 2)"
| "tag_meaning MPACK_INT16 = Some (mpack_type_int, 3)"
| "tag_meaning MPACK_INT32 = Some (mpack_type_int, 5)"
| "tag_meaning MPACK_INT64 = Some (mpack_type_int, 9)"
| "tag_meaning MPACK_STR8 = Some (mpack_type_str, 2)"
| "tag_meaning MPACK_STR16 = Some (mpack_type_str, 3)"
| "tag_meaning MPACK_STR32 = Some (mpack_type_str, 5)"
| "tag_meaning MPACK_ARRAY16 = Some (mpack_type_array, 3)"
| "tag_meaning MPACK_ARRAY32 = Some (mpack_type_array, 5)"
| "tag_meaning MPACK_MAP16 = Some (mpack_type_map, 3)"
| "tag_meaning MPACK_MAP32 = Some (mpack_type_map, 5)"
| "tag_meaning _ = None"

text \<open>
  Haze's tag table and MPack's parser agree: a tag byte of the table followed by enough bytes is read as the
  type its name says and consumes the tag with its fields; the reserved byte and the extension tags are refused.
\<close>

theorem tag_table_agrees:
  assumes "9 \<le> length (tag_code t # bs)"
  shows "case tag_meaning t of
      Some (ty, n) \<Rightarrow> mpack_tag_type (fst (mpack_read_tag (rd (tag_code t # bs)))) = ty
          \<and> snd (mpack_read_tag (rd (tag_code t # bs))) = rd (drop n (tag_code t # bs))
    | None \<Rightarrow> r_error (snd (mpack_read_tag (rd (tag_code t # bs)))) \<noteq> mpack_ok"
  using assms
  by (cases t) (simp_all add: mpack_read_tag_def parse_defs mpack_reader_flag_error_def)

theorem tag_table_agrees_witness:
  "mpack_tag_type (fst (mpack_read_tag (rd (tag_code MPACK_INT16 # replicate 8 0)))) = mpack_type_int
   \<and> r_error (snd (mpack_read_tag (rd (tag_code MPACK_EXT8 # replicate 8 0)))) \<noteq> mpack_ok"
  using tag_table_agrees [of MPACK_INT16 "replicate 8 0"] tag_table_agrees [of MPACK_EXT8 "replicate 8 0"]
  by simp

end
