(* ===== verification/Spec2Isabelle.thy ===== *)
theory Spec2Isabelle
  imports Haze_Containers Client_Stream Haze_Run Haze_Tempo Haze_Text Haze_Project
begin

text \<open>
  A verification development for Haze, an audio service that answers MessagePack-RPC requests over
  TCP. A connection delivers bytes (\<^verbatim>\<open>source/server\<close>); they are decoded into a request
  (\<^verbatim>\<open>source/api/proto\<close> on top of the vendored MPack), dispatched by method name
  (\<^verbatim>\<open>source/api/Dispatcher.c\<close>) to the session of the context (\<^verbatim>\<open>source/Context.c\<close>,
  \<^verbatim>\<open>source/session\<close>, \<^verbatim>\<open>source/audio\<close>), and the response is encoded and sent back. A client library in C++
  (\<^verbatim>\<open>clients/cpp\<close>) builds requests and decodes the responses.

  \<^bold>\<open>Conventions.\<close> A pointer is an \<open>option\<close>; integers are words of their width; a \<^verbatim>\<open>float\<close> is its bit
  pattern; a function that allocates passes the allocator state \<open>mem\<close>, whose list of outcomes makes any
  request fail and whose \<open>live\<close> counts the blocks handed out and not released. An outer \<open>None\<close> is
  undefined behaviour (or a loop that never ends, where the text says so). A theorem without \<open>nofail\<close>
  holds under every allocator. Miniaudio, libuv, the file system, the clock and the functions
  \<^verbatim>\<open>JobQueue.h\<close> only declares are parameters: records of answers (\<open>miniaudio\<close>, \<open>uv\<close>, \<open>host\<close>) about which
  nothing is assumed except in named hypotheses (\<open>pushes\<close>, \<open>uv_writes\<close>, and that \<^verbatim>\<open>uv_loop_init\<close> needs a loop).

  \<^bold>\<open>Theories, from the bottom up.\<close>
  \<^item> \<open>Haze_Prelude\<close>: machine types, the allocator, C strings, shared lemmas and fact collections.
    \<open>Haze_Interfaces\<close>: the locales of slot arrays, of keyed tables and of simulations. \<open>Haze_Result\<close>: \<^verbatim>\<open>Result.h\<close> and
    \<^verbatim>\<open>ResultAudio.h\<close>.
  \<^item> \<open>MsgPack_Spec\<close>: the MessagePack values and their encoding, written from the format. \<open>Mpack_Common\<close>,
    \<open>Mpack_Writer\<close>, \<open>Mpack_Reader\<close>, \<open>Mpack_Expect\<close>: the functions of \<^verbatim>\<open>third_party/mpack\<close> that Haze calls;
    the writer emits exactly the encoding or flags an error, the reader inverts it, and discarding
    skips exactly one value.
  \<^item> \<open>Haze_RawBuffer\<close>, \<open>Haze_Object\<close>, \<open>Haze_Object_Laws\<close>, \<open>Haze_Containers\<close>: \<^verbatim>\<open>RawBuffer.c\<close> and \<^verbatim>\<open>Object.c\<close>;
    copying, releasing and comparing objects, and the interpretations of the two locales on object
    arrays and map tables: they behave like lists and like finite maps.
  \<^item> \<open>Haze_Marshal\<close>, \<open>Haze_Response\<close>, \<open>Haze_Request\<close>, \<open>Haze_Notification\<close>: the messages; round trips through
    the wire format, progress of the decoder on arbitrary bytes, all-or-nothing encoding under any
    allocator, what each constructor of a response leaves, and the inputs the decoders get wrong. \<open>read_request\<close> is the
    reference for what the decoder of requests makes of any bytes, and \<open>read_requests\<close> for a stream of them.
  \<^item> \<open>Haze_Float\<close>, \<open>Haze_Sample\<close>, \<open>Haze_SampleList\<close>, \<open>Haze_Channel\<close>, \<open>Haze_Session\<close>: the audio state. A
    handle of the audio library is the list of calls made on it. Importing, deleting (locale
    \<open>named_store\<close>), listing and releasing samples, channels and sessions, with every block accounted for.
  \<^item> \<open>Haze_Fs\<close>: \<^verbatim>\<open>fs/Paths.c\<close> and \<^verbatim>\<open>fs/InstanceRegistry.c\<close>: the directory layout, the bytes of a registry
    file and the last registered port.
  \<^item> \<open>Haze_Context\<close>, \<open>Haze_Dispatcher\<close>: the context and the method table. The abstract service is a table
    from method names to replies and state changes on a \<open>view\<close> of the context; the dispatcher refines
    it. It is the table of the code: where the documents describe another one, they differ. A queued job carries a
    \<open>payload\<close>, which is \<open>In_request\<close> while the request it points into lives and \<open>Dangling\<close> from its release on.
  \<^item> \<open>Haze_Server\<close>, \<open>Haze_Server_Laws\<close>: \<^verbatim>\<open>server/HazeServer.c\<close> and \<^verbatim>\<open>server/Dispatch.c\<close>. The callbacks are
    steps of an inductive relation \<open>srv_step\<close> whose premises are the contract of the event loop (a read is one call for
    a buffer and one delivery into it); the
    connection table (locale \<open>handle_table\<close>) and the buffers keep their invariant in every reachable
    state.
  \<^item> \<open>Haze_Stream\<close>: the end-to-end theorem for one read: any bytes in, the replies of the service to the requests read in
    them out, in order. \<open>Haze_Main\<close>: \<^verbatim>\<open>main.c\<close>: arguments, start and the search for a port. \<open>Haze_Run\<close>: the event loop until a signal
    stops it (\<open>loop_step\<close>), the release of a server with its connections (\<open>drain_step\<close>) and the end of \<^verbatim>\<open>main\<close>
    (\<open>main_serve\<close>, a relation between the start, the state the loop stopped in and the end): a signal ends it from every
    state, and what is released between the stop and the end is counted.
  \<^item> \<open>Haze_Trace\<close>: whole runs. An \<open>event\<close> is what the loop reports (a client, bytes of any kind, a read without data, a
    hang-up, a finished write or close); \<open>may_happen\<close> is the contract of the loop. Locale \<open>simulation\<close> is interpreted on
    the callbacks and the abstract service: what the server has written is what the service answers to the requests the
    decoder reads, whatever the order of the events. \<open>unowned\<close> counts the blocks nothing the server keeps points to:
    exactly the copies the decoder of requests loses and the jobs handed to the queue. Together with \<open>Haze_Run\<close> that is
    the balance of the whole program, from its start to its signal.
  \<^item> \<open>Haze_Tempo\<close>: \<^verbatim>\<open>audio/Tempo.c\<close> in the float arithmetic of \<open>Haze_Float\<close>, exact against a reference over natural numbers.
    \<open>Haze_Text\<close>: \<^verbatim>\<open>strdup.c\<close>, \<^verbatim>\<open>ResponseToString\<close>, \<^verbatim>\<open>RequestPrint\<close> and \<^verbatim>\<open>session/SessionLog.h\<close>. \<open>Haze_Project\<close>:
    \<^verbatim>\<open>project/Header.c\<close> and the tag table of \<^verbatim>\<open>msgpack/Tag.h\<close>, compared with what the MPack reader does.
  \<^item> \<open>Client_Object\<close>, \<open>Client_Object_Laws\<close>: \<^verbatim>\<open>Object.cpp\<close> of the client. The tag and the \<^verbatim>\<open>std::variant\<close> are two fields, as in
    the class, and \<^verbatim>\<open>std::get\<close> throws when they disagree; the two locales are interpreted on the client's arrays and maps,
    and \<open>operator==\<close> decides what different keys are. \<open>Client_Response\<close>,
    \<open>Client_Request\<close>: \<^verbatim>\<open>Response.cpp\<close>, \<^verbatim>\<open>Request.cpp\<close> and \<^verbatim>\<open>HazeClient.cpp\<close>; the client reads what the server
    writes, and the objects that constructors, methods and decoder make (\<open>built\<close>) never make \<^verbatim>\<open>std::get\<close> throw.
    \<open>Client_Stream\<close>: server and client composed, for one read and for whole runs.

  \<^bold>\<open>Fuel and loops.\<close> Loops are structural recursions or have a termination proof. The nested decoder takes
  fuel, one more than the number of bytes, which is enough because every value takes a byte
  (\<open>ResponseUnmarshal\<close>, and \<open>Response_Unmarshal\<close> of the client, which is proved total) or stops at its
  depth limit (\<open>NotificationUnmarshal\<close>, proved total). Undefined behaviour and missing fuel are different results of the
  decoder of responses. The growth of
  a connection's buffer and the search for a port may run for ever in the source and are partial
  functions; when they end is a theorem.

  \<^bold>\<open>C++.\<close> An exception is the left side of a sum. Objects are values: copies and moves give the same value, and a
  returned pointer is its target with the assignment through it. A \<^verbatim>\<open>std::bad_alloc\<close> is modelled where the size comes
  from the peer (\<open>cpp_request\<close>), not for the copies of objects that exist already.

  \<^bold>\<open>Not modelled.\<close> What libuv does inside (its answers are records and its loop is the step relations), log messages,
  declarations without a definition (\<^verbatim>\<open>AudioThread.h\<close>, most of the job queue and the playlist, the getters of
  \<^verbatim>\<open>project/Header.h\<close>, \<^verbatim>\<open>RequestMarshal\<close>, \<^verbatim>\<open>RequestUnmarshal\<close> and \<^verbatim>\<open>Ping\<close> of the client), \<^verbatim>\<open>msgpack/Decoder.c\<close> (commented
  out from end to end), the Windows branches, the vendored libraries beyond the MPack functions Haze calls, and the
  programs in other languages.
\<close>

end
